(* ===== verification/Prelude.thy ===== *)
theory Prelude
  imports Main "HOL-Library.Char_ord" "HOL-Library.List_Lexorder" "HOL-Library.Sublist"
begin

text \<open>
  What the component theories share: the exceptions of the program as values, the part of the
  C and C++ standard library the sources call on characters and strings (the classification
  functions of \<^verbatim>\<open><cctype>\<close> in the C locale, which the programs never change, and the members
  \<^verbatim>\<open>find\<close>, \<^verbatim>\<open>find_first_of\<close>, \<^verbatim>\<open>substr\<close> of \<^verbatim>\<open>std::string\<close>), and the generic
  facts on lists the component proofs rest on.

  A \<^verbatim>\<open>std::string\<close> is a \<^typ>\<open>string\<close>, one 8-bit \<^typ>\<open>char\<close> per byte. The order on
  strings is the one of \<^verbatim>\<open>std::string::operator<\<close>: lexicographic on the unsigned bytes.
\<close>

named_theorems ctype_defs "definitions of the character classification functions"
named_theorems exn_simps "rewriting of the exception monad"

section \<open>Exceptions\<close>

text \<open>
  One constructor per class of failure. \<open>UrlParseError\<close> is derived from \<open>BadUrl\<close>, which is
  derived from \<^verbatim>\<open>std::runtime_error\<close> (\<^verbatim>\<open>Url.hh\<close>); the message an exception carries is not
  kept. \<open>MongoError\<close> is an exception of the database driver. \<open>AssertFailed\<close> is a failing \<^verbatim>\<open>assert\<close> and
  \<open>Exited\<close> a call of \<^verbatim>\<open>exit\<close>, which end the process, and \<open>Undefined\<close> marks a call whose behaviour the C++
  standard leaves undefined.
\<close>

datatype exn = UrlParseError | BadUrl | RuntimeError | LogicError | OutOfRange
  | MongoError | AssertFailed | Exited | Undefined

type_synonym 'a res = "exn + 'a"

definition bindR :: "'a res \<Rightarrow> ('a \<Rightarrow> 'b res) \<Rightarrow> 'b res" where
  "bindR m f = (case m of Inl e \<Rightarrow> Inl e | Inr x \<Rightarrow> f x)"

text \<open>The exceptions a \<^verbatim>\<open>catch(BadUrl&)\<close> and a \<^verbatim>\<open>catch(std::runtime_error&)\<close> take.\<close>

definition is_bad_url :: "exn \<Rightarrow> bool" where
  "is_bad_url e \<longleftrightarrow> e = UrlParseError \<or> e = BadUrl"

definition is_runtime_error :: "exn \<Rightarrow> bool" where
  "is_runtime_error e \<longleftrightarrow> is_bad_url e \<or> e = RuntimeError"

lemma bindR_simps [simp, exn_simps]:
  "bindR (Inl e) f = Inl e"
  "bindR (Inr x) f = f x"
  by (simp_all add: bindR_def)

lemma bindR_eq_Inr [exn_simps]:
  "bindR m f = Inr y \<longleftrightarrow> (\<exists>x. m = Inr x \<and> f x = Inr y)"
  by (cases m) simp_all

lemma bindR_InrE:
  assumes "bindR m f = Inr y"
  obtains x where "m = Inr x" "f x = Inr y"
  using assms by (auto simp: bindR_eq_Inr)

lemma bindR_cong [fundef_cong]:
  assumes "m = m'" and "\<And>x. m' = Inr x \<Longrightarrow> f x = f' x"
  shows "bindR m f = bindR m' f'"
  using assms by (cases m') simp_all

section \<open>Characters\<close>

abbreviation byte :: "char \<Rightarrow> nat" where
  "byte c \<equiv> of_char c"

text \<open>\<^verbatim>\<open>char\<close> is signed on the platforms the program is built for.\<close>

definition schar :: "char \<Rightarrow> int" where
  "schar c = (if byte c < 128 then int (byte c) else int (byte c) - 256)"

definition isdigit :: "char \<Rightarrow> bool" where
  [ctype_defs]: "isdigit c \<longleftrightarrow> 48 \<le> byte c \<and> byte c \<le> 57"

definition isupper :: "char \<Rightarrow> bool" where
  [ctype_defs]: "isupper c \<longleftrightarrow> 65 \<le> byte c \<and> byte c \<le> 90"

definition islower :: "char \<Rightarrow> bool" where
  [ctype_defs]: "islower c \<longleftrightarrow> 97 \<le> byte c \<and> byte c \<le> 122"

definition isalpha :: "char \<Rightarrow> bool" where
  [ctype_defs]: "isalpha c \<longleftrightarrow> isupper c \<or> islower c"

definition isalnum :: "char \<Rightarrow> bool" where
  [ctype_defs]: "isalnum c \<longleftrightarrow> isalpha c \<or> isdigit c"

definition isxdigit :: "char \<Rightarrow> bool" where
  [ctype_defs]: "isxdigit c \<longleftrightarrow> isdigit c \<or> 65 \<le> byte c \<and> byte c \<le> 70 \<or> 97 \<le> byte c \<and> byte c \<le> 102"

definition isspace :: "char \<Rightarrow> bool" where
  [ctype_defs]: "isspace c \<longleftrightarrow> byte c = 32 \<or> 9 \<le> byte c \<and> byte c \<le> 13"

definition iscntrl :: "char \<Rightarrow> bool" where
  [ctype_defs]: "iscntrl c \<longleftrightarrow> byte c < 32 \<or> byte c = 127"

definition tolower :: "char \<Rightarrow> char" where
  "tolower c = (if isupper c then char_of (byte c + 32) else c)"

definition toupper :: "char \<Rightarrow> char" where
  "toupper c = (if islower c then char_of (byte c - 32) else c)"

lemma byte_less_256 [simp]: "byte c < 256"
  by simp

lemma byte_char_of [simp]: "n < 256 \<Longrightarrow> byte (char_of n) = n"
  by simp

lemma char_eq_byte: "c = d \<longleftrightarrow> byte c = byte d"
  by simp

lemma byte_eqD: "byte c = n \<Longrightarrow> c = char_of n"
  by auto

lemma byte_tolower: "byte (tolower c) = (if isupper c then byte c + 32 else byte c)"
  by (auto simp: tolower_def isupper_def)

lemma byte_toupper: "byte (toupper c) = (if islower c then byte c - 32 else byte c)"
  by (auto simp: toupper_def islower_def)

lemma tolower_tolower [simp]: "tolower (tolower c) = tolower c"
  by (auto simp: tolower_def isupper_def)

lemma toupper_toupper [simp]: "toupper (toupper c) = toupper c"
  by (auto simp: toupper_def islower_def)

lemma isxdigit_toupper [simp]: "isxdigit (toupper c) = isxdigit c"
  by (auto simp: isxdigit_def isdigit_def byte_toupper islower_def)

lemma isxdigit_isalnum: "isxdigit c \<Longrightarrow> isalnum c"
  by (auto simp: ctype_defs)

section \<open>Strings\<close>

text \<open>
  \<^verbatim>\<open>s.find(c, pos)\<close> and \<^verbatim>\<open>s.find_first_of(cs, pos)\<close>: the least index from \<open>pos\<close> on whose
  character satisfies the predicate; \<open>None\<close> is \<^verbatim>\<open>std::string::npos\<close>.
\<close>

definition sfind :: "(char \<Rightarrow> bool) \<Rightarrow> string \<Rightarrow> nat \<Rightarrow> nat option" where
  "sfind P s pos =
     (let t = drop pos s; n = length (takeWhile (\<lambda>c. \<not> P c) t)
      in if n < length t then Some (pos + n) else None)"

text \<open>\<^verbatim>\<open>s.substr(pos, len)\<close> for an index inside the string.\<close>

definition substr :: "string \<Rightarrow> nat \<Rightarrow> nat \<Rightarrow> string" where
  "substr s pos len = take len (drop pos s)"

lemma takeWhile_less_length:
  "length (takeWhile P xs) < length xs \<longleftrightarrow> (\<exists>x\<in>set xs. \<not> P x)"
  by (induction xs) auto

lemma sfind_None: "sfind P s pos = None \<longleftrightarrow> (\<forall>c\<in>set (drop pos s). \<not> P c)"
  by (auto simp: sfind_def Let_def takeWhile_less_length)

lemma sfind_Some:
  assumes "sfind P s pos = Some i"
  shows "pos \<le> i" "i < length s" "P (s ! i)" "\<forall>j. pos \<le> j \<longrightarrow> j < i \<longrightarrow> \<not> P (s ! j)"
proof -
  let ?t = "drop pos s"
  let ?n = "length (takeWhile (\<lambda>c. \<not> P c) ?t)"
  from assms have n: "?n < length ?t" and i: "i = pos + ?n"
    by (auto simp: sfind_def Let_def split: if_splits)
  show "pos \<le> i" using i by simp
  show "i < length s" using n i by simp
  from n have "P (?t ! ?n)" using nth_length_takeWhile [of "\<lambda>c. \<not> P c" ?t] by simp
  with n i show "P (s ! i)" by simp
  show "\<forall>j. pos \<le> j \<longrightarrow> j < i \<longrightarrow> \<not> P (s ! j)"
  proof (intro allI impI)
    fix j assume j: "pos \<le> j" "j < i"
    then have "j - pos < ?n" using i by simp
    then have "\<not> P (takeWhile (\<lambda>c. \<not> P c) ?t ! (j - pos))"
      by (metis nth_mem set_takeWhileD)
    with j n i show "\<not> P (s ! j)" by (simp add: takeWhile_nth)
  qed
qed

lemma sfind_append:
  assumes "\<forall>c\<in>set a. \<not> P c" and "P d"
  shows "sfind P (a @ d # b) 0 = Some (length a)"
  using assms by (simp add: sfind_def takeWhile_append)

lemma takeWhile_all: "(\<And>x. x \<in> set xs \<Longrightarrow> P x) \<Longrightarrow> takeWhile P xs = xs"
  by (simp add: takeWhile_eq_all_conv)

lemma takeWhile_stop [simp]:
  "(\<And>x. x \<in> set xs \<Longrightarrow> P x) \<Longrightarrow> \<not> P y \<Longrightarrow> takeWhile P (xs @ y # ys) = xs"
  by (simp add: takeWhile_append2)

lemma dropWhile_stop [simp]:
  "(\<And>x. x \<in> set xs \<Longrightarrow> P x) \<Longrightarrow> \<not> P y \<Longrightarrow> dropWhile P (xs @ y # ys) = y # ys"
  by (simp add: dropWhile_append2)

section \<open>Numbers in decimal\<close>

text \<open>What \<^verbatim>\<open>operator<<\<close> prints for an integer.\<close>

fun nat_digits :: "nat \<Rightarrow> string" where
  "nat_digits k = (if k < 10 then [char_of (48 + k)] else nat_digits (k div 10) @ [char_of (48 + k mod 10)])"

declare nat_digits.simps [simp del]

definition int_digits :: "int \<Rightarrow> string" where
  "int_digits k = (if k < 0 then CHR ''-'' # nat_digits (nat (- k)) else nat_digits (nat k))"

definition digits_val :: "string \<Rightarrow> nat" where
  "digits_val ds = foldl (\<lambda>n c. 10 * n + (byte c - 48)) 0 ds"

lemma digits_val_snoc [simp]: "digits_val (ds @ [c]) = 10 * digits_val ds + (byte c - 48)"
  by (simp add: digits_val_def)

lemma nat_digits_digit: "\<forall>c\<in>set (nat_digits k). isdigit c"
proof (induction k rule: nat_digits.induct)
  case (1 k)
  then show ?case by (subst nat_digits.simps) (auto simp: isdigit_def)
qed

lemma nat_digits_nonempty [simp]: "nat_digits k \<noteq> []"
  by (subst nat_digits.simps) simp

lemma digits_val_nat_digits [simp]: "digits_val (nat_digits k) = k"
proof (induction k rule: nat_digits.induct)
  case (1 k)
  show ?case
  proof (cases "k < 10")
    case True
    then show ?thesis by (simp add: nat_digits.simps [of k] digits_val_def)
  next
    case False
    then have "nat_digits k = nat_digits (k div 10) @ [char_of (48 + k mod 10)]" by (subst nat_digits.simps) simp
    then show ?thesis using 1 False by simp
  qed
qed

end
