(* ===== verification/Hex.thy ===== *)
theory Hex
  imports Prelude "HOL-Library.Word"
begin

text \<open>
  Hexadecimal digits: the inline helpers of \<^verbatim>\<open>src/common/utils.hh\<close> that the percent-encoding of URLs
  uses, and the conversions of SHA-1 digests and hex dumps of \<^verbatim>\<open>src/common/utils.cc\<close>. The shared
  facts are that the two digit maps are inverse to each other and that a digest written with
  \<^verbatim>\<open>sha1_to_hex\<close> is read back by \<^verbatim>\<open>get_sha1_from_hex\<close>.
\<close>

unbundle bit_operations_syntax

section \<open>Digits (utils.hh)\<close>

text \<open>
  The value of a digit character and the character of a digit value, where they are defined; the
  functions of the source add the check that throws \<^verbatim>\<open>std::logic_error\<close>.
\<close>

definition xval :: "char \<Rightarrow> nat" where
  "xval c = (if byte c < byte CHR ''A'' then byte c - byte CHR ''0''
             else byte (toupper c) - byte CHR ''A'' + 10)"

definition xnum :: "nat \<Rightarrow> char" where
  "xnum n = ''0123456789ABCDEF'' ! n"

definition xdigit_to_num :: "char \<Rightarrow> nat res" where
  "xdigit_to_num c = (if \<not> isxdigit c then Inl LogicError else Inr (xval c))"

text \<open>The value of two hexadecimal digits, converted to \<^verbatim>\<open>char\<close>.\<close>

definition x2val :: "char \<Rightarrow> char \<Rightarrow> char" where
  "x2val c1 c2 = char_of (xval c1 * 16 + xval c2)"

definition x2digits_to_num :: "char \<Rightarrow> char \<Rightarrow> char res" where
  "x2digits_to_num c1 c2 =
     (if \<not> isxdigit c1 \<or> \<not> isxdigit c2 then Inl LogicError
      else bindR (xdigit_to_num c1) (\<lambda>h. bindR (xdigit_to_num c2) (\<lambda>l. Inr (char_of (h * 16 + l)))))"

definition digit_to_xnum :: "int \<Rightarrow> char res" where
  "digit_to_xnum c = (if 0 \<le> c \<and> c \<le> 15 then Inr (xnum (nat c)) else Inl LogicError)"

section \<open>Digests and dumps (utils.cc)\<close>

text \<open>\<^verbatim>\<open>~0\<close> of type \<^verbatim>\<open>unsigned\<close> marks a character that is no digit.\<close>

definition hexval :: "char \<Rightarrow> 32 word" where
  "hexval c =
     (if 48 \<le> byte c \<and> byte c \<le> 57 then of_nat (byte c - 48)
      else if 97 \<le> byte c \<and> byte c \<le> 102 then of_nat (byte c - 97 + 10)
      else if 65 \<le> byte c \<and> byte c \<le> 70 then of_nat (byte c - 65 + 10)
      else NOT 0)"

text \<open>
  The C string \<open>hex\<close> is read up to and including its terminating NUL; a read beyond it is
  undefined. The result is the value returned, 0 or \<^verbatim>\<open>-1\<close>, and the bytes stored by then.
\<close>

definition cstr_at :: "string \<Rightarrow> nat \<Rightarrow> char res" where
  "cstr_at s i = (if i < length s then Inr (s ! i) else if i = length s then Inr (CHR 0x00)
                  else Inl Undefined)"

fun sha1_from_hex_loop :: "nat \<Rightarrow> string \<Rightarrow> char list \<Rightarrow> (int \<times> char list) res" where
  "sha1_from_hex_loop 0 hex sha1 = Inr (0, sha1)"
| "sha1_from_hex_loop (Suc n) hex sha1 =
     bindR (cstr_at hex 0) (\<lambda>h. bindR (cstr_at hex 1) (\<lambda>l.
       let val = push_bit 4 (hexval h) OR hexval l in
       if val AND NOT 0xff \<noteq> 0 then Inr (-1, sha1)
       else sha1_from_hex_loop n (drop 2 hex) (sha1 @ [char_of (unat val)])))"

definition get_sha1_from_hex :: "string \<Rightarrow> (int \<times> char list) res" where
  "get_sha1_from_hex hex = sha1_from_hex_loop 20 hex []"

definition hexdigit :: "nat \<Rightarrow> char" where
  "hexdigit n = ''0123456789abcdef'' ! n"

definition sha1_to_hex :: "char list \<Rightarrow> string" where
  "sha1_to_hex sha1 =
     concat (map (\<lambda>b. [hexdigit (byte b div 16), hexdigit (byte b mod 16)]) (take 20 sha1))"

text \<open>\<^verbatim>\<open>sprintf(tmp, "%02x ", c)\<close> of every byte.\<close>

definition makeHexDump :: "string \<Rightarrow> string" where
  "makeHexDump str =
     concat (map (\<lambda>c. [hexdigit (byte c div 16), hexdigit (byte c mod 16), CHR '' '']) str)"

section \<open>Facts\<close>

lemma less_16_cases: "(k::nat) < 16 \<Longrightarrow> k \<in> {0, 1, 2, 3, 4, 5, 6, 7, 8, 9, 10, 11, 12, 13, 14, 15}"
  by (simp only: insert_iff empty_iff) presburger

lemma xnum_isxdigit [simp]: "n < 16 \<Longrightarrow> isxdigit (xnum n)"
  by (drule less_16_cases) (auto simp: xnum_def ctype_defs)

lemma xval_xnum [simp]: "n < 16 \<Longrightarrow> xval (xnum n) = n"
  by (drule less_16_cases) (auto simp: xnum_def xval_def toupper_def islower_def)

lemma xval_less_16: "isxdigit c \<Longrightarrow> xval c < 16"
  by (auto simp: xval_def ctype_defs byte_toupper)

lemma xval_toupper: "isxdigit c \<Longrightarrow> xval (toupper c) = xval c"
  by (auto simp: xval_def ctype_defs byte_toupper)

lemma toupper_xnum [simp]: "n < 16 \<Longrightarrow> toupper (xnum n) = xnum n"
  by (drule less_16_cases) (auto simp: xnum_def toupper_def islower_def)

lemma byte_div_16 [simp]: "byte c div 16 < 16"
  using byte_less_256 [of c] by linarith

lemma x2val_xnum [simp]: "x2val (xnum (byte c div 16)) (xnum (byte c mod 16)) = c"
  by (simp add: x2val_def)

lemma digit_to_xnum_high: "digit_to_xnum (int (byte c div 16)) = Inr (xnum (byte c div 16))"
  using byte_div_16 [of c] by (simp add: digit_to_xnum_def del: byte_div_16)

lemma digit_to_xnum_low: "digit_to_xnum (int (byte c mod 16)) = Inr (xnum (byte c mod 16))"
proof -
  have "byte c mod 16 < 16" by simp
  then have "int (byte c mod 16) \<le> 15" by linarith
  then show ?thesis by (simp add: digit_to_xnum_def)
qed

lemma x2digits_to_num_xdigits:
  "isxdigit a \<Longrightarrow> isxdigit b \<Longrightarrow> x2digits_to_num a b = Inr (x2val a b)"
  by (simp add: x2digits_to_num_def xdigit_to_num_def x2val_def)

lemma hexdigit_byte: "n < 16 \<Longrightarrow> byte (hexdigit n) = (if n < 10 then 48 + n else 87 + n)"
  by (drule less_16_cases) (auto simp: hexdigit_def)

lemma hexval_hexdigit: "n < 16 \<Longrightarrow> hexval (hexdigit n) = of_nat n"
  by (drule less_16_cases) (auto simp: hexdigit_def hexval_def)

lemma hexval_byte:
  "push_bit 4 (hexval (hexdigit (byte b div 16))) OR hexval (hexdigit (byte b mod 16)) = of_nat (byte b)"
proof -
  have "byte b = 16 * (byte b div 16) + byte b mod 16" by simp
  obtain h l where hl: "byte b div 16 = h" "byte b mod 16 = l" "h < 16" "l < 16"
    using byte_div_16 [of b] by auto
  then have eq: "byte b = 16 * h + l" by presburger
  have "push_bit 4 (of_nat h :: 32 word) OR of_nat l = of_nat (16 * h + l)"
    using less_16_cases [OF hl(3)] less_16_cases [OF hl(4)] by (elim insertE emptyE) simp_all
  then show ?thesis using hl eq by (simp add: hexval_hexdigit)
qed

lemma byte_word_high: "(of_nat (byte b) :: 32 word) AND NOT 0xff = 0"
proof -
  let ?x = "of_nat (byte b) :: 32 word"
  have "take_bit 8 ?x = of_nat (take_bit 8 (byte b))" by (simp only: take_bit_of_nat)
  also have "take_bit 8 (byte b) = byte b" by (simp add: take_bit_eq_mod)
  finally have "?x = ?x AND mask 8" by (simp add: take_bit_eq_mask)
  moreover have "(0xff :: 32 word) = mask 8" by (simp add: mask_eq_exp_minus_1)
  ultimately show ?thesis by (metis and.assoc and_zero_eq bit.conj_cancel_right)
qed

lemma byte_word_unat: "unat (of_nat (byte b) :: 32 word) = byte b"
proof -
  have "byte b < 2 ^ 32" by (rule order.strict_trans [OF byte_less_256]) simp
  then show ?thesis by (simp add: unat_of_nat take_bit_eq_mod)
qed

lemma sha1_from_hex_loop_to_hex:
  "sha1_from_hex_loop (length bs) (concat (map (\<lambda>b. [hexdigit (byte b div 16), hexdigit (byte b mod 16)]) bs)) acc
     = Inr (0, acc @ bs)"
proof (induction bs arbitrary: acc)
  case (Cons b bs)
  then show ?case
    using Cons.IH [of "acc @ [b]"] by (simp add: cstr_at_def hexval_byte byte_word_high [simplified] byte_word_unat Let_def)
qed simp

section \<open>Properties\<close>

text \<open>C25. A SHA-1 digest written by \<^verbatim>\<open>sha1_to_hex\<close> is read back by
  \<^verbatim>\<open>get_sha1_from_hex\<close>: it returns 0 and stores the 20 bytes.\<close>

theorem sha1_hex_roundtrip:
  assumes "length sha1 = 20"
  shows "get_sha1_from_hex (sha1_to_hex sha1) = Inr (0, sha1)"
  using sha1_from_hex_loop_to_hex [of sha1 "[]"] assms
  by (simp add: get_sha1_from_hex_def sha1_to_hex_def)

theorem sha1_hex_roundtrip_witness:
  "get_sha1_from_hex (sha1_to_hex (map char_of [236..<256::nat])) = Inr (0, map char_of [236..<256::nat])"
  by (rule sha1_hex_roundtrip) simp

text \<open>A shorter string of an odd number of digits is refused, but after an even number of digits both
  characters of the next pair are read, the second one beyond the terminating NUL.\<close>

lemma get_sha1_from_hex_short:
  "get_sha1_from_hex ''0'' = Inr (-1, []) \<and> get_sha1_from_hex ''00'' = Inl Undefined"
  by code_simp

end
