(* ===== verification/Url_Chars.thy ===== *)
theory Url_Chars
  imports Hex
begin

text \<open>
  Character classes and percent-escapes of URLs: the table of \<^verbatim>\<open>src/common/Url.hh\<close> and the
  static members \<^verbatim>\<open>escape\<close>, \<^verbatim>\<open>escape_reserved_unsafe\<close>, the four \<^verbatim>\<open>unescape\<close>
  variants and \<^verbatim>\<open>normalize_escapes(const string&)\<close> of \<^verbatim>\<open>src/common/Url.cc\<close>.

  The proofs go through a token view of a string: a token is a valid escape \<^verbatim>\<open>%XX\<close> or a single
  character, \<open>toks\<close> cuts a string into tokens from the left and \<open>untoks\<close> writes them back. Every
  operation of the source maps a function over the tokens.
\<close>

section \<open>The table\<close>

definition URL_CHAR_RESERVED :: "8 word" where "URL_CHAR_RESERVED = 0x1"
definition URL_CHAR_UNSAFE :: "8 word" where "URL_CHAR_UNSAFE = 0x2"
definition URL_CHAR_ESC :: "8 word" where "URL_CHAR_ESC = 0x4"
definition URL_CHAR_AUTH :: "8 word" where "URL_CHAR_AUTH = 0x8"
definition URL_CHAR_PATH :: "8 word" where "URL_CHAR_PATH = 0x10"
definition URL_CHAR_QUERY :: "8 word" where "URL_CHAR_QUERY = 0x20"
definition URL_CHAR_FRAGMENT :: "8 word" where "URL_CHAR_FRAGMENT = 0x40"

lemmas url_char_defs = URL_CHAR_RESERVED_def URL_CHAR_UNSAFE_def URL_CHAR_ESC_def URL_CHAR_AUTH_def
  URL_CHAR_PATH_def URL_CHAR_QUERY_def URL_CHAR_FRAGMENT_def

text \<open>The first four rows of the table, the control characters, and its last eight, the octets from 0x80
  on, are all \<open>X\<close>.\<close>

definition url_char_table :: "8 word list" where
  "url_char_table =
    (let R = URL_CHAR_RESERVED; U = URL_CHAR_UNSAFE; E = URL_CHAR_ESC; A = URL_CHAR_AUTH;
         P = URL_CHAR_PATH; Q = URL_CHAR_QUERY; F = URL_CHAR_FRAGMENT;
         RU = R OR U; X = U OR E OR A OR P OR Q OR F
     in
      replicate 32 X @
      [X,  0,  X, RU OR A OR P OR Q, R, X, R, 0,
       0,  0,  0,  R,   R,  0,  0,  R OR A,
       0,  0,  0,  0,   0,  0,  0,  0,
       0,  0, RU,  R,   X,  R,  X,  R OR A OR P,
      RU,  0,  0,  0,   0,  0,  0,  0,
       0,  0,  0,  0,   0,  0,  0,  0,
       0,  0,  0,  0,   0,  0,  0,  0,
       0,  0,  0, RU,   X, RU,  X,  0,
       X,  0,  0,  0,   0,  0,  0,  0,
       0,  0,  0,  0,   0,  0,  0,  0,
       0,  0,  0,  0,   0,  0,  0,  0,
       0,  0,  0,  X,   X,  X,  0,  X] @ replicate 128 X)"

definition url_char_test :: "char \<Rightarrow> 8 word \<Rightarrow> bool" where
  "url_char_test c msk \<longleftrightarrow> url_char_table ! byte c AND msk \<noteq> 0"

section \<open>Operations\<close>

text \<open>The test \<^verbatim>\<open>(i+1) != s.end() && (i+2) != s.end() && isxdigit(*(i+1)) && isxdigit(*(i+2))\<close> on
  the characters after \<^verbatim>\<open>*i\<close>.\<close>

definition xx_follows :: "string \<Rightarrow> bool" where
  "xx_follows cs \<longleftrightarrow> (case cs of h # l # _ \<Rightarrow> isxdigit h \<and> isxdigit l | _ \<Rightarrow> False)"

text \<open>The loop of \<^verbatim>\<open>escape\<close>; the first loop of the source only computes a capacity.\<close>

function escape_loop :: "8 word \<Rightarrow> string \<Rightarrow> string res" where
  "escape_loop msk [] = Inr []"
| "escape_loop msk (c # cs) =
     (if url_char_test c msk then
        if c = CHR ''%'' \<and> xx_follows cs then
          bindR (escape_loop msk (drop 2 cs)) (\<lambda>r. Inr (c # cs ! 0 # cs ! 1 # r))
        else
          bindR (digit_to_xnum (int (drop_bit 4 (byte c)))) (\<lambda>c1.
          bindR (digit_to_xnum (schar c AND 0xf)) (\<lambda>c2.
          bindR (escape_loop msk cs) (\<lambda>r. Inr (CHR ''%'' # c1 # c2 # r))))
      else bindR (escape_loop msk cs) (\<lambda>r. Inr (c # r)))"
  by pat_completeness auto
termination by (relation "measure (\<lambda>(_, s). length s)") auto

definition escape :: "string \<Rightarrow> 8 word \<Rightarrow> string res" where
  "escape s msk = (if s = [] then Inr s else escape_loop msk s)"

definition escape_reserved_unsafe :: "string \<Rightarrow> string res" where
  "escape_reserved_unsafe s = escape s (URL_CHAR_RESERVED OR URL_CHAR_UNSAFE)"

text \<open>
  The four variants of \<^verbatim>\<open>unescape\<close> have the same loop but for the test on the decoded
  character, the argument \<open>P\<close> here. The conjunct on NUL is the one of the source: it compares the
  two digit characters with the number 0.
\<close>

function unescape_loop :: "(char \<Rightarrow> bool) \<Rightarrow> string \<Rightarrow> string res" where
  "unescape_loop P [] = Inr []"
| "unescape_loop P (c # cs) =
     (if c = CHR ''%'' \<and> xx_follows cs \<and> (byte (cs ! 0) \<noteq> 0 \<or> byte (cs ! 1) \<noteq> 0) then
        bindR (x2digits_to_num (cs ! 0) (cs ! 1)) (\<lambda>d.
          if P d then bindR (unescape_loop P (drop 2 cs)) (\<lambda>r. Inr (d # r))
          else bindR (unescape_loop P cs) (\<lambda>r. Inr (c # r)))
      else bindR (unescape_loop P cs) (\<lambda>r. Inr (c # r)))"
  by pat_completeness auto
termination by (relation "measure (\<lambda>(_, s). length s)") auto

definition unescape :: "string \<Rightarrow> string res" where
  "unescape s = (if s = [] \<or> sfind (\<lambda>c. c = CHR ''%'') s 0 = None then Inr s
                 else unescape_loop (\<lambda>_. True) s)"

definition unescape_mask :: "string \<Rightarrow> 8 word \<Rightarrow> string res" where
  "unescape_mask s msk = (if s = [] \<or> sfind (\<lambda>c. c = CHR ''%'') s 0 = None then Inr s
                 else unescape_loop (\<lambda>c. url_char_test c msk) s)"

definition unescape_not :: "string \<Rightarrow> 8 word \<Rightarrow> string res" where
  "unescape_not s msk = (if s = [] \<or> sfind (\<lambda>c. c = CHR ''%'') s 0 = None then Inr s
                 else unescape_loop (\<lambda>c. url_char_table ! byte c AND msk = 0) s)"

definition unescape_safe :: "string \<Rightarrow> string res" where
  "unescape_safe s = (if s = [] \<or> sfind (\<lambda>c. c = CHR ''%'') s 0 = None then Inr s
                 else unescape_loop
                   (\<lambda>c. url_char_table ! byte c AND (URL_CHAR_RESERVED OR URL_CHAR_UNSAFE) = 0) s)"

function upcase_escapes :: "string \<Rightarrow> string" where
  "upcase_escapes [] = []"
| "upcase_escapes (c # cs) =
     (if c = CHR ''%'' \<and> xx_follows cs
      then c # toupper (cs ! 0) # toupper (cs ! 1) # upcase_escapes (drop 2 cs)
      else c # upcase_escapes cs)"
  by pat_completeness auto
termination by (relation "measure length") auto

definition normalize_escapes :: "string \<Rightarrow> string res" where
  "normalize_escapes s = bindR (unescape_safe s) (\<lambda>res. Inr (upcase_escapes res))"

section \<open>Facts on the table\<close>

lemma url_char_table_eval: "url_char_table =
  [126, 126, 126, 126, 126, 126, 126, 126, 126, 126, 126, 126, 126, 126, 126, 126,
   126, 126, 126, 126, 126, 126, 126, 126, 126, 126, 126, 126, 126, 126, 126, 126,
   126, 0, 126, 59, 1, 126, 1, 0, 0, 0, 0, 1, 1, 0, 0, 9,
   0, 0, 0, 0, 0, 0, 0, 0, 0, 0, 3, 1, 126, 1, 126, 25,
   3, 0, 0, 0, 0, 0, 0, 0, 0, 0, 0, 0, 0, 0, 0, 0,
   0, 0, 0, 0, 0, 0, 0, 0, 0, 0, 0, 3, 126, 3, 126, 0,
   126, 0, 0, 0, 0, 0, 0, 0, 0, 0, 0, 0, 0, 0, 0, 0,
   0, 0, 0, 0, 0, 0, 0, 0, 0, 0, 0, 126, 126, 126, 0, 126,
   126, 126, 126, 126, 126, 126, 126, 126, 126, 126, 126, 126, 126, 126, 126, 126,
   126, 126, 126, 126, 126, 126, 126, 126, 126, 126, 126, 126, 126, 126, 126, 126,
   126, 126, 126, 126, 126, 126, 126, 126, 126, 126, 126, 126, 126, 126, 126, 126,
   126, 126, 126, 126, 126, 126, 126, 126, 126, 126, 126, 126, 126, 126, 126, 126,
   126, 126, 126, 126, 126, 126, 126, 126, 126, 126, 126, 126, 126, 126, 126, 126,
   126, 126, 126, 126, 126, 126, 126, 126, 126, 126, 126, 126, 126, 126, 126, 126,
   126, 126, 126, 126, 126, 126, 126, 126, 126, 126, 126, 126, 126, 126, 126, 126,
   126, 126, 126, 126, 126, 126, 126, 126, 126, 126, 126, 126, 126, 126, 126, 126]"
  by (simp add: url_char_table_def url_char_defs numeral_eq_Suc)

lemma url_char_table_length: "length url_char_table = 256"
  by (simp add: url_char_table_eval)

lemma url_char_table_all:
  assumes "list_all (\<lambda>(n, v). Q (char_of n) v) (zip [0..<256] url_char_table)"
  shows "Q c (url_char_table ! byte c)"
proof -
  have "\<forall>n < 256. Q (char_of n) (url_char_table ! n)"
    using assms by (simp add: list_all_length url_char_table_length)
  then have "Q (char_of (byte c)) (url_char_table ! byte c)" by (rule allE [of _ "byte c"]) simp
  then show ?thesis by simp
qed

text \<open>RFC 2396, section 2.3: letters, digits and the marks.\<close>

definition unreserved :: "char \<Rightarrow> bool" where
  "unreserved c \<longleftrightarrow> isalnum c \<or> byte c \<in> {45, 95, 46, 33, 126, 42, 39, 40, 41}"

lemma unreserved_table: "unreserved c \<longleftrightarrow> url_char_table ! byte c = 0"
  by (rule url_char_table_all [where Q = "\<lambda>c v. unreserved c \<longleftrightarrow> v = 0"])
     (simp add: url_char_table_eval upt_rec unreserved_def ctype_defs)

section \<open>The token view\<close>

datatype tok = Esc char char | Chr char

function toks :: "string \<Rightarrow> tok list" where
  "toks [] = []"
| "toks (c # cs) = (if c = CHR ''%'' \<and> xx_follows cs then Esc (cs ! 0) (cs ! 1) # toks (drop 2 cs)
                    else Chr c # toks cs)"
  by pat_completeness auto
termination by (relation "measure length") auto

fun tok_str :: "tok \<Rightarrow> string" where
  "tok_str (Esc h l) = [CHR ''%'', h, l]"
| "tok_str (Chr c) = [c]"

fun tok_val :: "tok \<Rightarrow> char" where
  "tok_val (Esc h l) = x2val h l"
| "tok_val (Chr c) = c"

fun tok_ok :: "tok \<Rightarrow> bool" where
  "tok_ok (Esc h l) \<longleftrightarrow> isxdigit h \<and> isxdigit l"
| "tok_ok (Chr c) \<longleftrightarrow> True"

definition untoks :: "tok list \<Rightarrow> string" where
  "untoks ts = concat (map tok_str ts)"

text \<open>A string in which every percent sign starts an escape.\<close>

definition well_escaped :: "string \<Rightarrow> bool" where
  "well_escaped s \<longleftrightarrow> Chr CHR ''%'' \<notin> set (toks s)"

lemma untoks_simps [simp]:
  "untoks [] = []" "untoks (t # ts) = tok_str t @ untoks ts" "untoks (ts @ us) = untoks ts @ untoks us"
  by (simp_all add: untoks_def)

lemma xx_follows_simps [simp]:
  "xx_follows [] = False" "xx_follows [a] = False"
  "xx_follows (h # l # r) \<longleftrightarrow> isxdigit h \<and> isxdigit l"
  by (simp_all add: xx_follows_def)

lemma xx_followsE:
  assumes "xx_follows cs"
  obtains h l r where "cs = h # l # r" "isxdigit h" "isxdigit l"
  using assms by (auto simp: xx_follows_def split: list.splits)

lemma not_isxdigit_percent [simp]: "\<not> isxdigit CHR ''%''"
  by (simp add: ctype_defs)

lemma toks_induct [case_names Nil Esc Chr]:
  assumes "P []"
    and "\<And>h l cs. isxdigit h \<Longrightarrow> isxdigit l \<Longrightarrow> P cs \<Longrightarrow> P (CHR ''%'' # h # l # cs)"
    and "\<And>c cs. \<not> (c = CHR ''%'' \<and> xx_follows cs) \<Longrightarrow> P cs \<Longrightarrow> P (c # cs)"
  shows "P s"
proof (induction s rule: toks.induct)
  case (2 c cs)
  show ?case
  proof (cases "c = CHR ''%'' \<and> xx_follows cs")
    case True
    then obtain h l r where "cs = h # l # r" "isxdigit h" "isxdigit l" by (blast elim: xx_followsE)
    with True 2 assms(2) show ?thesis by simp
  qed (use 2 assms(3) in simp)
qed (use assms(1) in simp)

lemma untoks_toks [simp]: "untoks (toks s) = s"
  by (induction s rule: toks_induct) auto

lemma toks_ok: "t \<in> set (toks s) \<Longrightarrow> tok_ok t"
  by (induction s rule: toks_induct) auto

lemma toks_xdigit: "isxdigit c \<Longrightarrow> toks (c # cs) = Chr c # toks cs"
  by (auto simp: ctype_defs)

text \<open>A function on tokens that can be read back: it keeps valid escapes, and keeps a stray percent
  sign from being followed by two digits that were not there.\<close>

lemma toks_untoks_map:
  assumes ok: "\<And>t. tok_ok t \<Longrightarrow> tok_ok (f t)"
    and pc: "\<And>t. tok_ok t \<Longrightarrow> f t = Chr CHR ''%'' \<Longrightarrow> t = Chr CHR ''%''"
    and fol: "\<And>r. xx_follows (untoks (map f (toks r))) \<Longrightarrow> xx_follows r \<or> well_escaped s"
  shows "toks (untoks (map f (toks s))) = map f (toks s)"
  using fol
proof (induction s rule: toks_induct)
  case (Esc h l cs)
  then have IH: "toks (untoks (map f (toks cs))) = map f (toks cs)" by (simp add: well_escaped_def)
  from Esc ok [of "tok.Esc h l"] pc [of "tok.Esc h l"] have "tok_ok (f (tok.Esc h l))"
    "f (tok.Esc h l) \<noteq> Chr CHR ''%''" by auto
  then show ?case using IH Esc by (cases "f (tok.Esc h l)") auto
next
  case (Chr c cs)
  from Chr.hyps have "well_escaped (c # cs) \<Longrightarrow> well_escaped cs" by (auto simp: well_escaped_def)
  with Chr.prems have "\<And>r. xx_follows (untoks (map f (toks r))) \<Longrightarrow> xx_follows r \<or> well_escaped cs"
    by blast
  then have IH: "toks (untoks (map f (toks cs))) = map f (toks cs)" by (rule Chr.IH)
  show ?case
  proof (cases "f (tok.Chr c)")
    case (Esc h l)
    then show ?thesis using IH Chr ok [of "tok.Chr c"] by auto
  next
    case C: (Chr d)
    have "\<not> (d = CHR ''%'' \<and> xx_follows (untoks (map f (toks cs))))"
    proof
      assume d: "d = CHR ''%'' \<and> xx_follows (untoks (map f (toks cs)))"
      then have c: "c = CHR ''%''" using pc [of "tok.Chr c"] C by simp
      with Chr.hyps have "\<not> well_escaped (c # cs)" "\<not> xx_follows cs" by (auto simp: well_escaped_def)
      with Chr.prems d show False by blast
    qed
    then show ?thesis using IH Chr C by auto
  qed
qed simp

section \<open>The operations on tokens\<close>

fun esc_tok :: "8 word \<Rightarrow> tok \<Rightarrow> tok" where
  "esc_tok m (Esc h l) = Esc h l"
| "esc_tok m (Chr c) = (if url_char_test c m then Esc (xnum (byte c div 16)) (xnum (byte c mod 16))
                        else Chr c)"

fun unesc_tok :: "(char \<Rightarrow> bool) \<Rightarrow> tok \<Rightarrow> tok" where
  "unesc_tok P (Esc h l) = (if P (x2val h l) then Chr (x2val h l) else Esc h l)"
| "unesc_tok P (Chr c) = Chr c"

fun upcase_tok :: "tok \<Rightarrow> tok" where
  "upcase_tok (Esc h l) = Esc (toupper h) (toupper l)"
| "upcase_tok (Chr c) = Chr c"

lemma mod16: "(x - 256) mod 16 = x mod (16::int)"
proof -
  have "x = (x - 256) + 16 * 16" by simp
  then show ?thesis by (metis mod_mult_self2)
qed

lemma schar_and_15: "schar c AND 0xf = int (byte c mod 16)"
proof -
  have "(0xf :: int) = mask 4" by (simp add: mask_eq_exp_minus_1)
  then have "schar c AND 0xf = schar c mod 16" by (simp only: take_bit_eq_mask [symmetric]) (simp add: take_bit_eq_mod)
  also have "\<dots> = int (byte c) mod 16" by (simp add: schar_def mod16)
  finally show ?thesis by (simp only: zmod_int of_nat_numeral)
qed

lemma alnum_not_special: "isalnum c \<Longrightarrow> \<not> url_char_test c m"
  using unreserved_table [of c] by (simp add: url_char_test_def unreserved_def)

lemma xdigit_not_special: "isxdigit c \<Longrightarrow> \<not> url_char_test c m"
  by (simp add: alnum_not_special isxdigit_isalnum)

lemma escape_loop_toks: "escape_loop m s = Inr (untoks (map (esc_tok m) (toks s)))"
proof (induction s rule: toks_induct)
  case (Chr c cs)
  then show ?case by (auto simp: drop_bit_eq_div schar_and_15 digit_to_xnum_high digit_to_xnum_low)
qed (auto simp: xdigit_not_special)

lemma escape_toks: "escape s m = Inr (untoks (map (esc_tok m) (toks s)))"
  by (simp add: escape_def escape_loop_toks)

lemma unescape_loop_xdigit:
  "isxdigit c \<Longrightarrow> unescape_loop P (c # cs) = bindR (unescape_loop P cs) (\<lambda>r. Inr (c # r))"
  by (cases "c = CHR ''%''") simp_all

lemma isxdigit_not_null: "isxdigit c \<Longrightarrow> 0 < byte c"
  by (auto simp: ctype_defs)

lemma unescape_loop_chr:
  "\<not> (c = CHR ''%'' \<and> xx_follows cs) \<Longrightarrow>
   unescape_loop P (c # cs) = bindR (unescape_loop P cs) (\<lambda>r. Inr (c # r))"
  by auto

lemma unescape_loop_esc:
  assumes "isxdigit h" "isxdigit l"
  shows "unescape_loop P (CHR ''%'' # h # l # cs) =
    bindR (unescape_loop P cs) (\<lambda>r. Inr (if P (x2val h l) then x2val h l # r else CHR ''%'' # h # l # r))"
proof -
  have "unescape_loop P (h # l # cs) = bindR (unescape_loop P cs) (\<lambda>r. Inr (h # l # r))"
    using assms by (cases "unescape_loop P cs") (simp_all add: unescape_loop_xdigit del: unescape_loop.simps(2))
  then show ?thesis
    using assms by (cases "unescape_loop P cs")
      (simp_all add: unescape_loop.simps(2) [of _ "CHR ''%''"] x2digits_to_num_xdigits isxdigit_not_null
        del: unescape_loop.simps(2))
qed

lemma unescape_loop_toks: "unescape_loop P s = Inr (untoks (map (unesc_tok P) (toks s)))"
proof (induction s rule: toks_induct)
  case (Esc h l cs)
  then show ?case by (simp add: unescape_loop_esc del: unescape_loop.simps(2))
next
  case (Chr c cs)
  then show ?case by (subst unescape_loop_chr) auto
qed simp

lemma toks_no_percent: "sfind (\<lambda>c. c = CHR ''%'') s 0 = None \<Longrightarrow> toks s = map Chr s"
  by (induction s) (auto simp: sfind_None)

lemma unesc_toks:
  "(if s = [] \<or> sfind (\<lambda>c. c = CHR ''%'') s 0 = None then Inr s else unescape_loop P s)
     = Inr (untoks (map (unesc_tok P) (toks s)))"
  by (auto simp: unescape_loop_toks toks_no_percent o_def untoks_def)

lemma unescape_toks: "unescape s = Inr (map tok_val (toks s))"
proof -
  have "tok_str (unesc_tok (\<lambda>_. True) t) = [tok_val t]" for t by (cases t) simp_all
  then have "untoks (map (unesc_tok (\<lambda>_. True)) ts) = map tok_val ts" for ts
    by (simp add: untoks_def o_def)
  then show ?thesis by (simp only: unescape_def unesc_toks)
qed

lemma upcase_escapes_toks: "upcase_escapes s = untoks (map upcase_tok (toks s))"
  by (induction s rule: toks_induct) auto


definition safe_char :: "char \<Rightarrow> bool" where
  "safe_char c \<longleftrightarrow> url_char_table ! byte c AND (URL_CHAR_RESERVED OR URL_CHAR_UNSAFE) = 0"

lemma safe_char_unreserved: "safe_char c \<longleftrightarrow> unreserved c"
proof -
  have "list_all (\<lambda>v. v AND (URL_CHAR_RESERVED OR URL_CHAR_UNSAFE) = 0 \<longleftrightarrow> v = 0) url_char_table"
    by (simp add: url_char_table_eval url_char_defs)
  then show ?thesis
    by (simp add: safe_char_def unreserved_table list_all_length url_char_table_length)
qed

lemma safe_char_not_percent [simp]: "\<not> safe_char CHR ''%''"
  by (simp add: safe_char_unreserved unreserved_def ctype_defs)

fun norm_tok :: "tok \<Rightarrow> tok" where
  "norm_tok (Esc h l) = (if safe_char (x2val h l) then Chr (x2val h l) else Esc (toupper h) (toupper l))"
| "norm_tok (Chr c) = Chr c"

lemma esc_tok_ok: "tok_ok t \<Longrightarrow> tok_ok (esc_tok m t)"
  by (cases t) auto

lemma esc_tok_percent: "esc_tok m t = Chr CHR ''%'' \<Longrightarrow> t = Chr CHR ''%''"
  by (cases t) (auto split: if_splits)

lemma untoks_map_head:
  assumes "untoks (map f (toks r)) = h # x" "isxdigit h" "\<And>t. tok_ok t \<Longrightarrow> f t = Chr h \<Longrightarrow> t = Chr h"
  obtains r' where "r = h # r'" "toks r = Chr h # toks r'" "x = untoks (map f (toks r'))"
proof -
  from assms(1) obtain t ts where ts: "toks r = t # ts" by (cases "toks r") auto
  have "f t = Chr h" using assms(1,2) ts by (cases "f t") auto
  moreover have "tok_ok t" using toks_ok [of t r] ts by simp
  ultimately have t: "t = Chr h" using assms(3) by blast
  have r: "r = h # untoks ts" using untoks_toks [of r] ts t by simp
  then have "toks (untoks ts) = ts" using ts t toks_xdigit [OF assms(2)] by simp
  with that r ts t assms(1) \<open>f t = Chr h\<close> show thesis by simp
qed

lemma esc_tok_follows:
  assumes "xx_follows (untoks (map (esc_tok m) (toks r)))"
  shows "xx_follows r"
proof -
  from assms obtain h l x where hl: "untoks (map (esc_tok m) (toks r)) = h # l # x" "isxdigit h" "isxdigit l"
    by (blast elim: xx_followsE)
  have chr: "esc_tok m t = Chr c \<Longrightarrow> t = Chr c" for t c by (cases t) (auto split: if_splits)
  from hl(1,2) obtain r' where r': "r = h # r'" "l # x = untoks (map (esc_tok m) (toks r'))"
    using chr by (rule untoks_map_head) auto
  then obtain r'' where "r' = l # r''" using hl(3) chr untoks_map_head [of "esc_tok m" r' l x] by metis
  with r' hl show ?thesis by simp
qed

lemma toks_escape: "toks (untoks (map (esc_tok m) (toks s))) = map (esc_tok m) (toks s)"
  by (rule toks_untoks_map) (auto intro: esc_tok_ok esc_tok_percent esc_tok_follows)

lemma tok_val_esc_tok [simp]: "tok_val (esc_tok m t) = tok_val t"
  by (cases t) auto

lemma esc_tok_idem [simp]: "esc_tok m (esc_tok m t) = esc_tok m t"
  by (cases t) auto

lemma norm_tok_ok: "tok_ok t \<Longrightarrow> tok_ok (norm_tok t)"
  by (cases t) auto

lemma norm_tok_percent: "norm_tok t = Chr CHR ''%'' \<Longrightarrow> t = Chr CHR ''%''"
  by (cases t) (auto split: if_splits)

lemma toks_norm:
  "well_escaped s \<Longrightarrow> toks (untoks (map norm_tok (toks s))) = map norm_tok (toks s)"
  by (rule toks_untoks_map) (auto intro: norm_tok_ok norm_tok_percent)

lemma x2val_toupper [simp]: "isxdigit h \<Longrightarrow> isxdigit l \<Longrightarrow> x2val (toupper h) (toupper l) = x2val h l"
  by (simp add: x2val_def xval_toupper)

lemma norm_tok_idem: "tok_ok t \<Longrightarrow> norm_tok (norm_tok t) = norm_tok t"
  by (cases t) auto

lemma tok_val_norm_tok: "tok_ok t \<Longrightarrow> tok_val (norm_tok t) = tok_val t"
  by (cases t) auto

lemma unescape_safe_toks: "unescape_safe s = Inr (untoks (map (unesc_tok safe_char) (toks s)))"
  unfolding unescape_safe_def safe_char_def [abs_def] by (rule unesc_toks)

lemma normalize_escapes_toks:
  assumes "well_escaped s"
  shows "normalize_escapes s = Inr (untoks (map norm_tok (toks s)))"
proof -
  have "toks (untoks (map (unesc_tok safe_char) (toks s))) = map (unesc_tok safe_char) (toks s)"
  proof (rule toks_untoks_map)
    show "tok_ok t \<Longrightarrow> tok_ok (unesc_tok safe_char t)" for t by (cases t) auto
    show "unesc_tok safe_char t = Chr CHR ''%'' \<Longrightarrow> t = Chr CHR ''%''" for t
      by (cases t) (auto split: if_splits)
  qed (use assms in simp)
  moreover have "upcase_tok (unesc_tok safe_char t) = norm_tok t" for t by (cases t) auto
  ultimately show ?thesis
    by (simp add: normalize_escapes_def unescape_safe_toks upcase_escapes_toks o_def)
qed








section \<open>Properties\<close>

text \<open>Escaping is idempotent: a string that \<^verbatim>\<open>escape\<close> returned is a fixed point of
  \<^verbatim>\<open>escape\<close> with the same mask, because valid escapes are kept; and the call never throws.\<close>

theorem escape_idempotent: "\<exists>t. escape s m = Inr t \<and> escape t m = Inr t"
  by (simp add: escape_toks toks_escape o_def)

text \<open>C22. Escaping, whatever the mask, does not change what a string without NUL stands for: \<^verbatim>\<open>unescape\<close> of the
  escaped string is \<^verbatim>\<open>unescape\<close> of the original. (An escaped NUL is one that \<^verbatim>\<open>unescape\<close> is not meant to decode.)\<close>

theorem unescape_escape:
  assumes "CHR 0x00 \<notin> set s"
  shows "bindR (escape s m) unescape = unescape s"
  by (simp add: escape_toks unescape_toks toks_escape o_def)

theorem unescape_escape_witness:
  "bindR (escape ''a b%'' URL_CHAR_UNSAFE) unescape = unescape ''a b%'' \<and> escape ''a b%'' URL_CHAR_UNSAFE = Inr ''a%20b%25''"
proof -
  have "CHR 0x00 \<notin> set ''a b%''" by simp
  moreover have "escape ''a b%'' URL_CHAR_UNSAFE = Inr ''a%20b%25''" by code_simp
  ultimately show ?thesis using unescape_escape [of "''a b%''" URL_CHAR_UNSAFE] by blast
qed

text \<open>C23. The result of \<^verbatim>\<open>escape\<close> has no character of the mask but percent signs, and where the mask
  has the percent sign every percent sign left starts a valid escape.\<close>

theorem escape_clean:
  assumes "escape s m = Inr t"
  shows "{c \<in> set t. url_char_test c m} \<subseteq> {CHR ''%''}
    \<and> (url_char_test CHR ''%'' m \<longrightarrow> well_escaped t)"
proof
  have t: "t = untoks (map (esc_tok m) (toks s))" using assms by (simp add: escape_toks)
  have "c \<in> set (tok_str (esc_tok m k)) \<Longrightarrow> url_char_test c m \<Longrightarrow> tok_ok k \<Longrightarrow> c = CHR ''%''" for c k
    using xdigit_not_special by (cases k) (auto split: if_splits)
  then show "{c \<in> set t. url_char_test c m} \<subseteq> {CHR ''%''}"
    using toks_ok by (auto simp: t untoks_def)
  show "url_char_test CHR ''%'' m \<longrightarrow> well_escaped t"
  proof
    assume "url_char_test CHR ''%'' m"
    then have "esc_tok m k \<noteq> Chr CHR ''%''" for k by (cases k) auto
    then show "well_escaped t" by (auto simp: well_escaped_def t toks_escape dest: sym)
  qed
qed

theorem escape_clean_witness:
  "escape ''a b%'' URL_CHAR_UNSAFE = Inr ''a%20b%25''
   \<and> {c \<in> set ''a%20b%25''. url_char_test c URL_CHAR_UNSAFE} \<subseteq> {CHR ''%''}
   \<and> well_escaped ''a%20b%25''"
proof -
  have e: "escape ''a b%'' URL_CHAR_UNSAFE = Inr ''a%20b%25''" by code_simp
  moreover have "url_char_test CHR ''%'' URL_CHAR_UNSAFE" by code_simp
  ultimately show ?thesis using escape_clean [OF e] by blast
qed

text \<open>C18. On a string whose percent signs all start escapes, \<^verbatim>\<open>normalize_escapes\<close> returns a string
  that is normalised, is still well escaped, and stands for the same octets.\<close>

theorem normalize_escapes_normal:
  assumes "well_escaped s"
  shows "\<exists>t. normalize_escapes s = Inr t \<and> normalize_escapes t = Inr t \<and> well_escaped t
    \<and> unescape t = unescape s"
proof -
  let ?t = "untoks (map norm_tok (toks s))"
  have toks: "toks ?t = map norm_tok (toks s)" using assms by (rule toks_norm)
  then have wf: "well_escaped ?t" using assms norm_tok_percent
    by (auto simp: well_escaped_def dest: sym)
  moreover have "map norm_tok (map norm_tok (toks s)) = map norm_tok (toks s)"
    using norm_tok_idem toks_ok by simp
  moreover have "map tok_val (map norm_tok (toks s)) = map tok_val (toks s)"
    using tok_val_norm_tok toks_ok by simp
  ultimately show ?thesis
    using assms toks by (intro exI [of _ ?t]) (simp only: normalize_escapes_toks unescape_toks simp_thms)
qed

theorem normalize_escapes_normal_witness:
  "well_escaped ''%7ea%2f'' \<and> (\<exists>t. normalize_escapes ''%7ea%2f'' = Inr t \<and> normalize_escapes t = Inr t
    \<and> well_escaped t \<and> unescape t = unescape ''%7ea%2f'')"
proof -
  have "well_escaped ''%7ea%2f''" by code_simp
  then show ?thesis using normalize_escapes_normal by blast
qed



text \<open>RFC 3986 counts five of these marks among the reserved characters, for which the escape is not equivalent.\<close>

lemma normalize_escapes_marks: "normalize_escapes ''%21%2A%27%28%29'' = Inr ''!*'()''"
  by code_simp

text \<open>
  The guard against a decoded NUL compares the digit characters with the number 0 and never holds
  back anything; and a percent sign that starts no escape makes \<^verbatim>\<open>normalize_escapes\<close> build a
  new escape out of decoded digits.
\<close>

lemma unescape_nul: "unescape ''a%00'' = Inr [CHR ''a'', CHR 0x00]"
  by code_simp

lemma normalize_escapes_stray_percent:
  "normalize_escapes ''%%34%31'' = Inr ''%41''
   \<and> unescape ''%%34%31'' = Inr ''%41'' \<and> unescape ''%41'' = Inr ''A''"
  by code_simp

end
