(* ===== verification/Path.thy ===== *)
theory Path
  imports Prelude
begin

text \<open>
  Paths of URLs: the class \<^verbatim>\<open>Path\<close> of \<^verbatim>\<open>src/common/Path.hh\<close> and \<^verbatim>\<open>src/common/Path.cc\<close>, a list of segments
  and two flags. The facts are the well-formedness \<open>assign\<close> establishes and the round trip with \<open>get\<close>,
  the agreement of \<open>path_size\<close> with the string, the normal form of \<open>normalize\<close>, and that \<open>normalize\<close> and \<open>merge\<close>, on
  the paths that their statements name, agree with RFC 3986, whose string algorithm \<open>remove_dot_segments\<close> is the reference.
\<close>

named_theorems path_defs "definitions of the operations on paths"

section \<open>The class\<close>

record path =
  segmt :: "string list"
  slash_begin :: bool
  slash_end :: bool

definition path_clear :: path where
  [path_defs]: "path_clear = \<lparr>segmt = [], slash_begin = False, slash_end = False\<rparr>"

definition path_empty :: "path \<Rightarrow> bool" where
  [path_defs]: "path_empty p \<longleftrightarrow> \<not> slash_end p \<and> segmt p = [] \<and> \<not> slash_begin p"

definition set_absolute :: "bool \<Rightarrow> path \<Rightarrow> path" where
  [path_defs]: "set_absolute a p = p\<lparr>slash_begin := a\<rparr>"

definition path_absolute :: "path \<Rightarrow> bool" where
  [path_defs]: "path_absolute p = slash_begin p"

definition set_dir :: "path \<Rightarrow> path" where
  [path_defs]: "set_dir p = p\<lparr>slash_end := True\<rparr>"

definition depth :: "path \<Rightarrow> nat" where
  [path_defs]: "depth p = length (segmt p)"

text \<open>
  The loop of \<^verbatim>\<open>assign\<close>: \<open>cur\<close> is the range from \<^verbatim>\<open>begin\<close> to \<^verbatim>\<open>end\<close>, the second argument what is left
  from \<^verbatim>\<open>end\<close> on. A slash after a segment is looked at twice, first to push the segment, then to
  step over it. The check of the depth against \<^verbatim>\<open>list::max_size\<close>, about \<open>2 ^ 59\<close>, is left out.
\<close>

function assign_loop :: "string \<Rightarrow> string \<Rightarrow> string list" where
  "assign_loop cur [] = (if cur \<noteq> [] then [cur] else [])"
| "assign_loop cur (c # cs) =
     (if c = CHR ''/'' then
        if cur \<noteq> [] then cur # assign_loop [] (c # cs) else assign_loop [] cs
      else assign_loop (cur @ [c]) cs)"
  by pat_completeness auto
termination by (relation "measure (\<lambda>(cur, s). 2 * length s + (if cur = [] then 0 else 1))") auto

definition path_assign :: "string \<Rightarrow> path" where
  [path_defs]: "path_assign s =
     (if s = [] then path_clear
      else
        let sb = (hd s = CHR ''/'') in
        \<lparr>segmt = assign_loop [] (if sb then tl s else s), slash_begin = sb,
         slash_end = (last s = CHR ''/'')\<rparr>)"

definition path_size :: "path \<Rightarrow> nat" where
  [path_defs]: "path_size p =
     (if path_empty p then 0
      else if 0 < length (segmt p) then
        (if slash_begin p then 1 else 0) + sum_list (map length (segmt p)) + (if slash_end p then 1 else 0)
          + (length (segmt p) - 1)
      else if slash_begin p \<or> slash_end p then 1
      else 0)"

definition path_get :: "path \<Rightarrow> string" where
  [path_defs]: "path_get p =
     (if path_empty p then []
      else if 0 < length (segmt p) then
        let r = (if slash_begin p then ''/'' else []) @ concat (map (\<lambda>s. s @ ''/'') (segmt p));
            r = take (length r - 1) r;
            r = r @ (if slash_end p then ''/'' else [])
        in if r = ''//'' then ''/'' else r
      else if slash_begin p \<or> slash_end p then ''/''
      else [])"

text \<open>One round of the loop of \<^verbatim>\<open>merge\<close>.\<close>

definition merge_step :: "string \<Rightarrow> path \<Rightarrow> path" where
  "merge_step i q =
     (if i = ''.'' then q\<lparr>slash_end := True\<rparr>
      else if i = ''..'' then
        if segmt q \<noteq> [] then q\<lparr>segmt := butlast (segmt q), slash_end := True\<rparr> else q
      else q\<lparr>segmt := segmt q @ [i], slash_end := False\<rparr>)"

definition merge :: "path \<Rightarrow> path \<Rightarrow> path" where
  [path_defs]: "merge q p =
     (if slash_begin p then p
      else
        let q1 = (if \<not> slash_end q \<and> segmt q \<noteq> [] \<and> \<not> path_empty p
                  then q\<lparr>segmt := butlast (segmt q)\<rparr> else q);
            q2 = fold merge_step (segmt p) q1
        in if slash_end p then q2\<lparr>slash_end := True\<rparr> else q2)"

text \<open>
  The loop of \<^verbatim>\<open>normalize\<close>. The iterator \<^verbatim>\<open>i\<close> cuts the list in two: \<open>before\<close> holds the elements
  before it, the nearest first, and the second list those from it on. The inner loop leaves \<^verbatim>\<open>j\<close>
  at the element before \<^verbatim>\<open>i\<close>, or at \<^verbatim>\<open>i\<close> itself when that is the first one.
\<close>

fun normalize_loop :: "string list \<Rightarrow> string list \<Rightarrow> bool \<Rightarrow> string list \<times> bool" where
  "normalize_loop before [] se = (rev before, se)"
| "normalize_loop before (i # rest) se =
     (if i = ''..'' \<and> before \<noteq> [] \<and> hd before \<noteq> ''..'' \<and> hd before \<noteq> ''.'' then
        normalize_loop (tl before) rest (if rest = [] then True else se)
      else if i = ''.'' then normalize_loop before rest (if rest = [] then True else se)
      else normalize_loop (i # before) rest se)"

text \<open>
  The loop starts at the second element. On an empty list the source increments the end
  iterator; the sentinel of libstdc++ is its own successor, so the loop is not entered.
\<close>

definition path_normalize :: "path \<Rightarrow> path" where
  [path_defs]: "path_normalize p =
     (case segmt p of [] \<Rightarrow> p
      | x # xs \<Rightarrow> let (ss, se) = normalize_loop [x] xs (slash_end p) in p\<lparr>segmt := ss, slash_end := se\<rparr>)"

text \<open>\<^verbatim>\<open>pop_back\<close> of an empty list is undefined.\<close>

definition updir :: "path \<Rightarrow> (bool \<times> path) res" where
  [path_defs]: "updir p =
     (if segmt p \<noteq> [] then
        let ss = (if \<not> slash_end p then butlast (segmt p) else segmt p) in
        if ss = [] then Inl Undefined else Inr (True, p\<lparr>segmt := butlast ss, slash_end := True\<rparr>)
      else Inr (False, p))"

section \<open>Well-formed paths\<close>

definition segs_ok :: "string list \<Rightarrow> bool" where
  "segs_ok ss \<longleftrightarrow> (\<forall>s\<in>set ss. s \<noteq> [] \<and> CHR ''/'' \<notin> set s)"

text \<open>Segments are non-empty and have no slash; a path of no segments is empty or the root.\<close>

definition path_wf :: "path \<Rightarrow> bool" where
  "path_wf p \<longleftrightarrow> segs_ok (segmt p) \<and> (segmt p = [] \<longrightarrow> slash_begin p = slash_end p)"

lemma segs_ok_simps [simp]:
  "segs_ok []" "segs_ok (s # ss) \<longleftrightarrow> s \<noteq> [] \<and> CHR ''/'' \<notin> set s \<and> segs_ok ss"
  "segs_ok (ss @ ts) \<longleftrightarrow> segs_ok ss \<and> segs_ok ts" "segs_ok (rev ss) \<longleftrightarrow> segs_ok ss"
  by (auto simp: segs_ok_def)

lemma segs_ok_butlast: "segs_ok ss \<Longrightarrow> segs_ok (butlast ss)"
  by (auto simp: segs_ok_def dest: in_set_butlastD)

lemma assign_loop_ok: "CHR ''/'' \<notin> set cur \<Longrightarrow> segs_ok (assign_loop cur s)"
  by (induction cur s rule: assign_loop.induct) (auto simp del: assign_loop.simps(2)
    simp: assign_loop.simps(2) [of _ "c" for c])

lemma assign_loop_seg:
  "CHR ''/'' \<notin> set s \<Longrightarrow> assign_loop cur (s @ r) = assign_loop (cur @ s) r"
  by (induction s arbitrary: cur) auto

text \<open>The segments joined by slashes.\<close>

fun join :: "string list \<Rightarrow> string" where
  "join [] = []"
| "join [s] = s"
| "join (s # t # ss) = s @ ''/'' @ join (t # ss)"

lemma assign_loop_cur: "cur \<noteq> [] \<Longrightarrow> assign_loop cur (CHR ''/'' # r) = cur # assign_loop [] r"
  by simp

lemma assign_loop_join:
  assumes "segs_ok ss"
  shows "assign_loop [] (join ss @ (if se then ''/'' else [])) = ss"
  using assms
proof (induction ss rule: join.induct)
  case (2 s)
  then show ?case by (auto simp: assign_loop_seg)
next
  case (3 s t ss)
  then show ?case by (simp add: assign_loop_seg assign_loop_cur del: assign_loop.simps(2))
qed simp

lemma join_eq_Nil: "segs_ok ss \<Longrightarrow> join ss = [] \<longleftrightarrow> ss = []"
  by (induction ss rule: join.induct) auto

lemma join_hd: "segs_ok ss \<Longrightarrow> ss \<noteq> [] \<Longrightarrow> hd (join ss) \<noteq> CHR ''/''"
  by (induction ss rule: join.induct) (auto simp: hd_append dest!: hd_in_set)

lemma join_last: "segs_ok ss \<Longrightarrow> ss \<noteq> [] \<Longrightarrow> last (join ss) \<noteq> CHR ''/''"
  by (induction ss rule: join.induct) (auto simp: join_eq_Nil dest!: last_in_set)

lemma butlast_slashed: "ss \<noteq> [] \<Longrightarrow> butlast (concat (map (\<lambda>s. s @ ''/'') ss)) = join ss"
  by (induction ss rule: join.induct) (auto simp: butlast_append)

lemma length_join: "ss \<noteq> [] \<Longrightarrow> length (join ss) = sum_list (map length ss) + (length ss - 1)"
  by (induction ss rule: join.induct) auto

lemma concat_slashed_Nil: "concat (map (\<lambda>s. s @ ''/'') ss) = [] \<longleftrightarrow> ss = []"
  by (induction ss) auto

lemma path_get_join:
  assumes "segs_ok (segmt p)" and "segmt p \<noteq> []"
  shows "path_get p = (if slash_begin p then ''/'' else []) @ join (segmt p) @ (if slash_end p then ''/'' else [])"
proof -
  let ?c = "concat (map (\<lambda>s. s @ ''/'') (segmt p))"
  let ?r = "(if slash_begin p then ''/'' else []) @ ?c"
  have "take (length ?r - 1) ?r = butlast ?r" by (simp add: butlast_conv_take)
  also have "\<dots> = (if slash_begin p then ''/'' else []) @ join (segmt p)"
    using assms by (simp add: butlast_append concat_slashed_Nil butlast_slashed)
  finally have r: "take (length ?r - 1) ?r = (if slash_begin p then ''/'' else []) @ join (segmt p)" .
  have nn: "(if slash_begin p then ''/'' else []) @ join (segmt p) @ (if slash_end p then ''/'' else []) \<noteq> ''//''"
    using join_hd [OF assms] join_eq_Nil [OF assms(1)] assms(2)
    by (cases "join (segmt p)") (auto split: if_splits)
  have "\<not> path_empty p" "0 < length (segmt p)" using assms by (simp_all add: path_empty_def)
  then show ?thesis unfolding path_get_def Let_def r by (simp only: nn if_False if_True append_assoc)
qed

lemma path_get_no_segs: "segmt p = [] \<Longrightarrow> path_get p = (if slash_begin p \<or> slash_end p then ''/'' else [])"
  by (auto simp: path_get_def path_empty_def)

lemma assign_loop_nonempty: "cur \<noteq> [] \<Longrightarrow> assign_loop cur s \<noteq> []"
  by (induction cur s rule: assign_loop.induct) auto

lemma assign_loop_Nil: "assign_loop [] s = [] \<Longrightarrow> set s \<subseteq> {CHR ''/''}"
  by (induction s) (auto simp: assign_loop_nonempty split: if_splits)

lemma path_wf_assign: "path_wf (path_assign s)"
proof (cases s)
  case (Cons c cs)
  let ?ss = "assign_loop [] (if c = CHR ''/'' then cs else c # cs)"
  have "c = CHR ''/'' \<longleftrightarrow> last (c # cs) = CHR ''/''" if "?ss = []"
  proof (cases "c = CHR ''/''")
    case True
    with that have "set (c # cs) \<subseteq> {CHR ''/''}" using assign_loop_Nil [of cs] by simp
    with last_in_set [of "c # cs"] True show ?thesis by blast
  next
    case False
    with that assign_loop_nonempty [of "[c]" cs] show ?thesis by simp
  qed
  moreover have "segs_ok ?ss" by (rule assign_loop_ok) simp
  ultimately show ?thesis unfolding path_wf_def path_assign_def Let_def Cons
    by (cases "c = CHR ''/''") simp_all
qed (simp add: path_wf_def path_assign_def path_clear_def)

section \<open>Dot segments\<close>

text \<open>The directory reached from \<open>st\<close> by walking along the segments.\<close>

fun walk :: "string list \<Rightarrow> string list \<Rightarrow> string list" where
  "walk st [] = st"
| "walk st (s # ss) =
     walk (if s = ''.'' then st else if s = ''..'' then butlast st else st @ [s]) ss"

text \<open>
  Normal lists of segments: a dot segment is only the first one, and a double dot has only dots
  before it.
\<close>

definition normal_segs :: "string list \<Rightarrow> bool" where
  "normal_segs ss \<longleftrightarrow>
     (\<forall>k < length ss. (ss ! k = ''.'' \<longrightarrow> k = 0) \<and> (ss ! k = ''..'' \<longrightarrow> k = 0 \<or> ss ! (k - 1) \<in> {''.'', ''..''}))"

lemma walk_append: "walk st (xs @ ys) = walk (walk st xs) ys"
  by (induction xs arbitrary: st) auto

lemma normal_segs_Nil [simp]: "normal_segs []"
  by (simp add: normal_segs_def)

lemma normal_segs_snoc:
  "normal_segs (xs @ [x]) \<longleftrightarrow>
     normal_segs xs \<and> (x = ''.'' \<longrightarrow> xs = []) \<and> (x = ''..'' \<longrightarrow> xs = [] \<or> last xs \<in> {''.'', ''..''})"
proof -
  have "xs \<noteq> [] \<Longrightarrow> (xs @ [x]) ! (length xs - 1) = last xs" by (simp add: nth_append last_conv_nth)
  then show ?thesis
    by (auto simp: normal_segs_def All_less_Suc nth_append less_imp_diff_less)
qed

text \<open>The same seen from the end, as the loop of \<open>normalize\<close> sees it.\<close>

definition normal_rev :: "string list \<Rightarrow> bool" where
  "normal_rev xs \<longleftrightarrow> normal_segs (rev xs)"

lemma normal_rev_simps [simp]:
  "normal_rev []"
  "normal_rev (x # xs) \<longleftrightarrow>
     normal_rev xs \<and> (x = ''.'' \<longrightarrow> xs = []) \<and> (x = ''..'' \<longrightarrow> xs = [] \<or> hd xs \<in> {''.'', ''..''})"
  by (auto simp: normal_rev_def normal_segs_snoc last_rev)

lemma normal_rev_append: "normal_rev (ys @ xs) \<Longrightarrow> normal_rev xs"
  by (induction ys) auto

lemma normalize_loop_normal:
  "normal_rev before \<Longrightarrow> normal_segs (fst (normalize_loop before rest se))"
proof (induction before rest se rule: normalize_loop.induct)
  case (2 before i rest se)
  then show ?case by (cases before) auto
qed (simp add: normal_rev_def)

lemma normalize_loop_segs_ok:
  "segs_ok (rev before @ rest) \<Longrightarrow> segs_ok (fst (normalize_loop before rest se))"
proof (induction before rest se rule: normalize_loop.induct)
  case (2 before i rest se)
  then show ?case by (cases before) auto
qed simp

lemma normalize_loop_id:
  "normal_rev (rev rest @ before) \<Longrightarrow> before \<noteq> [] \<Longrightarrow> normalize_loop before rest se = (rev before @ rest, se)"
proof (induction before rest se rule: normalize_loop.induct)
  case (2 before i rest se)
  then have "normal_rev (i # before)" using normal_rev_append [of "rev rest" "i # before"] by simp
  with 2 show ?case by (cases before) auto
qed simp

lemma path_normalize_id: "normal_segs (segmt p) \<Longrightarrow> path_normalize p = p"
  by (cases "segmt p") (auto simp: path_normalize_def normalize_loop_id normal_rev_def)

lemma path_normalize_segmt:
  "segmt p = x # xs \<Longrightarrow> segmt (path_normalize p) = fst (normalize_loop [x] xs (slash_end p))"
  by (simp add: path_normalize_def split_def Let_def)

lemma path_normalize_Nil: "segmt p = [] \<Longrightarrow> path_normalize p = p"
  by (simp add: path_normalize_def)

lemma path_normalize_nf: "normal_segs (segmt (path_normalize p))"
  by (cases "segmt p") (simp_all add: path_normalize_segmt path_normalize_Nil normalize_loop_normal)

lemma path_normalize_begin [simp]: "slash_begin (path_normalize p) = slash_begin p"
  by (simp add: path_normalize_def split: list.split prod.split)

lemma path_normalize_segs_ok: "segs_ok (segmt p) \<Longrightarrow> segs_ok (segmt (path_normalize p))"
  by (cases "segmt p") (simp_all add: path_normalize_segmt path_normalize_Nil normalize_loop_segs_ok)

section \<open>Resolution of RFC 3986\<close>

text \<open>The algorithm of section 5.2.4, on strings: the input buffer and the output buffer.\<close>

definition drop_last_segment :: "string \<Rightarrow> string" where
  "drop_last_segment out = rev (tl (dropWhile (\<lambda>c. c \<noteq> CHR ''/'') (rev out)))"

function rds :: "string \<Rightarrow> string \<Rightarrow> string" where
  "rds inp out =
     (if inp = [] then out
      else if prefix ''../'' inp then rds (drop 3 inp) out
      else if prefix ''./'' inp then rds (drop 2 inp) out
      else if prefix ''/./'' inp then rds (drop 2 inp) out
      else if inp = ''/.'' then rds ''/'' out
      else if prefix ''/../'' inp then rds (drop 3 inp) (drop_last_segment out)
      else if inp = ''/..'' then rds ''/'' (drop_last_segment out)
      else if inp = ''.'' \<or> inp = ''..'' then rds [] out
      else let n = Suc (length (takeWhile (\<lambda>c. c \<noteq> CHR ''/'') (tl inp))) in
        rds (drop n inp) (out @ take n inp))"
  by pat_completeness auto
termination by (relation "measure (\<lambda>(inp, _). length inp)") auto

declare rds.simps [simp del]

definition remove_dot_segments :: "string \<Rightarrow> string" where
  "remove_dot_segments s = rds s []"

text \<open>Section 5.2.3: the base path up to its last slash, and the reference after it.\<close>

definition dirname :: "string \<Rightarrow> string" where
  "dirname s = rev (dropWhile (\<lambda>c. c \<noteq> CHR ''/'') (rev s))"

definition is_dots :: "string \<Rightarrow> bool" where
  "is_dots s \<longleftrightarrow> s = ''.'' \<or> s = ''..''"

text \<open>Every segment after a slash.\<close>

definition slashed :: "string list \<Rightarrow> string" where
  "slashed ss = concat (map (\<lambda>s. CHR ''/'' # s) ss)"

lemma slashed_simps [simp]:
  "slashed [] = []" "slashed (s # ss) = CHR ''/'' # s @ slashed ss" "slashed (ss @ ts) = slashed ss @ slashed ts"
  by (simp_all add: slashed_def)

lemma slashed_eq_Nil [simp]: "slashed ss = [] \<longleftrightarrow> ss = []"
  by (cases ss) auto

lemma slashed_join: "ss \<noteq> [] \<Longrightarrow> CHR ''/'' # join ss = slashed ss"
  by (induction ss rule: join.induct) auto

lemma dropWhile_rev_seg:
  "CHR ''/'' \<notin> set s \<Longrightarrow> dropWhile (\<lambda>c. c \<noteq> CHR ''/'') (rev s @ CHR ''/'' # r) = CHR ''/'' # r"
  by (rule dropWhile_stop) auto

lemma drop_last_segment_slashed:
  assumes "segs_ok ss"
  shows "drop_last_segment (slashed ss) = slashed (butlast ss)"
proof (cases ss rule: rev_cases)
  case (snoc xs x)
  with assms show ?thesis by (simp add: drop_last_segment_def dropWhile_rev_seg)
qed (simp add: drop_last_segment_def)

text \<open>What follows a segment: nothing, or a slash.\<close>

definition seg_end :: "string \<Rightarrow> bool" where
  "seg_end r \<longleftrightarrow> r = [] \<or> hd r = CHR ''/''"

lemma seg_end_slashed: "seg_end (slashed ss @ (if se then ''/'' else []))"
  by (cases ss) (auto simp: seg_end_def)

lemma rds_root: "rds ''/'' out = out @ ''/''"
  by (subst rds.simps) (simp add: rds.simps)

lemma rds_dot: "seg_end r \<Longrightarrow> rds (''/.'' @ r) out = rds (if r = [] then ''/'' else r) out"
  by (subst rds.simps) (auto simp: seg_end_def neq_Nil_conv)

lemma rds_dots:
  "seg_end r \<Longrightarrow> rds (''/..'' @ r) out = rds (if r = [] then ''/'' else r) (drop_last_segment out)"
  by (subst rds.simps) (auto simp: seg_end_def neq_Nil_conv)

lemma prefix_seg:
  assumes "seg_end r" "CHR ''/'' \<notin> set x" "prefix (y @ ''/'') (x @ r)" "CHR ''/'' \<notin> set y"
  shows "x = y"
  using assms(2-4)
proof (induction y arbitrary: x)
  case Nil
  then show ?case by (cases x) auto
next
  case (Cons a y)
  show ?case
  proof (cases x)
    case Nil
    with Cons assms(1) show ?thesis by (cases r) (auto simp: seg_end_def)
  qed (use Cons in auto)
qed

lemma rds_name:
  assumes "seg_end r" "CHR ''/'' \<notin> set x" "x \<noteq> []" "\<not> is_dots x"
  shows "rds (CHR ''/'' # x @ r) out = rds r (out @ CHR ''/'' # x)"
proof -
  have "\<not> prefix ''./'' (x @ r)" "\<not> prefix ''../'' (x @ r)"
    using prefix_seg [OF assms(1,2), of "''.''"] prefix_seg [OF assms(1,2), of "''..''"] assms(4)
    by (auto simp: is_dots_def)
  moreover have "x @ r \<noteq> ''.''" "x @ r \<noteq> ''..''"
    using assms by (auto simp: is_dots_def seg_end_def append_eq_Cons_conv Cons_eq_append_conv)
  moreover have "takeWhile (\<lambda>c. c \<noteq> CHR ''/'') (x @ r) = x"
    using assms(1,2) by (cases r) (auto simp: seg_end_def intro!: takeWhile_stop takeWhile_all)
  ultimately show ?thesis by (subst rds.simps) simp
qed

lemma rds_slashed:
  assumes "segs_ok ss" "segs_ok out" "ss \<noteq> [] \<or> se"
  shows "rds (slashed ss @ (if se then ''/'' else [])) (slashed out)
    = slashed (walk out ss) @ (if se \<or> is_dots (last ss) then ''/'' else [])"
  using assms
proof (induction ss arbitrary: out)
  case (Cons x xs)
  let ?r = "slashed xs @ (if se then ''/'' else [])"
  have r: "seg_end ?r" by (rule seg_end_slashed)
  have stop: "rds [] o' = o'" for o' by (simp add: rds.simps)
  consider (dot) "x = ''.''" | (dots) "x = ''..''" | (name) "\<not> is_dots x" by (auto simp: is_dots_def)
  then show ?case
  proof cases
    case dot
    show ?thesis using Cons rds_dot [OF r, of "slashed out"] dot
      by (cases "xs = [] \<and> \<not> se") (auto simp: rds_root is_dots_def)
  next
    case dots
    then show ?thesis using Cons rds_dots [OF r, of "slashed out"]
      by (cases "xs = [] \<and> \<not> se") (auto simp: rds_root is_dots_def drop_last_segment_slashed segs_ok_butlast)
  next
    case name
    then show ?thesis using Cons rds_name [OF r, of x "slashed out"] Cons.IH [of "out @ [x]"]
      by (cases "xs = [] \<and> \<not> se") (auto simp: is_dots_def stop)
  qed
qed (simp add: rds_root)

text \<open>The loop of \<open>merge\<close> on the segments of the reference.\<close>

lemma fold_merge_step:
  "segmt (fold merge_step ss q) = walk (segmt q) ss"
  "slash_begin (fold merge_step ss q) = slash_begin q"
proof (induction ss arbitrary: q)
  case (Cons s ss)
  { case 1 show ?case using Cons(1) by (auto simp: merge_step_def) }
  { case 2 show ?case using Cons(2) by (auto simp: merge_step_def) }
qed auto

lemma fold_merge_step_end:
  assumes "ss \<noteq> []" "walk (segmt q) ss \<noteq> []"
  shows "slash_end (fold merge_step ss q) = is_dots (last ss)"
proof (cases ss rule: rev_cases)
  case (snoc xs x)
  with assms show ?thesis
    by (auto simp: merge_step_def is_dots_def fold_merge_step walk_append)
qed (use assms in simp)

lemma walk_Nil_last: "ss \<noteq> [] \<Longrightarrow> walk st ss = [] \<Longrightarrow> is_dots (last ss)"
  by (cases ss rule: rev_cases) (auto simp: walk_append is_dots_def split: if_splits)

lemma walk_names: "\<forall>s\<in>set ss. \<not> is_dots s \<Longrightarrow> walk st ss = st @ ss"
  by (induction ss arbitrary: st) (auto simp: is_dots_def)

lemma segs_ok_walk: "segs_ok st \<Longrightarrow> segs_ok ss \<Longrightarrow> segs_ok (walk st ss)"
  by (induction ss arbitrary: st) (auto simp: segs_ok_butlast)

lemma path_get_slashed:
  assumes "segs_ok (segmt p)" "slash_begin p"
  shows "path_get p = (if segmt p = [] then ''/'' else slashed (segmt p) @ (if slash_end p then ''/'' else []))"
  using assms by (cases "segmt p = []") (simp_all add: path_get_no_segs path_get_join flip: slashed_join)

definition dir_segs :: "path \<Rightarrow> string list" where
  "dir_segs b = (if \<not> slash_end b \<and> segmt b \<noteq> [] then butlast (segmt b) else segmt b)"

lemma dirname_slash: "dirname (r @ ''/'') = r @ ''/''"
  by (simp add: dirname_def)

lemma dirname_get:
  assumes "segs_ok (segmt b)" "slash_begin b"
  shows "dirname (path_get b) = slashed (dir_segs b) @ ''/''"
proof (cases "segmt b" rule: rev_cases)
  case Nil
  with assms show ?thesis using dirname_slash [of "[]"] by (simp add: path_get_slashed dir_segs_def)
next
  case (snoc xs x)
  show ?thesis
  proof (cases "slash_end b")
    case True
    with snoc assms show ?thesis using dirname_slash [of "slashed (segmt b)"]
      by (simp add: path_get_slashed dir_segs_def)
  next
    case False
    have "CHR ''/'' \<notin> set x" using assms snoc by simp
    with False snoc assms show ?thesis
      by (simp add: path_get_slashed dir_segs_def dirname_def dropWhile_rev_seg)
  qed
qed

lemma segs_ok_merge: "segs_ok (segmt b) \<Longrightarrow> segs_ok (segmt r) \<Longrightarrow> segs_ok (segmt (merge b r))"
  by (auto simp: merge_def Let_def fold_merge_step segs_ok_walk segs_ok_butlast)

lemma slash_begin_merge: "slash_begin b \<Longrightarrow> slash_begin (merge b r)"
  by (auto simp: merge_def Let_def fold_merge_step)

lemma path_assign_get:
  assumes "path_wf p"
  shows "path_assign (path_get p) = p"
proof (cases "segmt p = []")
  case True
  with assms show ?thesis by (cases p) (auto simp: path_wf_def path_get_no_segs path_defs)
next
  case False
  with assms have ok: "segs_ok (segmt p)" by (simp add: path_wf_def)
  have nn: "join (segmt p) \<noteq> []" and hd: "hd (join (segmt p)) \<noteq> CHR ''/''"
    and last: "last (join (segmt p)) \<noteq> CHR ''/''"
    using ok False by (simp_all add: join_eq_Nil join_hd join_last)
  have "path_assign (path_get p) = \<lparr>segmt = segmt p, slash_begin = slash_begin p, slash_end = slash_end p\<rparr>"
    using assign_loop_join [OF ok, of True] assign_loop_join [OF ok, of False] nn hd last
    by (cases "slash_begin p"; cases "slash_end p")
       (simp_all add: path_get_join [OF ok False] path_assign_def Let_def del: assign_loop.simps)
  then show ?thesis by simp
qed

lemma merge_resolves:
  assumes "segs_ok (segmt b)" "segs_ok (segmt r)" "slash_begin b" "\<not> slash_begin r" "segmt r \<noteq> []"
    and "\<forall>s\<in>set (segmt b). \<not> is_dots s"
  shows "path_get (merge b r) = remove_dot_segments (dirname (path_get b) @ path_get r)"
proof -
  let ?d = "dir_segs b" and ?rs = "segmt r"
  have ne: "?rs \<noteq> []" and okr: "segs_ok ?rs" and okb: "segs_ok (segmt b)"
    using assms by auto
  have okd: "segs_ok ?d" and named: "\<forall>s\<in>set ?d. \<not> is_dots s"
    using okb assms(6) by (auto simp: dir_segs_def segs_ok_butlast dest: in_set_butlastD)
  let ?m = "merge b r" and ?w = "walk ?d ?rs" and ?e = "slash_end r \<or> is_dots (last ?rs)"
  have segs: "segmt ?m = ?w" and abs: "slash_begin ?m"
    and se: "?w \<noteq> [] \<Longrightarrow> slash_end ?m = ?e"
    using assms ne by (auto simp: merge_def Let_def fold_merge_step fold_merge_step_end dir_segs_def path_empty_def)
  have "dirname (path_get b) @ path_get r = slashed ?d @ CHR ''/'' # join ?rs @ (if slash_end r then ''/'' else [])"
    using assms okb okr ne by (simp add: dirname_get path_get_join)
  also have "\<dots> = slashed (?d @ ?rs) @ (if slash_end r then ''/'' else [])"
    using slashed_join [OF ne] by simp
  finally have "remove_dot_segments (dirname (path_get b) @ path_get r)
      = slashed (walk [] (?d @ ?rs)) @ (if ?e then ''/'' else [])"
    using rds_slashed [of "?d @ ?rs" "[]" "slash_end r"] okd okr ne by (simp add: remove_dot_segments_def)
  also have "walk [] (?d @ ?rs) = ?w" using named by (simp add: walk_append walk_names)
  also have "slashed ?w @ (if ?e then ''/'' else []) = path_get ?m"
    using segs abs se ne okd okr walk_Nil_last [of ?rs ?d]
    by (auto simp: path_get_slashed segs_ok_walk)
  finally show ?thesis by simp
qed

text \<open>
  A list of segments that does not lead above the directory it starts from, \<open>n\<close> levels down. On such a list the loop of
  \<open>normalize\<close> walks along the segments.
\<close>

fun inside :: "nat \<Rightarrow> string list \<Rightarrow> bool" where
  "inside n [] = True"
| "inside n (s # ss) =
     (if s = ''.'' then inside n ss else if s = ''..'' then 0 < n \<and> inside (n - 1) ss else inside (n + 1) ss)"

lemma normalize_loop_inside:
  assumes "\<forall>s\<in>set before. \<not> is_dots s" "inside (length before) rest"
  shows "normalize_loop before rest se = (walk (rev before) rest, se \<or> rest \<noteq> [] \<and> is_dots (last rest))"
  using assms
proof (induction before rest se rule: normalize_loop.induct)
  case (2 before i rest se)
  consider (dot) "i = ''.''" | (dots) "i = ''..''" | (name) "\<not> is_dots i" by (auto simp: is_dots_def)
  then show ?case
  proof cases
    case dot
    then show ?thesis using 2 by (auto simp: is_dots_def)
  next
    case dots
    then obtain b bs where "before = b # bs" using 2(5) by (cases before) auto
    then show ?thesis using 2 dots by (auto simp: is_dots_def)
  next
    case name
    then show ?thesis using 2 by (auto simp: is_dots_def)
  qed
qed simp

lemma normalize_inside:
  assumes "segmt p \<noteq> []" "hd (segmt p) \<noteq> ''.''" "inside 0 (segmt p)"
  shows "segmt (path_normalize p) = walk [] (segmt p)"
    and "slash_end (path_normalize p) \<longleftrightarrow> slash_end p \<or> is_dots (last (segmt p))"
proof -
  obtain x xs where x: "segmt p = x # xs" using assms(1) by (cases "segmt p") auto
  then have "\<not> is_dots x" "inside 1 xs" using assms(2,3) by (auto simp: is_dots_def split: if_splits)
  then show "segmt (path_normalize p) = walk [] (segmt p)"
    "slash_end (path_normalize p) \<longleftrightarrow> slash_end p \<or> is_dots (last (segmt p))"
    using normalize_loop_inside [of "[x]" xs "slash_end p"] x by (auto simp: path_normalize_def is_dots_def)
qed

section \<open>Properties\<close>

text \<open>C15. Resolution: for an absolute base path without dot segments and a relative reference that is
  not empty, \<^verbatim>\<open>merge\<close> prints the path that section 5.2 of RFC 3986 prescribes, the result of
  \<open>remove_dot_segments\<close> on the base up to its last slash followed by the reference.\<close>

theorem merge_rfc3986:
  assumes "path_wf b" "path_wf r" "slash_begin b" "\<not> slash_begin r" "\<not> path_empty r"
    and "\<forall>s\<in>set (segmt b). \<not> is_dots s"
  shows "path_get (merge b r) = remove_dot_segments (dirname (path_get b) @ path_get r)"
  using assms by (intro merge_resolves) (auto simp: path_wf_def path_empty_def)

theorem merge_rfc3986_witness:
  "path_get (merge (path_assign ''/a/b/c/d;p'') (path_assign ''../../g/./h''))
     = remove_dot_segments (dirname (path_get (path_assign ''/a/b/c/d;p'')) @ path_get (path_assign ''../../g/./h''))
   \<and> path_get (merge (path_assign ''/a/b/c/d;p'') (path_assign ''../../g/./h'')) = ''/a/g/h''"
proof
  show "path_get (merge (path_assign ''/a/b/c/d;p'') (path_assign ''../../g/./h''))
     = remove_dot_segments (dirname (path_get (path_assign ''/a/b/c/d;p'')) @ path_get (path_assign ''../../g/./h''))"
  proof (rule merge_rfc3986)
    show "slash_begin (path_assign ''/a/b/c/d;p'')" "\<not> slash_begin (path_assign ''../../g/./h'')"
      "\<not> path_empty (path_assign ''../../g/./h'')" by code_simp+
    show "\<forall>s\<in>set (segmt (path_assign ''/a/b/c/d;p'')). \<not> is_dots s" by code_simp
  qed (rule path_wf_assign)+
  show "path_get (merge (path_assign ''/a/b/c/d;p'') (path_assign ''../../g/./h'')) = ''/a/g/h''" by code_simp
qed

text \<open>C16. On an absolute path that does not lead above the root and does not start with a single dot, \<^verbatim>\<open>normalize\<close> is the algorithm
  \<open>remove_dot_segments\<close> of section 5.2.4 of RFC 3986: every dot segment is removed, a double dot with the segment
  before it, and the path ends in a slash when the last segment was one of them.\<close>

theorem path_normalize_rfc3986:
  assumes "path_wf p" "slash_begin p" "inside 0 (segmt p)" "segmt p = [] \<or> hd (segmt p) \<noteq> ''.''"
  shows "path_get (path_normalize p) = remove_dot_segments (path_get p)"
proof (cases "segmt p = []")
  case True
  then show ?thesis using assms(2) by (simp add: path_normalize_Nil path_get_no_segs remove_dot_segments_def rds_root)
next
  case False
  have ok: "segs_ok (segmt p)" using assms(1) by (simp add: path_wf_def)
  have n: "segmt (path_normalize p) = walk [] (segmt p)"
    "slash_end (path_normalize p) \<longleftrightarrow> slash_end p \<or> is_dots (last (segmt p))" using normalize_inside assms(3,4) False by blast+
  have "remove_dot_segments (path_get p) = slashed (walk [] (segmt p)) @ (if slash_end p \<or> is_dots (last (segmt p)) then ''/'' else [])"
    using rds_slashed [OF ok, of "[]" "slash_end p"] ok assms(2) False by (simp add: path_get_slashed remove_dot_segments_def)
  also have "\<dots> = path_get (path_normalize p)"
    using walk_Nil_last [OF False, of "[]"] path_normalize_segs_ok [OF ok] assms(2) n
    by (auto simp: path_get_slashed)
  finally show ?thesis by simp
qed

theorem path_normalize_rfc3986_witness:
  "path_get (path_normalize (path_assign ''/a/b/./../c/..'')) = remove_dot_segments ''/a/b/./../c/..''
   \<and> path_get (path_normalize (path_assign ''/a/b/./../c/..'')) = ''/a/''"
proof -
  have "slash_begin (path_assign ''/a/b/./../c/..'')" "inside 0 (segmt (path_assign ''/a/b/./../c/..''))"
    "segmt (path_assign ''/a/b/./../c/..'') = [] \<or> hd (segmt (path_assign ''/a/b/./../c/..'')) \<noteq> ''.''" by code_simp+
  note path_normalize_rfc3986 [OF path_wf_assign this]
  moreover have "path_get (path_assign ''/a/b/./../c/..'') = ''/a/b/./../c/..''"
    "path_get (path_normalize (path_assign ''/a/b/./../c/..'')) = ''/a/''" by code_simp+
  ultimately show ?thesis by simp
qed

text \<open>The dot segments that a path starts with stay: \<open>normal_segs\<close> is all that \<^verbatim>\<open>normalize\<close> gives for every path.\<close>

lemma path_normalize_normal:
  "normal_segs (segmt (path_normalize p)) \<and> path_normalize (path_normalize p) = path_normalize p
   \<and> slash_begin (path_normalize p) = slash_begin p"
  by (simp add: path_normalize_nf path_normalize_id)

lemma normalize_keeps_leading_dots:
  "path_get (path_normalize (path_assign ''/./a'')) = ''/./a''" "path_get (path_normalize (path_assign ''/../a'')) = ''/../a''"
  "remove_dot_segments ''/./a'' = ''/a''" "remove_dot_segments ''/../a'' = ''/a''"
  by (code_simp, code_simp, simp_all add: remove_dot_segments_def rds.simps drop_last_segment_def)

text \<open>C24. Parsing and printing: \<^verbatim>\<open>assign\<close> establishes the invariant of the class, and every path that
  satisfies it is read back by \<^verbatim>\<open>assign\<close> from the string \<^verbatim>\<open>get\<close> prints.\<close>

theorem path_roundtrip: "path_wf (path_assign s) \<and> (path_wf p \<longrightarrow> path_assign (path_get p) = p)"
  by (simp add: path_wf_assign path_assign_get)

theorem path_roundtrip_witness:
  "path_wf (path_assign ''//a/b//'') \<and> path_assign (path_get \<lparr>segmt = [''a'', ''b''], slash_begin = True, slash_end = True\<rparr>)
     = \<lparr>segmt = [''a'', ''b''], slash_begin = True, slash_end = True\<rparr>"
  using path_roundtrip [of "''//a/b//''" "\<lparr>segmt = [''a'', ''b''], slash_begin = True, slash_end = True\<rparr>"]
  by (simp add: path_wf_def)

text \<open>\<^verbatim>\<open>size\<close> is the number of characters \<^verbatim>\<open>get\<close> prints.\<close>

theorem path_size_get:
  assumes "segs_ok (segmt p)"
  shows "path_size p = length (path_get p)"
proof (cases "segmt p = []")
  case False
  with assms show ?thesis
    by (simp add: path_get_join path_size_def path_empty_def length_join)
qed (auto simp: path_get_no_segs path_defs)

theorem path_size_get_witness:
  "path_size (path_assign ''/a/bc/'') = length (path_get (path_assign ''/a/bc/'')) \<and> path_size (path_assign ''/a/bc/'') = 6"
proof -
  have "segs_ok (segmt (path_assign ''/a/bc/''))" by code_simp
  moreover have "path_size (path_assign ''/a/bc/'') = 6" by code_simp
  ultimately show ?thesis using path_size_get by blast
qed

text \<open>
  Three behaviours of the class at its edges: a relative path that normalises to nothing prints as the
  root; a removed first segment can leave a segment with a colon in front; and \<^verbatim>\<open>updir\<close> of a single
  file segment pops the empty list.
\<close>

lemma normalize_relative_to_root: "path_get (path_normalize (path_assign ''a/..'')) = ''/''"
  by code_simp

lemma normalize_exposes_colon: "path_get (path_normalize (path_assign ''x/../a:b'')) = ''a:b''"
  by code_simp

lemma updir_undefined: "updir p = Inl Undefined \<longleftrightarrow> \<not> slash_end p \<and> length (segmt p) = 1"
proof (cases "segmt p" rule: rev_cases)
  case (snoc xs x)
  then show ?thesis by (cases xs) (auto simp: updir_def Let_def)
qed (simp add: updir_def)

end
