(* ===== verification/Regex.thy ===== *)
theory Regex
  imports Prelude
begin

text \<open>
  Regular expressions with the Perl matching discipline, which is the documented behaviour of
  \<^verbatim>\<open>boost::regex\<close> in its default syntax: alternatives are tried in order, greedy repetitions
  longest first, an iteration that consumes nothing ends a repetition, and \<^verbatim>\<open>regex_match\<close>
  succeeds with the sub-matches of the first way to consume the whole string. \<open>perl_match\<close> and
  \<open>perl_search\<close> compute that; \<open>perl_match_iff_lang\<close> shows that the former accepts exactly
  the language of the expression. The library itself is a parameter of the model (theory
  \<^verbatim>\<open>Boost\<close>), and the pattern literals, which are data of the sources, are translated where they
  are used. An anchor \<^verbatim>\<open>^\<close> or \<^verbatim>\<open>$\<close> at the ends of a pattern says nothing more when the
  whole string must match and is left out.
\<close>

section \<open>Expressions and their language\<close>

datatype regex =
    Eps
  | Cls "char \<Rightarrow> bool"
  | Seq regex regex
  | Alt regex regex
  | Star regex
  | Grp nat regex

text \<open>Perl's \<^verbatim>\<open>r?\<close>, \<^verbatim>\<open>r+\<close> and \<^verbatim>\<open>r{m,n}\<close>, all greedy, and a literal string.\<close>

definition Opt :: "regex \<Rightarrow> regex" where
  "Opt r = Alt r Eps"

definition Plus :: "regex \<Rightarrow> regex" where
  "Plus r = Seq r (Star r)"

fun Rep :: "regex \<Rightarrow> nat \<Rightarrow> regex" where
  "Rep r 0 = Eps"
| "Rep r (Suc n) = Seq r (Rep r n)"

fun RepOpt :: "regex \<Rightarrow> nat \<Rightarrow> regex" where
  "RepOpt r 0 = Eps"
| "RepOpt r (Suc n) = Opt (Seq r (RepOpt r n))"

definition RepRange :: "regex \<Rightarrow> nat \<Rightarrow> nat \<Rightarrow> regex" where
  "RepRange r m n = Seq (Rep r m) (RepOpt r (n - m))"

fun Lit :: "string \<Rightarrow> regex" where
  "Lit [] = Eps"
| "Lit (c # cs) = Seq (Cls (\<lambda>x. x = c)) (Lit cs)"

inductive_set star :: "string set \<Rightarrow> string set" for A where
  star_Nil: "[] \<in> star A"
| star_step: "a \<in> A \<Longrightarrow> b \<in> star A \<Longrightarrow> a @ b \<in> star A"

primrec lang :: "regex \<Rightarrow> string set" where
  "lang Eps = {[]}"
| "lang (Cls P) = {[c] |c. P c}"
| "lang (Seq r s) = {a @ b |a b. a \<in> lang r \<and> b \<in> lang s}"
| "lang (Alt r s) = lang r \<union> lang s"
| "lang (Star r) = star (lang r)"
| "lang (Grp n r) = lang r"

section \<open>The matcher\<close>

text \<open>
  The matches of an expression at the start of a string, best first: the sub-matches recorded so
  far and the rest of the string.
\<close>

type_synonym submatches = "nat \<Rightarrow> string option"
type_synonym regex_engine = "regex \<Rightarrow> string \<Rightarrow> submatches option"

function (sequential) matches :: "regex \<Rightarrow> string \<Rightarrow> submatches \<Rightarrow> (submatches \<times> string) list" where
  "matches Eps s m = [(m, s)]"
| "matches (Cls P) s m = (case s of [] \<Rightarrow> [] | c # cs \<Rightarrow> if P c then [(m, cs)] else [])"
| "matches (Seq r1 r2) s m = concat (map (\<lambda>(m', s'). matches r2 s' m') (matches r1 s m))"
| "matches (Alt r1 r2) s m = matches r1 s m @ matches r2 s m"
| "matches (Star r) s m =
     concat (map (\<lambda>(m', s'). if length s' < length s then matches (Star r) s' m' else [])
                 (matches r s m)) @ [(m, s)]"
| "matches (Grp n r) s m =
     map (\<lambda>(m', s'). (m'(n \<mapsto> take (length s - length s') s), s')) (matches r s m)"
  by pat_completeness auto
termination
  by (relation "measures [\<lambda>(r, s, m). size r, \<lambda>(r, s, m). length s]") auto

declare matches.simps(5) [simp del]

definition perl_match :: regex_engine where
  "perl_match r s = map_option fst (List.find (\<lambda>(m, s'). s' = []) (matches r s Map.empty))"

text \<open>
  \<^verbatim>\<open>regex_search\<close>: the leftmost position with a match, and the best match there, as the text before
  the match, the matched text, the text after it and the sub-matches.
\<close>

type_synonym search_result = "(string \<times> string \<times> string \<times> submatches) option"

fun perl_search :: "regex \<Rightarrow> string \<Rightarrow> search_result" where
  "perl_search r s =
     (case matches r s Map.empty of
        (m, rest) # _ \<Rightarrow> Some ([], take (length s - length rest) s, rest, m)
      | [] \<Rightarrow> (case s of
          [] \<Rightarrow> None
        | c # cs \<Rightarrow> map_option (\<lambda>(pre, x, rest, m). (c # pre, x, rest, m)) (perl_search r cs)))"

declare perl_search.simps [simp del]

section \<open>Soundness and completeness of the matcher\<close>

lemma star_append_single: "a \<in> A \<Longrightarrow> a \<in> star A"
  using star_step [of a A "[]"] star_Nil by simp

lemma set_matches_Star:
  "x \<in> set (matches (Star r) s m) \<longleftrightarrow>
     x = (m, s) \<or>
     (\<exists>m1 s1. (m1, s1) \<in> set (matches r s m) \<and> length s1 < length s
        \<and> x \<in> set (matches (Star r) s1 m1))"
  by (subst matches.simps(5)) fastforce

lemma matches_Star_refl: "(m, s) \<in> set (matches (Star r) s m)"
  by (subst set_matches_Star) simp

lemma matches_Star_step:
  assumes "(m1, b) \<in> set (matches r (a @ b) m)" and "a \<noteq> []"
    and "(m2, s2) \<in> set (matches (Star r) b m1)"
  shows "(m2, s2) \<in> set (matches (Star r) (a @ b) m)"
  using assms by (subst set_matches_Star) auto

lemma matches_sound:
  "(m', s') \<in> set (matches r s m) \<Longrightarrow> \<exists>p \<in> lang r. s = p @ s'"
proof (induction r s m arbitrary: m' s' rule: matches.induct)
  case (3 r1 r2 s m)
  from "3.prems" obtain m1 s1 where "(m1, s1) \<in> set (matches r1 s m)"
    and "(m', s') \<in> set (matches r2 s1 m1)" by auto
  with "3.IH" show ?case by fastforce
next
  case (5 r s m)
  from "5.prems" consider "s' = s"
    | m1 s1 where "(m1, s1) \<in> set (matches r s m)" "length s1 < length s"
        "(m', s') \<in> set (matches (Star r) s1 m1)"
    by (auto simp: set_matches_Star [of _ r s m])
  then show ?case
  proof cases
    case 1
    then show ?thesis using star_Nil by auto
  next
    case 2
    with "5.IH"(1) obtain p where p: "p \<in> lang r" "s = p @ s1" by blast
    from 2 "5.IH"(2) obtain q where "q \<in> star (lang r)" "s1 = q @ s'" by fastforce
    with p show ?thesis using star_step by (metis append.assoc lang.simps(5))
  qed
next
  case (4 r1 r2 s m)
  then show ?case by (auto, blast+)
next
  case (6 n r s m)
  then show ?case by auto
qed (auto split: list.splits if_splits)

lemma matches_complete:
  "p \<in> lang r \<Longrightarrow> \<exists>m'. (m', s') \<in> set (matches r (p @ s') m)"
proof (induction r arbitrary: p s' m)
  case (Seq r1 r2)
  then obtain a b where p: "p = a @ b" "a \<in> lang r1" "b \<in> lang r2" by auto
  from Seq.IH(1) [OF p(2)] obtain m1 where "(m1, b @ s') \<in> set (matches r1 (a @ b @ s') m)" by blast
  moreover from Seq.IH(2) [OF p(3)] obtain m2 where "(m2, s') \<in> set (matches r2 (b @ s') m1)" by blast
  ultimately show ?case using p by fastforce
next
  case (Alt r1 r2)
  from Alt.prems show ?case
    using Alt.IH [of p s' m] by auto
next
  case (Star r)
  have "p \<in> star (lang r)" using Star.prems by simp
  then show ?case
  proof (induction arbitrary: m rule: star.induct)
    case star_Nil
    show ?case using matches_Star_refl by auto
  next
    case (star_step a b m)
    show ?case
    proof (cases a)
      case Nil
      with star_step.IH show ?thesis by simp
    next
      case (Cons c cs)
      then have "a \<noteq> []" by simp
      obtain m1 where 1: "(m1, b @ s') \<in> set (matches r (a @ (b @ s')) m)"
        using Star.IH [OF star_step.hyps(1)] by blast
      obtain m2 where 2: "(m2, s') \<in> set (matches (Star r) (b @ s') m1)"
        using star_step.IH by blast
      from matches_Star_step [OF 1 \<open>a \<noteq> []\<close> 2] show ?thesis by auto
    qed
  qed
next
  case (Grp n r)
  then obtain m' where "(m', s') \<in> set (matches r (p @ s') m)" by fastforce
  then show ?case by force
qed auto

lemma find_empty_rest:
  "(\<exists>m. map_option fst (List.find (\<lambda>(m, s'). s' = []) xs) = Some m) \<longleftrightarrow> (\<exists>m. (m, []) \<in> set xs)"
  by (induction xs) auto

theorem perl_match_iff_lang: "(\<exists>m. perl_match r s = Some m) \<longleftrightarrow> s \<in> lang r"
proof -
  have "s \<in> lang r" if "(m, []) \<in> set (matches r s Map.empty)" for m
    using matches_sound [OF that] by auto
  moreover have "\<exists>m. (m, []) \<in> set (matches r s Map.empty)" if "s \<in> lang r"
    using matches_complete [OF that, of "[]" Map.empty] by simp
  ultimately show ?thesis
    unfolding perl_match_def find_empty_rest by blast
qed

section \<open>Languages of classes\<close>

lemma lang_Seq_Cls: "s \<in> lang (Seq (Cls P) r) \<longleftrightarrow> (\<exists>c cs. s = c # cs \<and> P c \<and> cs \<in> lang r)"
proof
  assume "\<exists>c cs. s = c # cs \<and> P c \<and> cs \<in> lang r"
  then obtain c cs where "s = [c] @ cs" "P c" "cs \<in> lang r" by auto
  then show "s \<in> lang (Seq (Cls P) r)" unfolding lang.simps by blast
qed auto

lemma star_Cls_sub: "w \<in> star A \<Longrightarrow> A = {[c] |c. P c} \<Longrightarrow> c \<in> set w \<Longrightarrow> P c"
  by (induction rule: star.induct) auto

lemma star_Cls_mem: "\<forall>c\<in>set w. P c \<Longrightarrow> w \<in> star {[c] |c. P c}"
proof (induction w)
  case (Cons c w)
  then have "w \<in> star {[c] |c. P c}" and "[c] \<in> {[c] |c. P c}" by simp_all
  from star_step [OF this(2,1)] show ?case by simp
qed (rule star_Nil)

lemma lang_Star_Cls: "w \<in> lang (Star (Cls P)) \<longleftrightarrow> (\<forall>c\<in>set w. P c)"
proof
  assume "w \<in> lang (Star (Cls P))"
  then have "w \<in> star {[c] |c. P c}" by simp
  then show "\<forall>c\<in>set w. P c" using star_Cls_sub [of w _ P, OF _ refl] by simp
next
  assume "\<forall>c\<in>set w. P c"
  from star_Cls_mem [OF this] show "w \<in> lang (Star (Cls P))" by simp
qed

section \<open>First matches\<close>

text \<open>Perl takes the first way to match: the best match of a part is the one the sequel starts from.\<close>

definition first_full :: "regex \<Rightarrow> string \<Rightarrow> submatches \<Rightarrow> submatches option" where
  "first_full r s m = map_option fst (List.find (\<lambda>(m, s'). s' = []) (matches r s m))"

lemma perl_match_first_full: "perl_match r s = first_full r s Map.empty"
  by (simp add: perl_match_def first_full_def)

lemma find_append:
  "List.find P (xs @ ys) = (case List.find P xs of Some x \<Rightarrow> Some x | None \<Rightarrow> List.find P ys)"
  by (induction xs) auto

lemma first_full_Seq:
  assumes "matches r1 s m = (m1, s1) # ms" and "first_full r2 s1 m1 = Some m2"
  shows "first_full (Seq r1 r2) s m = Some m2"
  using assms by (auto simp: first_full_def find_append split: option.splits)

lemma matches_Star_Cls:
  "\<exists>ms. matches (Star (Cls P)) s m = (m, dropWhile P s) # ms"
proof (induction s)
  case (Cons c cs)
  then show ?case by (auto simp: matches.simps(5) [of _ "c # cs"])
qed (simp add: matches.simps(5))

lemma set_matches_Star_Cls:
  "x \<in> set (matches (Star (Cls P)) s m) \<longleftrightarrow> (\<exists>a b. s = a @ b \<and> (\<forall>c\<in>set a. P c) \<and> x = (m, b))"
proof (induction s arbitrary: x)
  case (Cons c cs)
  have "x \<in> set (matches (Star (Cls P)) (c # cs) m) \<longleftrightarrow>
      x = (m, c # cs) \<or> P c \<and> x \<in> set (matches (Star (Cls P)) cs m)"
    by (auto simp: set_matches_Star [of _ _ "c # cs"])
  then show ?case unfolding Cons.IH by (auto simp: Cons_eq_append_conv)
qed (auto simp: matches.simps(5))

lemma matches_Grp:
  "matches r s m = (m1, s1) # ms \<Longrightarrow>
   \<exists>ms'. matches (Grp n r) s m = (m1(n \<mapsto> take (length s - length s1) s), s1) # ms'"
  by simp

lemma matches_Opt_some: "matches r s m = x # ms \<Longrightarrow> \<exists>ms'. matches (Opt r) s m = x # ms'"
  by (simp add: Opt_def)

lemma matches_Opt_none: "matches r s m = [] \<Longrightarrow> matches (Opt r) s m = [(m, s)]"
  by (simp add: Opt_def)

lemma take_length_takeWhile: "take (length s - length (dropWhile P s)) s = takeWhile P s"
  by (metis add_diff_cancel_right' append_eq_conv_conj length_append takeWhile_dropWhile_id)

lemma dropWhile_hd: "dropWhile P s = c # r \<Longrightarrow> \<not> P c"
  by (simp add: dropWhile_eq_Cons_conv)

lemma matches_Lit_single: "matches (Lit [c]) s m = (case s of x # xs \<Rightarrow> if x = c then [(m, xs)] else [] | [] \<Rightarrow> [])"
  by (auto split: list.split)

end
