(* ===== verification/Boost.thy ===== *)
theory Boost
  imports Regex
begin

text \<open>
  The functions of the Boost libraries that the sources call. Boost is not part of the repository,
  so they are a parameter of the model: the definitions that use them take a \<open>boost\<close> record. The
  locale \<open>boost_lib\<close> states what the program relies on, the documented behaviour in the C locale;
  \<open>boost_ref\<close> is a concrete record that has it.
\<close>

record boost =
  regex_match :: "regex \<Rightarrow> string \<Rightarrow> submatches option"
  regex_search :: "regex \<Rightarrow> string \<Rightarrow> search_result"
  to_lower :: "string \<Rightarrow> string"
  trim :: "string \<Rightarrow> string"

definition trim_ref :: "string \<Rightarrow> string" where
  "trim_ref s = rev (dropWhile isspace (rev (dropWhile isspace s)))"

definition boost_ref :: boost where
  "boost_ref = \<lparr>regex_match = perl_match, regex_search = perl_search, to_lower = map tolower,
     trim = trim_ref\<rparr>"

locale boost_lib =
  fixes B :: boost
  assumes regex_match_perl: "regex_match B r s = perl_match r s"
    and regex_search_perl: "regex_search B r s = perl_search r s"
    and to_lower_map: "to_lower B s = map tolower s"
    and trim_spaces: "trim B s = trim_ref s"
begin

lemma regex_match_iff: "(\<exists>m. regex_match B r s = Some m) \<longleftrightarrow> s \<in> lang r"
  by (simp add: regex_match_perl perl_match_iff_lang)

lemma regex_match_None: "regex_match B r s = None \<longleftrightarrow> s \<notin> lang r"
  using regex_match_iff [of r s] by auto

lemma boost_determined: "B = boost_ref"
  by (cases B) (use regex_match_perl regex_search_perl to_lower_map trim_spaces in
    \<open>auto simp: boost_ref_def fun_eq_iff\<close>)

end

interpretation ref: boost_lib boost_ref
  by unfold_locales (simp_all add: boost_ref_def)

end
