(* ===== verification/Url_Regex.thy ===== *)
theory Url_Regex
  imports Boost
begin

text \<open>
  The patterns of \<^verbatim>\<open>url_regex\<close> in \<^verbatim>\<open>src/common/Url.hh\<close>. Only the groups of \<open>RE_URL\<close> are read by the
  program; the other patterns are translated without their groups. The main facts: \<open>RE_URL\<close> matches
  every string, and its groups are the parts that \<open>split_url\<close> computes by scanning; and no host
  pattern accepts a percent sign or a delimiter.
\<close>

section \<open>Patterns\<close>

definition any_of :: "string \<Rightarrow> char \<Rightarrow> bool" where
  "any_of cs c \<longleftrightarrow> c \<in> set cs"

definition none_of :: "string \<Rightarrow> char \<Rightarrow> bool" where
  "none_of cs c \<longleftrightarrow> c \<notin> set cs"

definition char_range :: "char \<Rightarrow> char \<Rightarrow> char \<Rightarrow> bool" where
  "char_range a b c \<longleftrightarrow> byte a \<le> byte c \<and> byte c \<le> byte b"

text \<open>The groups 1 to 7 of the pattern, numbered as in the source.\<close>

definition RE_URL_scheme :: regex where
  "RE_URL_scheme = Opt (Grp 1 (Seq (Grp 2 (Plus (Cls (none_of '':/?#'')))) (Lit '':'')))"

definition RE_URL_auth :: regex where
  "RE_URL_auth = Opt (Grp 3 (Alt (Seq (Lit ''//'') (Grp 4 (Star (Cls (none_of ''/?#''))))) (Lit ''///'')))"

definition RE_URL_path :: regex where
  "RE_URL_path = Grp 5 (Star (Cls (none_of ''?#'')))"

definition RE_URL_query :: regex where
  "RE_URL_query = Opt (Grp 6 (Seq (Lit ''?'') (Star (Cls (none_of ''#'')))))"

definition RE_URL_fragment :: regex where
  "RE_URL_fragment = Opt (Grp 7 (Seq (Lit ''#'') (Star (Cls (\<lambda>_. True)))))"

definition RE_URL :: regex where
  "RE_URL = Seq RE_URL_scheme (Seq RE_URL_auth (Seq RE_URL_path (Seq RE_URL_query RE_URL_fragment)))"

definition RE_SCHEME :: regex where
  "RE_SCHEME = Seq (Cls isalpha) (Star (Cls (\<lambda>c. isalnum c \<or> any_of ''+.-'' c)))"

definition RE_HOST :: regex where
  "RE_HOST = Seq (Cls isalnum)
     (Opt (Seq (Star (Cls (\<lambda>c. isalnum c \<or> any_of ''.-'' c))) (Cls (\<lambda>c. isalnum c \<or> any_of ''.'' c))))"

definition RE_PORT :: regex where
  "RE_PORT = RepRange (Cls isdigit) 1 5"

definition RE_IPVFUT :: regex where
  "RE_IPVFUT = Seq (Lit ''v'') (Seq (Cls isxdigit) (Seq (Lit ''.'') (Seq (Lit ''1'')
     (Star (Cls (\<lambda>c. isalnum c \<or> any_of ''._~!$&'' c \<or> c = CHR 0x27 \<or> any_of ''()*+,;=:-'' c))))))"

definition RE_decoct :: regex where
  "RE_decoct =
     Alt (Seq (Opt (Cls (char_range CHR ''0'' CHR ''1''))) (Seq (Opt (Cls (char_range CHR ''0'' CHR ''9''))) (Cls (char_range CHR ''0'' CHR ''9''))))
    (Alt (Seq (Lit ''2'') (Seq (Cls (char_range CHR ''0'' CHR ''4'')) (Cls (char_range CHR ''0'' CHR ''0''))))
         (Seq (Lit ''25'') (Cls (char_range CHR ''0'' CHR ''5''))))"

definition RE_IPV4 :: regex where
  "RE_IPV4 = Seq RE_decoct (Seq (Lit ''.'') (Seq RE_decoct (Seq (Lit ''.'') (Seq RE_decoct (Seq (Lit ''.'') RE_decoct)))))"

definition RE_h16 :: regex where
  "RE_h16 = RepRange (Cls isxdigit) 1 4"

definition RE_ls32 :: regex where
  "RE_ls32 = Alt (Seq RE_h16 (Seq (Lit '':'') RE_h16)) RE_IPV4"

definition RE_IPV6 :: regex where
  "RE_IPV6 =
    (let h16c = Seq RE_h16 (Lit '':'');
         before = (\<lambda>n. Opt (Seq (RepRange h16c 0 n) RE_h16))
     in  Alt (Seq (Rep h16c 6) RE_ls32)
        (Alt (Seq (Lit ''::'') (Seq (Rep h16c 5) RE_ls32))
        (Alt (Seq (Opt RE_h16) (Seq (Lit ''::'') (Seq (Rep h16c 4) RE_ls32)))
        (Alt (Seq (before 1) (Seq (Lit ''::'') (Seq (Rep h16c 3) RE_ls32)))
        (Alt (Seq (before 2) (Seq (Lit ''::'') (Seq (Rep h16c 2) RE_ls32)))
        (Alt (Seq (before 3) (Seq (Lit ''::'') (Seq (Rep h16c 1) RE_ls32)))
        (Alt (Seq (before 4) (Seq (Lit ''::'') RE_ls32))
        (Alt (Seq (before 5) (Seq (Lit ''::'') RE_h16))
             (Seq (before 6) (Lit ''::''))))))))))"

section \<open>The parts of a URL\<close>

record url_parts =
  p_scheme :: "string option"
  p_auth :: "string option"
  p_path :: string
  p_query :: "string option"
  p_fragment :: "string option"

definition split_scheme :: "string \<Rightarrow> string option \<times> string" where
  "split_scheme s =
     (let a = takeWhile (none_of '':/?#'') s; r = dropWhile (none_of '':/?#'') s in
      if a \<noteq> [] \<and> r \<noteq> [] \<and> hd r = CHR '':'' then (Some a, tl r) else (None, s))"

definition split_auth :: "string \<Rightarrow> string option \<times> string" where
  "split_auth s =
     (if prefix ''//'' s then (Some (takeWhile (none_of ''/?#'') (drop 2 s)), dropWhile (none_of ''/?#'') (drop 2 s))
      else (None, s))"

definition split_opt :: "char \<Rightarrow> (char \<Rightarrow> bool) \<Rightarrow> string \<Rightarrow> string option \<times> string" where
  "split_opt c P s =
     (case s of x # xs \<Rightarrow> if x = c then (Some (c # takeWhile P xs), dropWhile P xs) else (None, s)
      | [] \<Rightarrow> (None, s))"

definition split_url :: "string \<Rightarrow> url_parts" where
  "split_url s =
     (let (sc, s1) = split_scheme s; (au, s2) = split_auth s1;
          pa = takeWhile (none_of ''?#'') s2; s3 = dropWhile (none_of ''?#'') s2;
          (qu, s4) = split_opt CHR ''?'' (none_of ''#'') s3;
          (fr, _) = split_opt CHR ''#'' (\<lambda>_. True) s4
      in \<lparr>p_scheme = sc, p_auth = au, p_path = pa, p_query = qu, p_fragment = fr\<rparr>)"

section \<open>The parts of the URL pattern\<close>

lemma RE_URL_scheme_head:
  "\<exists>m1 ms. matches RE_URL_scheme s m = (m1, snd (split_scheme s)) # ms
     \<and> m1 2 = (case fst (split_scheme s) of None \<Rightarrow> m 2 | Some a \<Rightarrow> Some a) \<and> (\<forall>k \<ge> 3. m1 k = m k)"
proof -
  let ?P = "none_of '':/?#''"
  let ?g = "Grp 2 (Plus (Cls ?P))"
  have sub: "\<exists>a. s = a @ b \<and> a \<noteq> [] \<and> (\<forall>c\<in>set a. ?P c)" if "(m', b) \<in> set (matches ?g s m)" for m' b
    using that
    by (cases s) (auto simp: Plus_def set_matches_Star_Cls split: if_splits intro: exI [of _ "_ # _"])
  show ?thesis
  proof (cases "takeWhile ?P s \<noteq> [] \<and> dropWhile ?P s \<noteq> [] \<and> hd (dropWhile ?P s) = CHR '':''")
    case True
    then obtain c cs where s: "s = c # cs" "?P c" by (cases s) (auto split: if_splits)
    obtain r where r: "dropWhile ?P s = CHR '':'' # r" using True by (cases "dropWhile ?P s") auto
    obtain ms where "matches (Star (Cls ?P)) cs m = (m, dropWhile ?P cs) # ms"
      using matches_Star_Cls by blast
    then have "\<exists>ms. matches (Plus (Cls ?P)) s m = (m, dropWhile ?P s) # ms"
      using s by (simp add: Plus_def)
    then obtain ms where "matches ?g s m = (m(2 \<mapsto> takeWhile ?P s), CHR '':'' # r) # ms"
      using r by (auto simp: take_length_takeWhile [of s ?P, unfolded r, simplified])
    then obtain ms' where "matches (Seq ?g (Lit '':'')) s m = (m(2 \<mapsto> takeWhile ?P s), r) # ms'"
      by (simp del: matches.simps(6))
    then obtain x ms'' where "matches RE_URL_scheme s m = (m(2 \<mapsto> takeWhile ?P s, 1 \<mapsto> x), r) # ms''"
      by (auto simp: RE_URL_scheme_def Opt_def)
    then show ?thesis using True r by (auto simp: split_scheme_def Let_def)
  next
    case False
    have "matches (Lit '':'') b m' = []" if "(m', b) \<in> set (matches ?g s m)" for m' b
    proof (rule ccontr)
      assume "matches (Lit '':'') b m' \<noteq> []"
      then obtain r where b: "b = CHR '':'' # r" by (cases b) (auto split: if_splits)
      from sub [OF that] obtain a where a: "s = a @ b" "a \<noteq> []" "\<forall>c\<in>set a. ?P c" by blast
      have "takeWhile ?P s = a" "dropWhile ?P s = b"
        using a b by (auto simp: none_of_def takeWhile_append2 dropWhile_append2)
      with a b False show False by simp
    qed
    then have "matches (Seq ?g (Lit '':'')) s m = []" by (auto simp del: Lit.simps matches.simps(6))
    then have "matches RE_URL_scheme s m = [(m, s)]"
      unfolding RE_URL_scheme_def by (intro matches_Opt_none) (simp del: matches.simps(3))
    moreover have "split_scheme s = (None, s)" using False by (auto simp: split_scheme_def Let_def)
    ultimately show ?thesis by simp
  qed
qed

lemma RE_URL_auth_head:
  "\<exists>m1 ms. matches RE_URL_auth s m = (m1, snd (split_auth s)) # ms
     \<and> m1 3 = (case fst (split_auth s) of None \<Rightarrow> m 3 | Some a \<Rightarrow> Some (''//'' @ a))
     \<and> m1 4 = (case fst (split_auth s) of None \<Rightarrow> m 4 | Some a \<Rightarrow> Some a)
     \<and> (\<forall>k. k \<noteq> 3 \<longrightarrow> k \<noteq> 4 \<longrightarrow> m1 k = m k)"
proof (cases "prefix ''//'' s")
  case True
  let ?P = "none_of ''/?#''"
  from True obtain r where s: "s = CHR ''/'' # CHR ''/'' # r" by (auto simp: prefix_def)
  obtain ms where "matches (Star (Cls ?P)) r m = (m, dropWhile ?P r) # ms" using matches_Star_Cls by blast
  moreover have "take (Suc (Suc (length r)) - length (dropWhile ?P r)) s = ''//'' @ takeWhile ?P r"
    using take_length_takeWhile [of r ?P] length_dropWhile_le [of ?P r] by (simp add: s Suc_diff_le)
  ultimately show ?thesis
    by (simp add: RE_URL_auth_def Opt_def s split_auth_def take_length_takeWhile)
next
  case False
  then have "matches RE_URL_auth s m = [(m, s)]"
    by (auto simp: RE_URL_auth_def Opt_def split: list.splits if_splits)
  with False show ?thesis by (simp add: split_auth_def)
qed

lemma RE_URL_path_head:
  "\<exists>ms. matches RE_URL_path s m = (m(5 \<mapsto> takeWhile (none_of ''?#'') s), dropWhile (none_of ''?#'') s) # ms"
  using matches_Star_Cls [of "none_of ''?#''" s m] by (auto simp: RE_URL_path_def take_length_takeWhile)

lemma split_opt_head:
  "\<exists>ms. matches (Opt (Grp n (Seq (Lit [c]) (Star (Cls P))))) s m =
     (case fst (split_opt c P s) of None \<Rightarrow> m | Some a \<Rightarrow> m(n \<mapsto> a), snd (split_opt c P s)) # ms"
proof (cases "s \<noteq> [] \<and> hd s = c")
  case True
  then obtain r where s: "s = c # r" by (cases s) auto
  obtain ms where "matches (Star (Cls P)) r m = (m, dropWhile P r) # ms" using matches_Star_Cls by blast
  moreover have "take (Suc (length r) - length (dropWhile P r)) s = c # takeWhile P r"
    using take_length_takeWhile [of r P] length_dropWhile_le [of P r] by (simp add: s Suc_diff_le)
  ultimately show ?thesis by (simp add: Opt_def s split_opt_def)
next
  case False
  then have "matches (Opt (Grp n (Seq (Lit [c]) (Star (Cls P))))) s m = [(m, s)]"
    by (cases s) (auto simp: Opt_def)
  with False show ?thesis by (cases s) (auto simp: split_opt_def)
qed


lemma split_opt_rest:
  assumes "s = [] \<or> hd s = CHR ''?'' \<or> hd s = CHR ''#''"
    and "split_opt CHR ''?'' (none_of ''#'') s = (qu, r)"
  shows "r = [] \<or> hd r = CHR ''#''"
proof (cases "s \<noteq> [] \<and> hd s = CHR ''?''")
  case True
  then have "r = dropWhile (none_of ''#'') (tl s)" using assms(2) by (cases s) (auto simp: split_opt_def)
  then show ?thesis using hd_dropWhile [of "none_of ''#''" "tl s"] by (auto simp: none_of_def)
next
  case False
  then have "r = s" using assms(2) by (cases s) (auto simp: split_opt_def)
  with False assms(1) show ?thesis by auto
qed

theorem perl_match_RE_URL:
  "\<exists>m. perl_match RE_URL s = Some m \<and> m 2 = p_scheme (split_url s) \<and> m 4 = p_auth (split_url s)
     \<and> m 3 = map_option (\<lambda>a. ''//'' @ a) (p_auth (split_url s))
     \<and> m 5 = Some (p_path (split_url s)) \<and> m 6 = p_query (split_url s) \<and> m 7 = p_fragment (split_url s)"
proof -
  obtain sc s1 where 1: "split_scheme s = (sc, s1)" by (cases "split_scheme s")
  obtain au s2 where 2: "split_auth s1 = (au, s2)" by (cases "split_auth s1")
  define s3 where "s3 = dropWhile (none_of ''?#'') s2"
  obtain qu s4 where 4: "split_opt CHR ''?'' (none_of ''#'') s3 = (qu, s4)" by (meson surj_pair)
  obtain fr s5 where 5: "split_opt CHR ''#'' (\<lambda>_. True) s4 = (fr, s5)" by (meson surj_pair)
  have "s3 = [] \<or> hd s3 = CHR ''?'' \<or> hd s3 = CHR ''#''"
    using hd_dropWhile [of "none_of ''?#''" s2] unfolding s3_def by (simp add: none_of_def) blast
  then have "s4 = [] \<or> hd s4 = CHR ''#''" using 4 by (rule split_opt_rest)
  then have "s5 = []" using 5 by (cases s4) (auto simp: split_opt_def)
  obtain m1 ms1 where m1: "matches RE_URL_scheme s Map.empty = (m1, s1) # ms1" "m1 2 = sc" "\<forall>k \<ge> 3. m1 k = None"
    using RE_URL_scheme_head [of s Map.empty] unfolding 1 fst_conv snd_conv by (cases sc) auto
  obtain m2 ms2 where m2: "matches RE_URL_auth s1 m1 = (m2, s2) # ms2" "m2 4 = au" "m2 2 = sc"
    "m2 3 = map_option (\<lambda>a. ''//'' @ a) au" "m2 6 = None" "m2 7 = None"
    using RE_URL_auth_head [of s1 m1] m1(2,3) unfolding 2 fst_conv snd_conv by (cases au) auto
  obtain ms3 where m3: "matches RE_URL_path s2 m2 = (m2(5 \<mapsto> takeWhile (none_of ''?#'') s2), s3) # ms3"
    using RE_URL_path_head [of s2 m2] s3_def by blast
  let ?m3 = "m2(5 \<mapsto> takeWhile (none_of ''?#'') s2)"
  obtain m4 ms4 where m4: "matches RE_URL_query s3 ?m3 = (m4, s4) # ms4"
    "m4 = (case qu of None \<Rightarrow> ?m3 | Some a \<Rightarrow> ?m3(6 \<mapsto> a))"
    using split_opt_head [of 6 "CHR ''?''" "none_of ''#''" s3 ?m3]
    unfolding 4 fst_conv snd_conv RE_URL_query_def [symmetric] by blast
  obtain m5 ms5 where m5: "matches RE_URL_fragment s4 m4 = (m5, []) # ms5"
    "m5 = (case fr of None \<Rightarrow> m4 | Some a \<Rightarrow> m4(7 \<mapsto> a))"
    using split_opt_head [of 7 "CHR ''#''" "\<lambda>_. True" s4 m4]
    unfolding 5 fst_conv snd_conv RE_URL_fragment_def [symmetric] \<open>s5 = []\<close> by blast
  have "first_full RE_URL_fragment s4 m4 = Some m5" using m5(1) by (simp add: first_full_def)
  then have "perl_match RE_URL s = Some m5"
    unfolding perl_match_first_full RE_URL_def
    by (intro first_full_Seq [OF m1(1)] first_full_Seq [OF m2(1)] first_full_Seq [OF m3] first_full_Seq [OF m4(1)])
  moreover have "split_url s = \<lparr>p_scheme = sc, p_auth = au, p_path = takeWhile (none_of ''?#'') s2,
      p_query = qu, p_fragment = fr\<rparr>"
    using 1 2 4 5 by (simp add: split_url_def Let_def s3_def)
  moreover have "m5 2 = sc \<and> m5 4 = au \<and> m5 3 = map_option (\<lambda>a. ''//'' @ a) au
      \<and> m5 5 = Some (takeWhile (none_of ''?#'') s2) \<and> m5 6 = qu \<and> m5 7 = fr"
    using m2(2-) unfolding m4(2) m5(2) by (cases qu; cases fr) simp_all
  ultimately show ?thesis by auto
qed

section \<open>Alphabets of the patterns\<close>

text \<open>A bound on the characters of the words of a pattern.\<close>

primrec over :: "(char \<Rightarrow> bool) \<Rightarrow> regex \<Rightarrow> bool" where
  "over Q Eps \<longleftrightarrow> True"
| "over Q (Cls P) \<longleftrightarrow> (\<forall>c. P c \<longrightarrow> Q c)"
| "over Q (Seq r s) \<longleftrightarrow> over Q r \<and> over Q s"
| "over Q (Alt r s) \<longleftrightarrow> over Q r \<and> over Q s"
| "over Q (Star r) \<longleftrightarrow> over Q r"
| "over Q (Grp n r) \<longleftrightarrow> over Q r"

lemma star_over: "w \<in> star A \<Longrightarrow> (\<And>a. a \<in> A \<Longrightarrow> \<forall>c\<in>set a. Q c) \<Longrightarrow> \<forall>c\<in>set w. Q c"
  by (induction rule: star.induct) auto

lemma over_lang: "over Q r \<Longrightarrow> w \<in> lang r \<Longrightarrow> c \<in> set w \<Longrightarrow> Q c"
proof (induction r arbitrary: w c)
  case (Star r)
  then show ?case using star_over [of w "lang r" Q] by auto
qed auto

lemma over_simps [simp]:
  "over Q (Opt r) \<longleftrightarrow> over Q r" "over Q (Plus r) \<longleftrightarrow> over Q r"
  "over Q (Lit s) \<longleftrightarrow> (\<forall>c\<in>set s. Q c)"
  by (simp_all add: Opt_def Plus_def) (induction s, auto)

lemma over_Rep: "over Q r \<Longrightarrow> over Q (Rep r n)"
  by (induction n) auto

lemma over_RepOpt: "over Q r \<Longrightarrow> over Q (RepOpt r n)"
  by (induction n) auto

lemma over_RepRange: "over Q r \<Longrightarrow> over Q (RepRange r m n)"
  by (simp add: RepRange_def over_Rep over_RepOpt)

text \<open>Hosts have none of the delimiters of a URL, and no percent sign.\<close>

definition host_char :: "char \<Rightarrow> bool" where
  "host_char c \<longleftrightarrow> none_of ''%/?#@[]'' c"

lemma isalnum_host_char: "isalnum c \<Longrightarrow> host_char c"
  by (auto simp: host_char_def none_of_def ctype_defs)

lemma over_RE_HOST: "over host_char RE_HOST"
  by (auto simp: RE_HOST_def isalnum_host_char any_of_def) (simp_all add: host_char_def none_of_def)

lemma over_RE_IPVFUT: "over host_char RE_IPVFUT"
  by (auto simp: RE_IPVFUT_def isalnum_host_char isxdigit_isalnum any_of_def)
     (simp_all add: host_char_def none_of_def)

lemma over_RE_IPV4: "over host_char RE_IPV4"
proof -
  have "over host_char RE_decoct"
    by (auto simp: RE_decoct_def char_range_def host_char_def none_of_def)
  then show ?thesis by (simp add: RE_IPV4_def) (simp add: host_char_def none_of_def)
qed

lemma over_RE_IPV6: "over host_char RE_IPV6"
proof -
  have "over host_char RE_h16"
    by (auto simp: RE_h16_def isalnum_host_char isxdigit_isalnum intro: over_RepRange)
  moreover have "host_char CHR '':''" by (simp add: host_char_def none_of_def)
  ultimately show ?thesis
    using over_RE_IPV4 by (simp add: RE_IPV6_def RE_ls32_def Let_def over_Rep over_RepRange)
qed

end
