(* ===== verification/Url.thy ===== *)
theory Url
  imports Url_Chars Path Url_Regex
begin

text \<open>
  The class \<^verbatim>\<open>Url\<close> of \<^verbatim>\<open>src/common/Url.hh\<close> and \<^verbatim>\<open>src/common/Url.cc\<close>: its data members as a record, the
  accessors that check and store a component, parsing, printing, normalisation, comparison and the
  merge with a relative reference. A member function that may throw returns an exception or the
  changed object; the object a failed call leaves behind is not kept. Functions that call Boost take
  the library as their first argument.
\<close>

named_theorems url_defs "definitions of the operations on URLs"

section \<open>Data members\<close>

record url =
  u_path :: path
  m_suspicious :: bool
  m_scheme :: string
  m_has_authority :: bool
  m_host_ip_literal :: bool
  m_userinfo :: string
  m_host :: string
  m_port :: string
  m_query :: string
  m_fragment :: string

definition url_init :: url where
  "url_init = \<lparr>u_path = path_clear, m_suspicious = False, m_scheme = [], m_has_authority = False,
     m_host_ip_literal = False, m_userinfo = [], m_host = [], m_port = [], m_query = [], m_fragment = []\<rparr>"

definition clear_authority :: "url \<Rightarrow> url" where
  [url_defs]: "clear_authority u = u\<lparr>m_host_ip_literal := False, m_has_authority := False,
     m_userinfo := [], m_host := [], m_port := []\<rparr>"

definition clear_query :: "url \<Rightarrow> url" where
  [url_defs]: "clear_query u = u\<lparr>m_query := []\<rparr>"

definition clear_fragment :: "url \<Rightarrow> url" where
  [url_defs]: "clear_fragment u = u\<lparr>m_fragment := []\<rparr>"

definition url_clear :: "url \<Rightarrow> url" where
  [url_defs]: "url_clear u =
     (let u = u\<lparr>m_suspicious := False\<rparr>; u = u\<lparr>m_scheme := []\<rparr>; u = clear_authority u;
          u = u\<lparr>u_path := path_clear\<rparr>; u = clear_query u
      in clear_fragment u)"

definition has_authority :: "url \<Rightarrow> bool" where
  [url_defs]: "has_authority u = m_has_authority u"

definition has_scheme :: "url \<Rightarrow> bool" where
  [url_defs]: "has_scheme u \<longleftrightarrow> m_scheme u \<noteq> []"

definition has_query :: "url \<Rightarrow> bool" where
  [url_defs]: "has_query u \<longleftrightarrow> m_query u \<noteq> []"

definition has_fragment :: "url \<Rightarrow> bool" where
  [url_defs]: "has_fragment u \<longleftrightarrow> m_fragment u \<noteq> []"

definition url_empty :: "url \<Rightarrow> bool" where
  [url_defs]: "url_empty u \<longleftrightarrow> \<not> (m_scheme u \<noteq> [] \<or> m_has_authority u \<or> \<not> path_empty (u_path u)
     \<or> has_query u \<or> has_fragment u)"

definition absolute :: "url \<Rightarrow> bool" where
  [url_defs]: "absolute u \<longleftrightarrow> m_scheme u \<noteq> []"

section \<open>Accessors\<close>

text \<open>
  The handlers \<^verbatim>\<open>catch(UrlParseError) { throw; }\<close> and \<^verbatim>\<open>catch(...) { throw UrlParseError(...); }\<close>: every
  exception leaves as a parse error. A failing assertion is no exception.
\<close>

definition as_parse_error :: "'a res \<Rightarrow> 'a res" where
  "as_parse_error r =
     (case r of Inl e \<Rightarrow> Inl (if e = AssertFailed \<or> e = Undefined then e else UrlParseError) | Inr x \<Rightarrow> Inr x)"

text \<open>\<^verbatim>\<open>valid_host\<close>, both the member and the static one.\<close>

definition valid_host :: "boost \<Rightarrow> string \<Rightarrow> bool res" where
  [url_defs]: "valid_host B h =
     (if h = [] then Inr True
      else bindR (unescape_safe h) (\<lambda>host. Inr (
        regex_match B RE_HOST host \<noteq> None \<or> regex_match B RE_IPVFUT host \<noteq> None
        \<or> regex_match B RE_IPV6 host \<noteq> None \<or> regex_match B RE_IPV4 host \<noteq> None)))"

definition set_scheme :: "boost \<Rightarrow> string \<Rightarrow> url \<Rightarrow> url res" where
  [url_defs]: "set_scheme B s u =
     as_parse_error
       (if regex_match B RE_SCHEME s \<noteq> None
        then Inr (u\<lparr>m_scheme := to_lower B s, m_has_authority := True\<rparr>)
        else Inl UrlParseError)"

definition set_userinfo :: "string \<Rightarrow> url \<Rightarrow> url res" where
  [url_defs]: "set_userinfo s u = bindR (escape s URL_CHAR_AUTH) (\<lambda>e. Inr (u\<lparr>m_userinfo := e\<rparr>))"

definition set_host :: "boost \<Rightarrow> string \<Rightarrow> url \<Rightarrow> url res" where
  [url_defs]: "set_host B s u =
     as_parse_error (bindR (escape s URL_CHAR_AUTH) (\<lambda>norm.
       bindR (valid_host B norm) (\<lambda>ok.
         if ok then Inr (u\<lparr>m_host := norm, m_has_authority := True\<rparr>) else Inl UrlParseError)))"

text \<open>
  \<^verbatim>\<open>istringstream >> int\<close>: white space is skipped, then a sign and decimal digits are read; with no digit, or
  with a value outside of \<^verbatim>\<open>int\<close>, the stream fails.
\<close>

definition decimal :: "string \<Rightarrow> nat" where
  "decimal ds = foldl (\<lambda>n c. 10 * n + (byte c - 48)) 0 ds"

definition stream_int :: "string \<Rightarrow> int option" where
  "stream_int s =
     (let t = dropWhile isspace s;
          neg = (t \<noteq> [] \<and> hd t = CHR ''-'');
          t = (if t \<noteq> [] \<and> (hd t = CHR ''-'' \<or> hd t = CHR ''+'') then tl t else t);
          ds = takeWhile isdigit t;
          v = (if neg then - int (decimal ds) else int (decimal ds))
      in if ds = [] \<or> v < - (2 ^ 31) \<or> 2 ^ 31 \<le> v then None else Some v)"

definition set_port :: "boost \<Rightarrow> string \<Rightarrow> url \<Rightarrow> url res" where
  [url_defs]: "set_port B s u =
     as_parse_error
       (if s = [] then Inr (u\<lparr>m_port := []\<rparr>)
        else if regex_match B RE_PORT s = None then Inl UrlParseError
        else case stream_int s of
          None \<Rightarrow> Inl UrlParseError
        | Some port \<Rightarrow> if \<not> (port < 2 ^ 16 \<and> port > 0) then Inl UrlParseError else Inr (u\<lparr>m_port := s\<rparr>))"

definition port_int :: "url \<Rightarrow> int res" where
  [url_defs]: "port_int u =
     (if m_port u = [] then Inl BadUrl
      else case stream_int (m_port u) of
        None \<Rightarrow> Inl BadUrl
      | Some port \<Rightarrow> if \<not> (port < 2 ^ 16 \<and> port \<ge> 0) then Inl BadUrl else Inr port)"

text \<open>
  \<^verbatim>\<open>authority(s)\<close>, the steps of the source in order: an optional userinfo up to the first \<^verbatim>\<open>@\<close>; then a
  bracketed literal, or a host up to a colon and a port after it. \<^verbatim>\<open>s[host_b]\<close> at the end of the string
  is the NUL character.
\<close>

definition char_at :: "string \<Rightarrow> nat \<Rightarrow> char" where
  "char_at s i = (if i < length s then s ! i else CHR 0x00)"

definition authority_host :: "boost \<Rightarrow> string \<Rightarrow> nat \<Rightarrow> url \<Rightarrow> url res" where
  "authority_host B s host_b u =
     (if char_at s host_b = CHR ''['' then
        let u = u\<lparr>m_host_ip_literal := True\<rparr>; host_b = host_b + 1 in
        if \<not> host_b < length s then Inl UrlParseError
        else case sfind (\<lambda>c. c = CHR '']'') s host_b of
          None \<Rightarrow> Inl UrlParseError
        | Some host_e \<Rightarrow>
            if \<not> host_e - host_b > 0 then Inl AssertFailed
            else set_host B (substr s host_b (host_e - host_b)) u
      else case sfind (\<lambda>c. c = CHR '':'') s host_b of
        None \<Rightarrow> set_host B (drop host_b s) u
      | Some host_e \<Rightarrow>
          if host_e = host_b then Inl UrlParseError
          else bindR (set_host B (substr s host_b (host_e - host_b)) u) (\<lambda>u.
            if host_e + 1 < length s then set_port B (drop (host_e + 1) s) u else Inl UrlParseError))"

definition set_authority :: "boost \<Rightarrow> string \<Rightarrow> url \<Rightarrow> url res" where
  [url_defs]: "set_authority B s u =
     as_parse_error
       (case sfind (\<lambda>c. c = CHR ''@'') s 0 of
          None \<Rightarrow> authority_host B s 0 u
        | Some user_e \<Rightarrow>
            if \<not> user_e > 0 then Inl AssertFailed
            else bindR (set_userinfo (substr s 0 user_e) u) (\<lambda>u.
              if \<not> user_e + 1 < length s then Inl UrlParseError
              else authority_host B s (user_e + 1) u))"

definition get_authority :: "url \<Rightarrow> string" where
  [url_defs]: "get_authority u =
     (if m_host u = [] then []
      else (if m_userinfo u \<noteq> [] then m_userinfo u @ ''@'' else [])
        @ (if m_host_ip_literal u then ''['' @ m_host u @ '']'' else m_host u)
        @ (if m_port u \<noteq> [] then '':'' @ m_port u else []))"

definition set_path :: "string \<Rightarrow> url \<Rightarrow> url res" where
  [url_defs]: "set_path s u = bindR (escape s URL_CHAR_PATH) (\<lambda>e.
     let u = u\<lparr>u_path := path_assign e\<rparr> in
     Inr (if has_authority u then u\<lparr>u_path := set_absolute True (u_path u)\<rparr> else u))"

definition get_path :: "url \<Rightarrow> string" where
  [url_defs]: "get_path u = path_get (u_path u)"

definition set_query :: "string \<Rightarrow> url \<Rightarrow> url res" where
  [url_defs]: "set_query s u = bindR (escape s URL_CHAR_QUERY) (\<lambda>e. Inr (u\<lparr>m_query := e\<rparr>))"

definition set_fragment :: "string \<Rightarrow> url \<Rightarrow> url res" where
  [url_defs]: "set_fragment s u = bindR (escape s URL_CHAR_FRAGMENT) (\<lambda>e. Inr (u\<lparr>m_fragment := e\<rparr>))"

definition set_def_port :: "boost \<Rightarrow> url \<Rightarrow> url res" where
  [url_defs]: "set_def_port B u =
     (if m_scheme u \<noteq> [] then
        if m_scheme u = ''http'' then set_port B ''80'' u
        else if m_scheme u = ''ftp'' then set_port B ''21'' u
        else if m_scheme u = ''file'' then Inr (u\<lparr>m_port := ''0''\<rparr>)
        else Inl UrlParseError
      else Inl UrlParseError)"

section \<open>Parsing and printing\<close>

definition syntax_ok :: "boost \<Rightarrow> url \<Rightarrow> bool res" where
  [url_defs]: "syntax_ok B u =
     (if has_authority u \<and> \<not> (path_empty (u_path u) \<or> path_absolute (u_path u)) then Inr False
      else if sfind (any_of '':/?#'') (m_scheme u) 0 \<noteq> None then Inr False
      else if sfind (any_of ''/?#'') (m_host u) 0 \<noteq> None then Inr False
      else bindR (valid_host B (m_host u)) (\<lambda>ok.
        if \<not> ok then Inr False
        else if sfind (any_of ''?#'') (get_path u) 0 \<noteq> None then Inr False
        else if sfind (any_of ''#'') (m_query u) 0 \<noteq> None then Inr False
        else Inr True))"

text \<open>A step of \<^verbatim>\<open>assign\<close> that is taken when the group has matched.\<close>

definition if_matched :: "string option \<Rightarrow> (string \<Rightarrow> url \<Rightarrow> url res) \<Rightarrow> url \<Rightarrow> url res" where
  "if_matched g f u = (case g of None \<Rightarrow> Inr u | Some s \<Rightarrow> f s u)"

definition url_assign :: "boost \<Rightarrow> string \<Rightarrow> url \<Rightarrow> url res" where
  [url_defs]: "url_assign B s u =
     (let u = url_clear u in
      case regex_match B RE_URL s of
        None \<Rightarrow> Inl UrlParseError
      | Some match \<Rightarrow>
          bindR (if_matched (match 2) (set_scheme B) u) (\<lambda>u.
          bindR (if_matched (match 3) (\<lambda>dslash u.
              if dslash = ''//'' \<and> m_scheme u \<noteq> [] \<and> m_scheme u \<noteq> ''file'' then Inl UrlParseError
              else Inr u) u) (\<lambda>u.
          bindR (if_matched (match 4) (set_authority B) u) (\<lambda>u.
          bindR (if_matched (match 5) set_path u) (\<lambda>u.
          bindR (if_matched (match 6) set_query u) (\<lambda>u.
          bindR (if_matched (match 7) set_fragment u) (\<lambda>u.
          bindR (syntax_ok B u) (\<lambda>ok. if \<not> ok then Inl UrlParseError else
          bindR (valid_host B (m_host u)) (\<lambda>ok. if \<not> ok then Inl UrlParseError else Inr u)))))))))"

text \<open>The constructor \<^verbatim>\<open>Url(s)\<close>.\<close>

definition url_of :: "boost \<Rightarrow> string \<Rightarrow> url res" where
  [url_defs]: "url_of B s = url_assign B s url_init"

definition url_get :: "url \<Rightarrow> string" where
  [url_defs]: "url_get u =
     (if m_scheme u \<noteq> [] then m_scheme u @ '':'' else [])
     @ (if has_authority u then ''//'' @ get_authority u else [])
     @ get_path u @ m_query u @ m_fragment u"

definition url_size :: "url \<Rightarrow> nat" where
  [url_defs]: "url_size u =
     (if m_scheme u \<noteq> [] then length (m_scheme u) + 1 else 0)
     + (if has_authority u then 2 + length (get_authority u) else 0)
     + length (get_path u) + length (m_query u) + length (m_fragment u)"

section \<open>Normalisation and comparison\<close>

definition normalize_scheme :: "boost \<Rightarrow> url \<Rightarrow> url" where
  [url_defs]: "normalize_scheme B u = u\<lparr>m_scheme := to_lower B (m_scheme u)\<rparr>"

text \<open>The range test is on signed \<^verbatim>\<open>char\<close>.\<close>

definition normalize_host :: "url \<Rightarrow> url" where
  [url_defs]: "normalize_host u =
     u\<lparr>m_host := map (\<lambda>c. if schar c \<ge> 0x41 \<and> schar c \<le> 0x5A then char_of (byte c + 0x20) else c) (m_host u)\<rparr>"

text \<open>The handler turns a parse error into a \<^verbatim>\<open>runtime_error\<close>; other exceptions pass.\<close>

definition url_normalize_escapes :: "boost \<Rightarrow> url \<Rightarrow> url res" where
  [url_defs]: "url_normalize_escapes B u =
     bindR (normalize_escapes (url_get u)) (\<lambda>s.
       case url_assign B s u of
         Inl e \<Rightarrow> Inl (if e = UrlParseError then RuntimeError else e)
       | Inr u \<Rightarrow> Inr u)"

definition normalize_path :: "url \<Rightarrow> url" where
  [url_defs]: "normalize_path u = u\<lparr>u_path := path_normalize (u_path u)\<rparr>"

definition url_normalize :: "boost \<Rightarrow> url \<Rightarrow> url res" where
  [url_defs]: "url_normalize B u =
     (let u = normalize_scheme B u; u = normalize_host u in
      bindR (url_normalize_escapes B u) (\<lambda>u. Inr (normalize_path u)))"

definition url_eq :: "boost \<Rightarrow> url \<Rightarrow> url \<Rightarrow> bool res" where
  [url_defs]: "url_eq B lhs rhs =
     bindR (url_normalize B rhs) (\<lambda>rhs. bindR (url_normalize B lhs) (\<lambda>lhs.
       Inr (url_get rhs = url_get lhs)))"

definition url_neq :: "boost \<Rightarrow> url \<Rightarrow> url \<Rightarrow> bool res" where
  [url_defs]: "url_neq B lhs rhs = bindR (url_eq B lhs rhs) (\<lambda>b. Inr (\<not> b))"

section \<open>References\<close>

definition merge_fragment :: "url \<Rightarrow> url \<Rightarrow> url res" where
  "merge_fragment r u = (if has_fragment r then set_fragment (m_fragment r) u else Inr (clear_fragment u))"

definition merge_ref :: "boost \<Rightarrow> url \<Rightarrow> url \<Rightarrow> url res" where
  [url_defs]: "merge_ref B u r =
     bindR (syntax_ok B r) (\<lambda>ok.
     if \<not> ok then Inl BadUrl
     else if absolute u \<and> \<not> absolute r then
       bindR
        (if has_scheme r then
           bindR (set_scheme B (m_scheme r) (url_clear u)) (\<lambda>u.
           bindR (if has_authority r then set_authority B (get_authority r) u else Inr u) (\<lambda>u.
           bindR (set_path (get_path r) u) (\<lambda>u. set_query (m_query r) u)))
         else if has_authority r then
           bindR (set_authority B (get_authority r) u) (\<lambda>u.
           bindR (set_path (get_path r) u) (\<lambda>u.
           if has_query r then set_query (m_query r) u else Inr u))
         else
           bindR
            (if path_empty (u_path r) then
               (if has_query r then set_query (m_query r) u else Inr u)
             else
               let u = u\<lparr>u_path := merge (u_path u) (u_path r)\<rparr> in
               if has_query r then set_query (m_query r) u else Inr (clear_query u))
            (merge_fragment r))
        (merge_fragment r)
     else Inl RuntimeError)"

end
