(* ===== verification/Url_Facts.thy ===== *)
theory Url_Facts
  imports Url
begin

text \<open>
  Facts on the class \<^verbatim>\<open>Url\<close>: the invariant \<open>url_wf\<close> that parsing establishes, printing and parsing again,
  normalisation, and the merge with a reference.
\<close>

section \<open>Escaped components\<close>

text \<open>A component is clean for a mask when no character of the mask stands outside of an escape.\<close>

fun tok_clean :: "8 word \<Rightarrow> tok \<Rightarrow> bool" where
  "tok_clean m (Esc h l) \<longleftrightarrow> True"
| "tok_clean m (Chr c) \<longleftrightarrow> \<not> url_char_test c m"

definition clean :: "8 word \<Rightarrow> string \<Rightarrow> bool" where
  "clean m s \<longleftrightarrow> (\<forall>t\<in>set (toks s). tok_clean m t)"

lemma toks_append_nonhex: "\<not> isxdigit c \<Longrightarrow> toks (a @ c # b) = toks a @ toks (c # b)"
proof (induction a rule: toks_induct)
  case (Chr d a)
  have "xx_follows (a @ c # b) = xx_follows a" if "d = CHR ''%''"
    using Chr.prems by (cases a; cases "tl a") (auto simp: xx_follows_def split: list.splits)
  with Chr show ?case by auto
qed auto

lemma toks_append_well: "well_escaped a \<Longrightarrow> toks (a @ b) = toks a @ toks b"
proof (induction a rule: toks_induct)
  case (Chr d a)
  then have "d \<noteq> CHR ''%''" "well_escaped a" by (auto simp: well_escaped_def)
  with Chr show ?case by simp
next
  case (Esc h l a)
  then have "well_escaped a" by (simp add: well_escaped_def)
  with Esc show ?case by simp
qed simp

lemma toks_single: "c \<noteq> CHR ''%'' \<Longrightarrow> toks (c # b) = Chr c # toks b"
  by simp

lemma clean_Nil [simp]: "clean m []"
  by (simp add: clean_def)

lemma clean_append_nonhex:
  "\<not> isxdigit c \<Longrightarrow> c \<noteq> CHR ''%'' \<Longrightarrow> clean m (a @ c # b) \<longleftrightarrow> clean m a \<and> \<not> url_char_test c m \<and> clean m b"
  by (auto simp: clean_def toks_append_nonhex)

lemma clean_well_escaped: "clean m s \<Longrightarrow> url_char_test CHR ''%'' m \<Longrightarrow> well_escaped s"
  by (auto simp: clean_def well_escaped_def)

lemma set_untoks: "c \<in> set s \<longleftrightarrow> (\<exists>t\<in>set (toks s). c \<in> set (tok_str t))"
proof -
  have "set (untoks ts) = (\<Union>t\<in>set ts. set (tok_str t))" for ts by (simp add: untoks_def)
  from this [of "toks s"] show ?thesis by auto
qed

lemma clean_char:
  assumes "clean m s" "c \<in> set s" "url_char_test c m"
  shows "c = CHR ''%''"
proof -
  from assms(2) obtain t where t: "t \<in> set (toks s)" "c \<in> set (tok_str t)" using set_untoks by blast
  have "tok_clean m t" "tok_ok t" using assms(1) t toks_ok by (auto simp: clean_def)
  with t(2) assms(3) show ?thesis by (cases t) (auto simp: xdigit_not_special)
qed

lemma clean_escape: "escape s m = Inr e \<Longrightarrow> clean m e"
proof -
  assume "escape s m = Inr e"
  then have e: "e = untoks (map (esc_tok m) (toks s))" by (simp add: escape_toks)
  have "tok_clean m (esc_tok m t)" for t by (cases t) auto
  then show ?thesis by (auto simp: clean_def e toks_escape)
qed

lemma escape_clean_id:
  assumes "clean m s"
  shows "escape s m = Inr s"
proof -
  have "esc_tok m t = t" if "tok_clean m t" for t using that by (cases t) auto
  then have "map (esc_tok m) (toks s) = toks s" using assms by (simp add: clean_def map_idI)
  then show ?thesis by (simp add: escape_toks)
qed

lemma escape_total: obtains e where "escape s m = Inr e"
  by (simp add: escape_toks)

lemma escape_set:
  assumes "escape s m = Inr e" "c \<in> set e"
  shows "c \<in> set s \<or> c = CHR ''%'' \<or> isxdigit c"
proof -
  have e: "e = untoks (map (esc_tok m) (toks s))" using assms by (simp add: escape_toks)
  with assms(2) obtain t where t: "t \<in> set (toks s)" "c \<in> set (tok_str (esc_tok m t))"
    by (auto simp: untoks_def)
  have "c \<in> set (tok_str t) \<Longrightarrow> c \<in> set s" using t(1) set_untoks by blast
  then show ?thesis using t(2) by (cases t) (auto split: if_splits)
qed

lemma escape_Nil: "escape s m = Inr e \<Longrightarrow> e = [] \<longleftrightarrow> s = []"
proof -
  assume "escape s m = Inr e"
  then have "e = untoks (map (esc_tok m) (toks s))" by (simp add: escape_toks)
  moreover have "untoks ts = [] \<longleftrightarrow> ts = []" for ts
    by (cases ts; cases "hd ts") (auto simp: untoks_def)
  ultimately show ?thesis by (metis map_is_Nil_conv toks.simps(1) untoks_simps(1) untoks_toks)
qed

lemma escape_Cons:
  assumes "c \<noteq> CHR ''%''" "\<not> url_char_test c m" "escape (c # s) m = Inr e"
  obtains e' where "e = c # e'" "escape s m = Inr e'"
  using assms by (auto simp: escape_toks)

lemma url_char_test_simps [simp]:
  "url_char_test CHR ''%'' URL_CHAR_AUTH" "url_char_test CHR ''/'' URL_CHAR_AUTH"
  "url_char_test CHR ''?'' URL_CHAR_AUTH" "url_char_test CHR ''#'' URL_CHAR_AUTH"
  "\<not> url_char_test CHR ''@'' URL_CHAR_AUTH" "\<not> url_char_test CHR '':'' URL_CHAR_AUTH"
  "url_char_test CHR ''%'' URL_CHAR_PATH" "url_char_test CHR ''?'' URL_CHAR_PATH"
  "url_char_test CHR ''#'' URL_CHAR_PATH" "\<not> url_char_test CHR ''/'' URL_CHAR_PATH"
  "url_char_test CHR ''%'' URL_CHAR_QUERY" "url_char_test CHR ''#'' URL_CHAR_QUERY"
  "\<not> url_char_test CHR ''?'' URL_CHAR_QUERY"
  "url_char_test CHR ''%'' URL_CHAR_FRAGMENT" "\<not> url_char_test CHR ''#'' URL_CHAR_FRAGMENT"
  by code_simp+

section \<open>Clean paths\<close>

lemma slash_not_xdigit: "\<not> isxdigit CHR ''/''"
  by (simp add: ctype_defs)

lemma clean_slash: "clean m (a @ CHR ''/'' # b) \<longleftrightarrow> clean m a \<and> \<not> url_char_test CHR ''/'' m \<and> clean m b"
  by (rule clean_append_nonhex [OF slash_not_xdigit]) simp

lemma assign_loop_slash:
  "assign_loop cur (CHR ''/'' # s) = (if cur = [] then [] else [cur]) @ assign_loop [] s"
  by simp

lemma assign_loop_clean: "clean m (cur @ s) \<Longrightarrow> x \<in> set (assign_loop cur s) \<Longrightarrow> clean m x"
proof (induction s arbitrary: cur)
  case (Cons c s)
  show ?case
  proof (cases "c = CHR ''/''")
    case True
    with Cons.prems(1) have cl: "clean m cur" "clean m ([] @ s)" by (simp_all only: clean_slash append.simps)
    have "x = cur \<or> x \<in> set (assign_loop [] s)"
      using Cons.prems(2) unfolding True assign_loop_slash by (auto split: if_splits)
    with cl Cons.IH [of "[]"] show ?thesis by blast
  next
    case False
    then have "x \<in> set (assign_loop (cur @ [c]) s)" using Cons.prems(2) by simp
    with Cons.prems(1) Cons.IH [of "cur @ [c]"] show ?thesis by simp
  qed
qed (auto split: if_splits)

lemma clean_join:
  assumes "\<forall>x\<in>set ss. clean m x" "\<not> url_char_test CHR ''/'' m"
  shows "clean m (join ss)"
proof -
  show ?thesis using assms
    by (induction ss rule: join.induct) (auto simp: clean_slash)
qed

lemma clean_path_get:
  assumes "segs_ok (segmt p)" "\<forall>x\<in>set (segmt p). clean m x" "\<not> url_char_test CHR ''/'' m"
  shows "clean m (path_get p)"
proof -
  have sl: "clean m (CHR ''/'' # b) \<longleftrightarrow> clean m b" for b
    using clean_slash [of m "[]" b] assms(3) by simp
  show ?thesis
  proof (cases "segmt p = []")
    case True
    then show ?thesis using sl [of "[]"] by (simp add: path_get_no_segs)
  next
    case False
    have "clean m (join (segmt p) @ ''/'')"
      using clean_join [OF assms(2,3)] clean_slash [of m "join (segmt p)" "[]"] assms(3) by simp
    with False show ?thesis
      using clean_join [OF assms(2,3)] sl by (simp add: path_get_join assms(1))
  qed
qed

section \<open>Hosts and ports\<close>

definition host_words :: "string set" where
  "host_words = lang RE_HOST \<union> lang RE_IPVFUT \<union> lang RE_IPV6 \<union> lang RE_IPV4"

definition safe_decode :: "string \<Rightarrow> string" where
  "safe_decode s = untoks (map (unesc_tok safe_char) (toks s))"

definition host_ok :: "string \<Rightarrow> bool" where
  "host_ok h \<longleftrightarrow> h = [] \<or> safe_decode h \<in> host_words"

definition port_ok :: "string \<Rightarrow> bool" where
  "port_ok p \<longleftrightarrow> p = [] \<or> (\<forall>c\<in>set p. isdigit c) \<and> length p \<le> 5 \<and> 0 < decimal p \<and> decimal p < 2 ^ 16"

lemma host_words_char: "w \<in> host_words \<Longrightarrow> c \<in> set w \<Longrightarrow> host_char c"
  using over_lang [OF over_RE_HOST] over_lang [OF over_RE_IPVFUT] over_lang [OF over_RE_IPV6]
    over_lang [OF over_RE_IPV4] unfolding host_words_def by blast

lemma host_ok_char:
  assumes "host_ok h" "c \<in> set h"
  shows "host_char c \<or> c = CHR ''%''"
proof -
  obtain t where t: "t \<in> set (toks h)" "c \<in> set (tok_str t)" using assms(2) set_untoks by blast
  show ?thesis
  proof (cases t)
    case (Esc a b)
    with t toks_ok [OF t(1)] show ?thesis by (auto simp: isxdigit_isalnum isalnum_host_char)
  next
    case (Chr d)
    with t have "c \<in> set (safe_decode h)" by (force simp: safe_decode_def untoks_def)
    with assms host_words_char show ?thesis by (auto simp: host_ok_def)
  qed
qed

lemma lang_Rep_Cls: "s \<in> lang (Rep (Cls P) n) \<longleftrightarrow> length s = n \<and> (\<forall>c\<in>set s. P c)"
  by (induction n arbitrary: s) (auto simp: lang_Seq_Cls length_Suc_conv simp del: lang.simps(3))

lemma lang_RepOpt_Cls: "s \<in> lang (RepOpt (Cls P) n) \<longleftrightarrow> length s \<le> n \<and> (\<forall>c\<in>set s. P c)"
proof (induction n arbitrary: s)
  case (Suc n)
  then show ?case by (cases s) (auto simp: Opt_def lang_Seq_Cls simp del: lang.simps(3))
qed auto

lemma lang_RepRange_Cls:
  assumes "m \<le> n"
  shows "s \<in> lang (RepRange (Cls P) m n) \<longleftrightarrow> m \<le> length s \<and> length s \<le> n \<and> (\<forall>c\<in>set s. P c)"
proof
  assume r: "m \<le> length s \<and> length s \<le> n \<and> (\<forall>c\<in>set s. P c)"
  have "s = take m s @ drop m s" by simp
  moreover have "take m s \<in> lang (Rep (Cls P) m)" "drop m s \<in> lang (RepOpt (Cls P) (n - m))"
    using r by (auto simp: lang_Rep_Cls lang_RepOpt_Cls dest: in_set_takeD in_set_dropD)
  ultimately show "s \<in> lang (RepRange (Cls P) m n)" unfolding RepRange_def lang.simps by blast
qed (use assms in \<open>auto simp: RepRange_def lang_Rep_Cls lang_RepOpt_Cls\<close>)

lemma decimal_bound: "\<forall>c\<in>set ds. isdigit c \<Longrightarrow> decimal ds < 10 ^ length ds"
proof (induction ds rule: rev_induct)
  case (snoc d ds)
  then have "decimal ds < 10 ^ length ds" "byte d - 48 \<le> 9" by (auto simp: isdigit_def)
  then have "10 * decimal ds + (byte d - 48) < 10 * 10 ^ length ds" by linarith
  then show ?case by (simp add: decimal_def)
qed (simp add: decimal_def)

lemma stream_int_digits:
  assumes "\<forall>c\<in>set ds. isdigit c" "ds \<noteq> []" "length ds \<le> 5"
  shows "stream_int ds = Some (int (decimal ds))"
proof -
  obtain d r where ds: "ds = d # r" "isdigit d" using assms by (cases ds) auto
  then have "\<not> isspace d" "d \<noteq> CHR ''-''" "d \<noteq> CHR ''+''" by (auto simp: ctype_defs)
  moreover have tw: "takeWhile isdigit r = r" using assms(1) ds by (simp add: takeWhile_eq_all_conv)
  moreover have "decimal ds < 10 ^ 5"
    using decimal_bound [OF assms(1)] power_increasing [OF assms(3), of "10::nat"] by linarith
  then have "int (decimal ds) < 2 ^ 31" by simp
  ultimately show ?thesis using ds by (simp add: stream_int_def Let_def tw)
qed

context boost_lib
begin

lemma valid_host_iff: "valid_host B h = Inr (host_ok h)"
  by (simp add: valid_host_def host_ok_def unescape_safe_toks safe_decode_def host_words_def
      regex_match_None disj_assoc)

lemma regex_match_not_None: "regex_match B r s \<noteq> None \<longleftrightarrow> s \<in> lang r"
  by (simp add: regex_match_None)

lemma set_host_ok:
  "set_host B s u = Inr u' \<longleftrightarrow>
     (\<exists>e. escape s URL_CHAR_AUTH = Inr e \<and> host_ok e \<and> u' = u\<lparr>m_host := e, m_has_authority := True\<rparr>)"
  by (auto simp: set_host_def as_parse_error_def valid_host_iff escape_toks)

lemma set_port_ok: "set_port B p u = Inr u' \<longleftrightarrow> port_ok p \<and> u' = u\<lparr>m_port := p\<rparr>"
proof (cases "p = [] \<or> p \<notin> lang RE_PORT")
  case True
  then show ?thesis
    by (auto simp: set_port_def as_parse_error_def port_ok_def regex_match_None RE_PORT_def lang_RepRange_Cls
        Suc_le_eq)
next
  case False
  then have p: "p \<noteq> []" "\<forall>c\<in>set p. isdigit c" "length p \<le> 5" "regex_match B RE_PORT p \<noteq> None"
    by (auto simp: regex_match_None RE_PORT_def lang_RepRange_Cls)
  then show ?thesis
    by (auto simp: set_port_def as_parse_error_def port_ok_def stream_int_digits)
qed

text \<open>The host part is parsed as if it stood alone.\<close>

lemma sfind_append_shift:
  "sfind P (a @ r) (length a + n) = map_option (\<lambda>i. length a + i) (sfind P r n)"
  by (simp add: sfind_def Let_def add.assoc)

lemma authority_host_append: "authority_host B (a @ r) (length a) u = authority_host B r 0 u"
proof -
  let ?k = "length a"
  have c: "char_at (a @ r) ?k = char_at r 0" by (simp add: char_at_def nth_append)
  have f: "sfind P (a @ r) ?k = map_option (\<lambda>i. ?k + i) (sfind P r 0)"
    "sfind P (a @ r) (?k + 1) = map_option (\<lambda>i. ?k + i) (sfind P r 1)" for P
    using sfind_append_shift [of P a r 0] sfind_append_shift [of P a r 1] by simp_all
  have sub: "substr (a @ r) (?k + i) n = substr r i n" "substr (a @ r) ?k n = substr r 0 n" for i n
    by (simp_all add: substr_def)
  have l: "?k + i < length (a @ r) \<longleftrightarrow> i < length r" "?k + i + 1 < length (a @ r) \<longleftrightarrow> i + 1 < length r"
    "drop (?k + i + 1) (a @ r) = drop (i + 1) r" "drop ?k (a @ r) = r" for i
    by auto
  show ?thesis
    unfolding authority_host_def c f Let_def l sub
    by (cases "sfind (\<lambda>c. c = CHR '']'') r 1"; cases "sfind (\<lambda>c. c = CHR '':'') r 0") (simp_all add: l sub cong: if_cong)
qed

text \<open>What \<^verbatim>\<open>authority(s)\<close> stores.\<close>

lemma escape_no_colon: "escape s m = Inr e \<Longrightarrow> CHR '':'' \<notin> set s \<Longrightarrow> CHR '':'' \<notin> set e"
  using escape_set [of s m e "CHR '':''"] by (auto simp: ctype_defs)

lemma authority_host_sound:
  assumes "authority_host B r 0 u = Inr u'" "m_port u = []" "\<not> m_host_ip_literal u"
  obtains h p l where "u' = u\<lparr>m_host := h, m_port := p, m_host_ip_literal := l, m_has_authority := True\<rparr>"
    "clean URL_CHAR_AUTH h" "host_ok h" "l \<or> CHR '':'' \<notin> set h" "\<not> l \<or> p = []" "port_ok p"
    "h = [] \<Longrightarrow> r = [] \<and> p = [] \<and> \<not> l"
proof (cases "char_at r 0 = CHR ''[''")
  case True
  with assms(1) obtain i where i: "sfind (\<lambda>c. c = CHR '']'') r 1 = Some i" "1 < i"
    "set_host B (substr r 1 (i - 1)) (u\<lparr>m_host_ip_literal := True\<rparr>) = Inr u'"
    by (auto simp: authority_host_def Let_def split: if_splits option.splits)
  then obtain e where e: "escape (substr r 1 (i - 1)) URL_CHAR_AUTH = Inr e" "host_ok e"
    "u' = u\<lparr>m_host_ip_literal := True, m_host := e, m_has_authority := True\<rparr>"
    by (auto simp: set_host_ok)
  have "i < length r" using sfind_Some(2) [OF i(1)] .
  then have "substr r 1 (i - 1) \<noteq> []" using i(2) by (auto simp: substr_def)
  then have "e \<noteq> []" using escape_Nil [OF e(1)] by simp
  show thesis
    by (rule that [where h = e and p = "[]" and l = True])
       (use e clean_escape [OF e(1)] assms(2) \<open>e \<noteq> []\<close> in \<open>auto simp: port_ok_def\<close>)
next
  case False
  show thesis
  proof (cases "sfind (\<lambda>c. c = CHR '':'') r 0")
    case None
    with False assms(1) obtain e where e: "escape r URL_CHAR_AUTH = Inr e" "host_ok e"
      "u' = u\<lparr>m_host := e, m_has_authority := True\<rparr>"
      by (auto simp: authority_host_def set_host_ok)
    moreover have "CHR '':'' \<notin> set e" using None escape_no_colon [OF e(1)] by (auto simp: sfind_None)
    ultimately show thesis
      using that [where h = e and p = "[]" and l = False] clean_escape [OF e(1)] escape_Nil [OF e(1)] assms by (auto simp: port_ok_def)
  next
    case (Some i)
    with False assms(1) obtain u1 where i: "i \<noteq> 0" "set_host B (take i r) u = Inr u1"
      "set_port B (drop (i + 1) r) u1 = Inr u'"
      by (auto simp: authority_host_def substr_def bindR_eq_Inr split: if_splits)
    then obtain e where e: "escape (take i r) URL_CHAR_AUTH = Inr e" "host_ok e"
      "u1 = u\<lparr>m_host := e, m_has_authority := True\<rparr>"
      by (auto simp: set_host_ok)
    have p: "port_ok (drop (i + 1) r)" "u' = u1\<lparr>m_port := drop (i + 1) r\<rparr>"
      using i(3) by (simp_all add: set_port_ok)
    have "CHR '':'' \<notin> set (take i r)"
      using sfind_Some(4) [OF Some] by (auto simp: in_set_conv_nth)
    then have "CHR '':'' \<notin> set e" using escape_no_colon [OF e(1)] by simp
    moreover have "take i r \<noteq> []" using i(1) sfind_Some(2) [OF Some] by auto
    then have "e \<noteq> []" using escape_Nil [OF e(1)] by simp
    ultimately show thesis
      using that [where h = e and p = "drop (i + 1) r" and l = False] clean_escape [OF e(1)] e p assms(3) by auto
  qed
qed

end

text \<open>The authority of a parsed URL.\<close>

definition auth_wf :: "url \<Rightarrow> bool" where
  "auth_wf u \<longleftrightarrow> clean URL_CHAR_AUTH (m_userinfo u) \<and> CHR ''@'' \<notin> set (m_userinfo u)
     \<and> clean URL_CHAR_AUTH (m_host u) \<and> host_ok (m_host u)
     \<and> (m_host_ip_literal u \<or> CHR '':'' \<notin> set (m_host u))
     \<and> (m_host_ip_literal u \<longrightarrow> m_port u = []) \<and> port_ok (m_port u)
     \<and> (m_host u = [] \<longrightarrow> m_userinfo u = [] \<and> m_port u = [] \<and> \<not> m_host_ip_literal u)"

context boost_lib
begin

lemma as_parse_error_Inr [simp]: "as_parse_error r = Inr x \<longleftrightarrow> r = Inr x"
  by (cases r) (auto simp: as_parse_error_def)

lemma set_authority_sound:
  assumes "set_authority B s u = Inr u'" "m_userinfo u = []" "m_port u = []" "\<not> m_host_ip_literal u"
  obtains ui h p l where
    "u' = u\<lparr>m_userinfo := ui, m_host := h, m_port := p, m_host_ip_literal := l, m_has_authority := True\<rparr>"
    "auth_wf u'" "s = [] \<or> h \<noteq> []"
proof (cases "sfind (\<lambda>c. c = CHR ''@'') s 0")
  case None
  then have "authority_host B s 0 u = Inr u'" using assms(1) by (simp add: set_authority_def)
  from authority_host_sound [OF this assms(3,4)] obtain h p l where
    h: "u' = u\<lparr>m_host := h, m_port := p, m_host_ip_literal := l, m_has_authority := True\<rparr>"
    "clean URL_CHAR_AUTH h" "host_ok h" "l \<or> CHR '':'' \<notin> set h" "\<not> l \<or> p = []" "port_ok p"
    "h = [] \<Longrightarrow> s = [] \<and> p = [] \<and> \<not> l" by metis
  show thesis by (rule that [where ui = "[]" and h = h and p = p and l = l]) (use h assms(2) in \<open>auto simp: auth_wf_def\<close>)
next
  case (Some e)
  let ?ui = "take e s" and ?r = "drop (e + 1) s"
  from Some assms(1) obtain u1 where u1: "set_userinfo ?ui u = Inr u1" "e + 1 < length s"
    "authority_host B s (e + 1) u1 = Inr u'"
    by (auto simp: set_authority_def substr_def bindR_eq_Inr split: if_splits)
  obtain ui where ui: "escape ?ui URL_CHAR_AUTH = Inr ui" "u1 = u\<lparr>m_userinfo := ui\<rparr>"
    using u1(1) by (auto simp: set_userinfo_def bindR_eq_Inr)
  have "authority_host B (take (e + 1) s @ ?r) (length (take (e + 1) s)) u1 = Inr u'" using u1(2,3) by simp
  then have ah: "authority_host B ?r 0 u1 = Inr u'" unfolding authority_host_append .
  have "m_port u1 = []" "\<not> m_host_ip_literal u1" using ui(2) assms(3,4) by simp_all
  from authority_host_sound [OF ah this] obtain h p l where
    h: "u' = u1\<lparr>m_host := h, m_port := p, m_host_ip_literal := l, m_has_authority := True\<rparr>"
    "clean URL_CHAR_AUTH h" "host_ok h" "l \<or> CHR '':'' \<notin> set h" "\<not> l \<or> p = []" "port_ok p"
    "h = [] \<Longrightarrow> ?r = [] \<and> p = [] \<and> \<not> l" by metis
  have "CHR ''@'' \<notin> set ?ui" using sfind_Some(4) [OF Some] by (auto simp: in_set_conv_nth)
  then have "CHR ''@'' \<notin> set ui" using escape_set [OF ui(1), of "CHR ''@''"] by (auto simp: ctype_defs)
  moreover have "h \<noteq> []" using h(7) u1(2) by auto
  ultimately show thesis
    by (intro that [where ui = ui and h = h and p = p and l = l]) (use h ui clean_escape [OF ui(1)] in \<open>auto simp: auth_wf_def\<close>)
qed

text \<open>What \<open>get_authority\<close> prints is read back.\<close>

lemma auth_wf_chars:
  assumes "auth_wf u" "m_host u \<noteq> []"
  shows "c \<in> set (m_host u) \<Longrightarrow> c \<notin> {CHR ''/'', CHR ''?'', CHR ''#'', CHR ''@'', CHR ''['', CHR '']''}"
    and "c \<in> set (m_port u) \<Longrightarrow> isdigit c"
  using assms host_ok_char [of "m_host u" c]
  by (auto simp: auth_wf_def port_ok_def host_char_def none_of_def)

lemma set_host_id: "clean URL_CHAR_AUTH h \<Longrightarrow> host_ok h \<Longrightarrow> set_host B h u = Inr (u\<lparr>m_host := h, m_has_authority := True\<rparr>)"
  by (simp add: set_host_ok escape_clean_id)

lemma authority_host_print:
  assumes "auth_wf v" "m_host v \<noteq> []" "m_port u = []" "\<not> m_host_ip_literal u"
  shows "authority_host B ((if m_host_ip_literal v then ''['' @ m_host v @ '']'' else m_host v)
        @ (if m_port v \<noteq> [] then '':'' @ m_port v else [])) 0 u
    = Inr (u\<lparr>m_host := m_host v, m_port := m_port v, m_host_ip_literal := m_host_ip_literal v, m_has_authority := True\<rparr>)"
proof (cases "m_host_ip_literal v")
  case True
  let ?h = "m_host v"
  have p: "m_port v = []" using assms(1) True by (simp add: auth_wf_def)
  have "\<forall>c\<in>set ?h. c \<noteq> CHR '']''" using auth_wf_chars(1) [OF assms(1,2)] by auto
  then have "sfind (\<lambda>c. c = CHR '']'') (CHR ''['' # ?h @ '']'') 1 = Some (length ?h + 1)"
    by (simp add: sfind_def takeWhile_append2)
  moreover have "substr (CHR ''['' # ?h @ '']'') 1 (length ?h) = ?h" by (simp add: substr_def)
  ultimately show ?thesis
    using True p assms by (simp add: authority_host_def char_at_def Let_def set_host_id auth_wf_def)
next
  case False
  let ?h = "m_host v"
  have col: "\<forall>c\<in>set ?h. c \<noteq> CHR '':''" using assms(1) False by (auto simp: auth_wf_def)
  have hd: "char_at (?h @ x) 0 \<noteq> CHR ''[''" for x
    using auth_wf_chars(1) [OF assms(1,2), of "hd ?h"] assms(2) by (cases ?h) (auto simp: char_at_def)
  have sh: "set_host B ?h w = Inr (w\<lparr>m_host := ?h, m_has_authority := True\<rparr>)" for w
    using assms(1) by (simp add: auth_wf_def set_host_id)
  show ?thesis
  proof (cases "m_port v = []")
    case True
    have "sfind (\<lambda>c. c = CHR '':'') ?h 0 = None" using col by (simp add: sfind_None)
    with True False hd [of "[]"] sh assms show ?thesis by (simp add: authority_host_def)
  next
    case port: False
    have "sfind (\<lambda>c. c = CHR '':'') (?h @ CHR '':'' # m_port v) 0 = Some (length ?h)"
      using col by (intro sfind_append) auto
    moreover have "set_port B (m_port v) w = Inr (w\<lparr>m_port := m_port v\<rparr>)" for w
      using assms(1) by (simp add: set_port_ok auth_wf_def)
    ultimately show ?thesis
      using port False hd [of "CHR '':'' # m_port v"] sh assms(2-4)
      by (simp add: authority_host_def substr_def)
  qed
qed

lemma set_authority_print:
  assumes "auth_wf v" "m_userinfo u = []" "m_host u = []" "m_port u = []" "\<not> m_host_ip_literal u"
  shows "set_authority B (get_authority v) u = Inr (u\<lparr>m_userinfo := m_userinfo v, m_host := m_host v,
    m_port := m_port v, m_host_ip_literal := m_host_ip_literal v, m_has_authority := True\<rparr>)"
proof (cases "m_host v = []")
  case True
  then have "get_authority v = []" "m_userinfo v = []" "m_port v = []" "\<not> m_host_ip_literal v"
    using assms(1) by (simp_all add: get_authority_def auth_wf_def)
  then show ?thesis
    using assms(2-5) True set_host_id [of "[]" u]
    by (simp add: set_authority_def as_parse_error_def sfind_def authority_host_def char_at_def host_ok_def)
next
  case False
  let ?r = "(if m_host_ip_literal v then ''['' @ m_host v @ '']'' else m_host v)
        @ (if m_port v \<noteq> [] then '':'' @ m_port v else [])"
  have at: "CHR ''@'' \<notin> set ?r"
    using auth_wf_chars [OF assms(1) False, of "CHR ''@''"] by (auto simp: ctype_defs)
  show ?thesis
  proof (cases "m_userinfo v = []")
    case True
    then have "get_authority v = ?r" using False by (simp add: get_authority_def)
    moreover have "sfind (\<lambda>c. c = CHR ''@'') ?r 0 = None" using at by (simp only: sfind_None drop0) blast
    ultimately show ?thesis
      using authority_host_print [OF assms(1) False assms(4,5)] True assms(2)
      by (simp add: set_authority_def as_parse_error_def)
  next
    case ui: False
    let ?a = "m_userinfo v @ ''@''"
    have g: "get_authority v = ?a @ ?r" using False ui by (simp add: get_authority_def)
    have ui_ok: "escape (m_userinfo v) URL_CHAR_AUTH = Inr (m_userinfo v)" "\<forall>c\<in>set (m_userinfo v). c \<noteq> CHR ''@''"
      using assms(1) by (auto simp: auth_wf_def escape_clean_id)
    have f: "sfind (\<lambda>c. c = CHR ''@'') (?a @ ?r) 0 = Some (length (m_userinfo v))"
      using sfind_append [of "m_userinfo v" "\<lambda>c. c = CHR ''@''" "CHR ''@''" ?r] ui_ok(2) by simp
    have ne: "?r \<noteq> []" using False by auto
    have ah: "authority_host B (?a @ ?r) (length (m_userinfo v) + 1) w = authority_host B ?r 0 w" for w
      using authority_host_append [of ?a ?r w] by simp
    have "set_userinfo (m_userinfo v) u = Inr (u\<lparr>m_userinfo := m_userinfo v\<rparr>)"
      using ui_ok by (simp add: set_userinfo_def)
    moreover have "substr (?a @ ?r) 0 (length (m_userinfo v)) = m_userinfo v" by (simp add: substr_def)
    moreover have "length (m_userinfo v) + 1 < length (?a @ ?r)" using ne by (cases ?r) auto
    ultimately show ?thesis
      unfolding set_authority_def g f
      using ui ah authority_host_print [OF assms(1) False, of "u\<lparr>m_userinfo := m_userinfo v\<rparr>"] assms(4,5)
      by (simp add: as_parse_error_def)
  qed
qed

end

section \<open>Parsed URLs\<close>

definition url_wf :: "url \<Rightarrow> bool" where
  "url_wf u \<longleftrightarrow> auth_wf u \<and> \<not> m_suspicious u
     \<and> (m_scheme u \<noteq> [] \<longrightarrow> m_scheme u \<in> lang RE_SCHEME \<and> map tolower (m_scheme u) = m_scheme u \<and> m_has_authority u)
     \<and> (\<not> m_has_authority u \<longrightarrow> m_host u = [])
     \<and> (m_has_authority u \<longrightarrow> slash_begin (u_path u))
     \<and> segs_ok (segmt (u_path u)) \<and> (\<forall>x\<in>set (segmt (u_path u)). clean URL_CHAR_PATH x)
     \<and> (m_query u \<noteq> [] \<longrightarrow> hd (m_query u) = CHR ''?'' \<and> clean URL_CHAR_QUERY (m_query u))
     \<and> (m_fragment u \<noteq> [] \<longrightarrow> hd (m_fragment u) = CHR ''#'' \<and> clean URL_CHAR_FRAGMENT (m_fragment u))"

lemma url_clear_init [simp]: "url_clear u = url_init"
  by (cases u) (simp add: url_clear_def url_init_def clear_authority_def clear_query_def clear_fragment_def)

lemma lang_RE_SCHEME:
  "s \<in> lang RE_SCHEME \<longleftrightarrow> s \<noteq> [] \<and> isalpha (hd s) \<and> (\<forall>c\<in>set (tl s). isalnum c \<or> any_of ''+.-'' c)"
  unfolding RE_SCHEME_def lang_Seq_Cls lang_Star_Cls by (cases s) auto

lemma ctype_tolower [simp]: "isalpha (tolower c) = isalpha c" "isalnum (tolower c) = isalnum c"
  by (auto simp: ctype_defs byte_tolower)

lemma any_of_tolower: "any_of ''+.-'' c \<Longrightarrow> any_of ''+.-'' (tolower c)"
  by (auto simp: any_of_def tolower_def isupper_def)

lemma lang_RE_SCHEME_lower: "s \<in> lang RE_SCHEME \<Longrightarrow> map tolower s \<in> lang RE_SCHEME"
  using any_of_tolower by (cases s) (auto simp: lang_RE_SCHEME)

lemma scheme_char: "s \<in> lang RE_SCHEME \<Longrightarrow> c \<in> set s \<Longrightarrow> none_of '':/?#'' c"
  by (cases s) (auto simp: lang_RE_SCHEME none_of_def any_of_def ctype_defs)

lemma split_opt_Some: "fst (split_opt c P s) = Some q \<Longrightarrow> q \<noteq> [] \<and> hd q = c"
  by (cases s) (auto simp: split_opt_def split: if_splits)

lemma split_url_heads:
  "p_query (split_url s) = Some q \<Longrightarrow> q \<noteq> [] \<and> hd q = CHR ''?''"
  "p_fragment (split_url s) = Some q \<Longrightarrow> q \<noteq> [] \<and> hd q = CHR ''#''"
proof -
  have "\<exists>r. p_query (split_url s) = fst (split_opt CHR ''?'' (none_of ''#'') r)"
    "\<exists>r. p_fragment (split_url s) = fst (split_opt CHR ''#'' (\<lambda>_. True) r)"
    unfolding split_url_def Let_def split_def url_parts.simps by blast+
  then show "p_query (split_url s) = Some q \<Longrightarrow> q \<noteq> [] \<and> hd q = CHR ''?''"
    "p_fragment (split_url s) = Some q \<Longrightarrow> q \<noteq> [] \<and> hd q = CHR ''#''"
    using split_opt_Some by metis+
qed

end
