(* ===== verification/Url_Parse.thy ===== *)
theory Url_Parse
  imports Url_Facts
begin

text \<open>
  Parsing and printing of URLs. \<open>fill\<close> is \<^verbatim>\<open>assign\<close> as a function of the parts of the string; what it
  stores satisfies \<open>url_wf\<close>, and the printed form of such a URL is cut into the same parts again.
\<close>


lemma span_append:
  assumes "\<forall>c\<in>set a. P c" "b = [] \<or> \<not> P (hd b)"
  shows "takeWhile P (a @ b) = a" "dropWhile P (a @ b) = b"
  using assms by (cases b; simp add: takeWhile_eq_all_conv)+

lemma clean_no: "clean m s \<Longrightarrow> url_char_test c m \<Longrightarrow> c \<noteq> CHR ''%'' \<Longrightarrow> c \<notin> set s"
  using clean_char by blast

lemma host_ok_no: "host_ok h \<Longrightarrow> \<not> host_char c \<Longrightarrow> c \<noteq> CHR ''%'' \<Longrightarrow> c \<notin> set h"
  using host_ok_char by blast

lemma delims_not_host_char [simp]:
  "\<not> host_char CHR ''/''" "\<not> host_char CHR ''?''" "\<not> host_char CHR ''#''" "\<not> host_char CHR ''@''"
  "\<not> host_char CHR ''[''" "\<not> host_char CHR '']''"
  by (simp_all add: host_char_def none_of_def)

lemma path_get_reassign:
  assumes "segs_ok (segmt p)" "slash_begin p"
  shows "path_get (set_absolute True (path_assign (path_get p))) = path_get p"
proof (cases "segmt p = []")
  case True
  then have "path_get p = ''/''" using assms(2) by (simp add: path_get_no_segs)
  moreover have "path_get (set_absolute True (path_assign ''/'')) = ''/''" by (simp add: path_assign_def set_absolute_def path_get_no_segs)
  ultimately show ?thesis by simp
next
  case False
  then have "path_wf p" using assms by (simp add: path_wf_def)
  moreover have "set_absolute True p = p" using assms(2) by (cases p) (simp add: set_absolute_def)
  ultimately show ?thesis by (simp add: path_assign_get)
qed

context boost_lib
begin

lemma set_path_total:
  "\<exists>e. escape s URL_CHAR_PATH = Inr e \<and> clean URL_CHAR_PATH e
     \<and> set_path s u = Inr (u\<lparr>u_path := (if m_has_authority u then set_absolute True (path_assign e) else path_assign e)\<rparr>)"
proof -
  obtain e where e: "escape s URL_CHAR_PATH = Inr e" by (rule escape_total)
  then show ?thesis using clean_escape [OF e] by (auto simp: set_path_def has_authority_def Let_def)
qed

lemma segmt_set_absolute [simp]: "segmt (set_absolute a p) = segmt p" "slash_begin (set_absolute a p) = a"
  "slash_end (set_absolute a p) = slash_end p"
  by (simp_all add: set_absolute_def)

lemma path_assign_clean: "clean m e \<Longrightarrow> x \<in> set (segmt (path_assign e)) \<Longrightarrow> clean m x"
proof (cases e)
  case (Cons c cs)
  assume a: "clean m e" "x \<in> set (segmt (path_assign e))"
  show ?thesis
  proof (cases "c = CHR ''/''")
    case True
    then have "clean m ([] @ cs)" using a(1) Cons clean_slash [of m "[]" cs] by simp
    moreover have "x \<in> set (assign_loop [] cs)" using a(2) True Cons by (simp add: path_assign_def Let_def)
    ultimately show ?thesis by (rule assign_loop_clean)
  next
    case False
    then have "x \<in> set (assign_loop [] (c # cs))" using a(2) Cons
      by (simp add: path_assign_def Let_def del: assign_loop.simps)
    with a(1) Cons assign_loop_clean [of m "[]" "c # cs" x] show ?thesis by simp
  qed
qed (simp add: path_assign_def path_clear_def)

lemma set_query_ok:
  "\<exists>e. escape s URL_CHAR_QUERY = Inr e \<and> set_query s u = Inr (u\<lparr>m_query := e\<rparr>)"
  by (simp add: set_query_def escape_toks)

lemma set_fragment_ok:
  "\<exists>e. escape s URL_CHAR_FRAGMENT = Inr e \<and> set_fragment s u = Inr (u\<lparr>m_fragment := e\<rparr>)"
  by (simp add: set_fragment_def escape_toks)

lemma set_scheme_ok:
  "set_scheme B s u = Inr u' \<longleftrightarrow> s \<in> lang RE_SCHEME \<and> u' = u\<lparr>m_scheme := map tolower s, m_has_authority := True\<rparr>"
  by (auto simp: set_scheme_def regex_match_None to_lower_map)

lemma syntax_ok_wf:
  assumes "url_wf u"
  shows "syntax_ok B u = Inr True"
proof -
  have "sfind (any_of '':/?#'') (m_scheme u) 0 = None"
    using assms scheme_char [of "m_scheme u"]
    by (cases "m_scheme u = []") (auto simp: sfind_None url_wf_def none_of_def any_of_def)
  moreover have host: "host_ok (m_host u)" using assms by (simp add: url_wf_def auth_wf_def)
  then have "sfind (any_of ''/?#'') (m_host u) 0 = None"
    by (auto simp: sfind_None any_of_def host_ok_no)
  moreover have "clean URL_CHAR_PATH (get_path u)"
    using assms by (auto simp: url_wf_def get_path_def intro!: clean_path_get)
  then have "sfind (any_of ''?#'') (get_path u) 0 = None"
    by (auto simp: sfind_None any_of_def clean_no)
  moreover have "clean URL_CHAR_QUERY (m_query u)"
    using assms by (cases "m_query u = []") (auto simp: url_wf_def)
  then have "sfind (any_of ''#'') (m_query u) 0 = None"
    by (auto simp: sfind_None any_of_def clean_no)
  moreover have "m_has_authority u \<longrightarrow> slash_begin (u_path u)" using assms by (simp add: url_wf_def)
  ultimately show ?thesis
    using host by (simp add: syntax_ok_def has_authority_def path_absolute_def valid_host_iff)
qed

text \<open>Parsing as a function of the parts of the string.\<close>

definition fill :: "url_parts \<Rightarrow> url \<Rightarrow> url res" where
  "fill p u =
     bindR (if p_auth p = Some [] \<and> m_scheme u \<noteq> [] \<and> m_scheme u \<noteq> ''file'' then Inl UrlParseError else Inr u) (\<lambda>u.
     bindR (if_matched (p_auth p) (set_authority B) u) (\<lambda>u.
     bindR (set_path (p_path p) u) (\<lambda>u.
     bindR (if_matched (p_query p) set_query u) (\<lambda>u. if_matched (p_fragment p) set_fragment u))))"

lemma url_assign_fill:
  "url_assign B s u =
     bindR (bindR (if_matched (p_scheme (split_url s)) (set_scheme B) url_init) (fill (split_url s))) (\<lambda>u.
     bindR (syntax_ok B u) (\<lambda>ok. if \<not> ok then Inl UrlParseError else
     bindR (valid_host B (m_host u)) (\<lambda>ok. if \<not> ok then Inl UrlParseError else Inr u)))"
proof -
  have assoc: "bindR (bindR m f) g = bindR m (\<lambda>x. bindR (f x) g)" for m :: "'x res" and f :: "'x \<Rightarrow> 'y res" and g :: "'y \<Rightarrow> 'z res"
    by (cases m) auto
  obtain m where m: "regex_match B RE_URL s = Some m" "m 2 = p_scheme (split_url s)" "m 4 = p_auth (split_url s)"
    "m 3 = map_option (\<lambda>a. ''//'' @ a) (p_auth (split_url s))" "m 5 = Some (p_path (split_url s))"
    "m 6 = p_query (split_url s)" "m 7 = p_fragment (split_url s)"
    using perl_match_RE_URL [of s] by (auto simp: regex_match_perl)
  have ds: "if_matched (m 3) (\<lambda>dslash u.
              if dslash = ''//'' \<and> m_scheme u \<noteq> [] \<and> m_scheme u \<noteq> ''file'' then Inl UrlParseError
              else Inr u) u
      = (if p_auth (split_url s) = Some [] \<and> m_scheme u \<noteq> [] \<and> m_scheme u \<noteq> ''file'' then Inl UrlParseError else Inr u)" for u
    unfolding m(4) by (cases "p_auth (split_url s)") (auto simp: if_matched_def)
  show ?thesis
    unfolding url_assign_def Let_def m(1) option.case ds unfolding m url_clear_init
    by (simp add: fill_def assoc if_matched_def)
qed

lemma set_path_wf:
  assumes "set_path s u = Inr u'"
  obtains q where "u' = u\<lparr>u_path := q\<rparr>" "segs_ok (segmt q)" "\<forall>x\<in>set (segmt q). clean URL_CHAR_PATH x"
    "m_has_authority u \<longrightarrow> slash_begin q"
proof -
  obtain e where e: "clean URL_CHAR_PATH e"
    "set_path s u = Inr (u\<lparr>u_path := (if m_has_authority u then set_absolute True (path_assign e) else path_assign e)\<rparr>)"
    using set_path_total by blast
  have "segs_ok (segmt (path_assign e))" using path_wf_assign by (simp add: path_wf_def)
  then show thesis using that e assms path_assign_clean by (auto split: if_splits)
qed

lemma escape_head:
  assumes "escape s m = Inr e" "s \<noteq> []" "hd s = c" "c \<noteq> CHR ''%''" "\<not> url_char_test c m"
  shows "e \<noteq> [] \<and> hd e = c"
proof -
  obtain r where "s = c # r" using assms by (cases s) auto
  with assms show ?thesis by (metis escape_Cons list.discI list.sel(1))
qed

lemma url_upd_id:
  "m_query u = x \<Longrightarrow> u\<lparr>m_query := x\<rparr> = u" "m_fragment u = x \<Longrightarrow> u\<lparr>m_fragment := x\<rparr> = u"
  by (cases u; auto)+

lemma if_matched_query:
  assumes "if_matched (p_query (split_url s)) set_query u = Inr u'" "m_query u = []"
  obtains qu where "u' = u\<lparr>m_query := qu\<rparr>" "qu \<noteq> [] \<longrightarrow> hd qu = CHR ''?'' \<and> clean URL_CHAR_QUERY qu"
proof (cases "p_query (split_url s)")
  case None
  then have "u' = u\<lparr>m_query := []\<rparr>" using assms by (simp add: if_matched_def url_upd_id)
  with that [of "[]"] show thesis by simp
next
  case (Some x)
  obtain e where e: "escape x URL_CHAR_QUERY = Inr e" "set_query x u = Inr (u\<lparr>m_query := e\<rparr>)"
    using set_query_ok by blast
  have "hd e = CHR ''?''" using escape_head [OF e(1)] split_url_heads(1) [OF Some] by simp
  with that [of e] e(2) clean_escape [OF e(1)] assms(1) Some show thesis by (simp add: if_matched_def)
qed

lemma if_matched_fragment:
  assumes "if_matched (p_fragment (split_url s)) set_fragment u = Inr u'" "m_fragment u = []"
  obtains fr where "u' = u\<lparr>m_fragment := fr\<rparr>" "fr \<noteq> [] \<longrightarrow> hd fr = CHR ''#'' \<and> clean URL_CHAR_FRAGMENT fr"
proof (cases "p_fragment (split_url s)")
  case None
  then have "u' = u\<lparr>m_fragment := []\<rparr>" using assms by (simp add: if_matched_def url_upd_id)
  with that [of "[]"] show thesis by simp
next
  case (Some x)
  obtain e where e: "escape x URL_CHAR_FRAGMENT = Inr e" "set_fragment x u = Inr (u\<lparr>m_fragment := e\<rparr>)"
    using set_fragment_ok by blast
  have "hd e = CHR ''#''" using escape_head [OF e(1)] split_url_heads(2) [OF Some] by simp
  with that [of e] e(2) clean_escape [OF e(1)] assms(1) Some show thesis by (simp add: if_matched_def)
qed

lemma if_matched_authority:
  assumes "if_matched a (set_authority B) u = Inr u'" "m_userinfo u = []" "m_host u = []" "m_port u = []"
    "\<not> m_host_ip_literal u"
  shows "auth_wf u' \<and> (m_has_authority u' \<or> u' = u) \<and> m_scheme u' = m_scheme u \<and> m_suspicious u' = m_suspicious u
      \<and> m_query u' = m_query u \<and> m_fragment u' = m_fragment u"
proof (cases a)
  case None
  then have "u' = u" using assms(1) by (simp add: if_matched_def)
  with assms(2-) show ?thesis by (simp add: auth_wf_def host_ok_def port_ok_def)
next
  case (Some x)
  then have "set_authority B x u = Inr u'" using assms(1) by (simp add: if_matched_def)
  then obtain ui h p l where
    "u' = u\<lparr>m_userinfo := ui, m_host := h, m_port := p, m_host_ip_literal := l, m_has_authority := True\<rparr>" "auth_wf u'"
    using assms(2,4,5) by (rule set_authority_sound)
  then show ?thesis by simp
qed

lemma fill_wf:
  assumes "fill (split_url s) u = Inr u'" "u = url_init \<or> (\<exists>sc \<in> lang RE_SCHEME.
      u = url_init\<lparr>m_scheme := map tolower sc, m_has_authority := True\<rparr>)"
  shows "url_wf u'"
proof -
  let ?p = "split_url s"
  from assms(1) obtain u1 u2 u3 where
    1: "if_matched (p_auth ?p) (set_authority B) u = Inr u1" and
    2: "set_path (p_path ?p) u1 = Inr u2" and
    3: "if_matched (p_query ?p) set_query u2 = Inr u3" and
    4: "if_matched (p_fragment ?p) set_fragment u3 = Inr u'"
    by (auto simp: fill_def bindR_eq_Inr split: if_splits)
  have u: "m_userinfo u = []" "m_host u = []" "m_port u = []" "\<not> m_host_ip_literal u" "\<not> m_suspicious u"
    "m_query u = []" "m_fragment u = []"
    "m_scheme u \<noteq> [] \<longrightarrow> m_scheme u \<in> lang RE_SCHEME \<and> map tolower (m_scheme u) = m_scheme u \<and> m_has_authority u"
    using assms(2) by (auto simp: url_init_def o_def lang_RE_SCHEME_lower)
  have a: "auth_wf u1" "m_has_authority u1 \<or> u1 = u" "m_scheme u1 = m_scheme u" "\<not> m_suspicious u1"
      "m_query u1 = []" "m_fragment u1 = []"
    using if_matched_authority [OF 1 u(1-4)] u(5-7) by auto
  from 2 obtain q where q: "u2 = u1\<lparr>u_path := q\<rparr>" "segs_ok (segmt q)" "\<forall>x\<in>set (segmt q). clean URL_CHAR_PATH x"
    "m_has_authority u1 \<longrightarrow> slash_begin q" by (rule set_path_wf)
  from 3 obtain qu where qu: "u3 = u2\<lparr>m_query := qu\<rparr>" "qu \<noteq> [] \<longrightarrow> hd qu = CHR ''?'' \<and> clean URL_CHAR_QUERY qu"
    by (rule if_matched_query) (simp add: q(1) a)
  from 4 obtain fr where fr: "u' = u3\<lparr>m_fragment := fr\<rparr>" "fr \<noteq> [] \<longrightarrow> hd fr = CHR ''#'' \<and> clean URL_CHAR_FRAGMENT fr"
    by (rule if_matched_fragment) (simp add: q(1) qu(1) a)
  have u': "u' = u1\<lparr>u_path := q, m_query := qu, m_fragment := fr\<rparr>" using q(1) qu(1) fr(1) by simp
  have "m_scheme u1 \<noteq> [] \<longrightarrow> m_has_authority u1" using a u(8) by auto
  moreover have "\<not> m_has_authority u1 \<longrightarrow> m_host u1 = []" using a u(2) by auto
  moreover have "auth_wf u'" using a by (simp add: u' auth_wf_def)
  ultimately show ?thesis
    unfolding url_wf_def using a q(2-4) qu(2) fr(2) u(8) by (simp add: u')
qed

lemma url_assign_Inr:
  assumes "url_assign B s u = Inr u'"
  obtains u0 where "if_matched (p_scheme (split_url s)) (set_scheme B) url_init = Inr u0"
    "fill (split_url s) u0 = Inr u'"
proof -
  from assms [unfolded url_assign_fill] obtain u1 where
    1: "bindR (if_matched (p_scheme (split_url s)) (set_scheme B) url_init) (fill (split_url s)) = Inr u1" and
    2: "bindR (syntax_ok B u1) (\<lambda>ok. if \<not> ok then Inl UrlParseError else
      bindR (valid_host B (m_host u1)) (\<lambda>ok. if \<not> ok then Inl UrlParseError else Inr u1)) = Inr u'"
    by (rule bindR_InrE)
  from 2 have "u1 = u'" by (auto simp: bindR_eq_Inr split: if_splits)
  from 1 obtain u0 where "if_matched (p_scheme (split_url s)) (set_scheme B) url_init = Inr u0"
    "fill (split_url s) u0 = Inr u1" by (rule bindR_InrE)
  with \<open>u1 = u'\<close> that show thesis by simp
qed

lemma url_assign_wf:
  assumes "url_assign B s u = Inr u'"
  shows "url_wf u'"
  using assms
proof (rule url_assign_Inr)
  fix u0
  assume u0: "if_matched (p_scheme (split_url s)) (set_scheme B) url_init = Inr u0"
    "fill (split_url s) u0 = Inr u'"
  have "u0 = url_init \<or> (\<exists>sc \<in> lang RE_SCHEME. u0 = url_init\<lparr>m_scheme := map tolower sc, m_has_authority := True\<rparr>)"
    using u0(1) by (cases "p_scheme (split_url s)") (auto simp: if_matched_def set_scheme_ok)
  with u0(2) show ?thesis by (rule fill_wf)
qed

lemma url_assign_of_fill:
  assumes "if_matched (p_scheme (split_url s)) (set_scheme B) url_init = Inr u0"
    "fill (split_url s) u0 = Inr u'" "url_wf u'"
  shows "url_assign B s u = Inr u'"
  using assms syntax_ok_wf [OF assms(3)]
  by (simp add: url_assign_fill valid_host_iff url_wf_def auth_wf_def)

text \<open>The printed form is cut where it was put together.\<close>

lemma get_authority_char:
  assumes "auth_wf u" "c \<in> set (get_authority u)"
  shows "none_of ''/?#'' c"
proof (cases "m_host u = []")
  case False
  have "CHR ''/'' \<notin> set (m_userinfo u)" "CHR ''?'' \<notin> set (m_userinfo u)" "CHR ''#'' \<notin> set (m_userinfo u)"
    "CHR ''/'' \<notin> set (m_host u)" "CHR ''?'' \<notin> set (m_host u)" "CHR ''#'' \<notin> set (m_host u)"
    using assms(1) by (auto simp: auth_wf_def clean_no host_ok_no)
  moreover have "CHR ''/'' \<notin> set (m_port u)" "CHR ''?'' \<notin> set (m_port u)" "CHR ''#'' \<notin> set (m_port u)"
    using auth_wf_chars(2) [OF assms(1) False, of "CHR ''/''"] auth_wf_chars(2) [OF assms(1) False, of "CHR ''?''"]
      auth_wf_chars(2) [OF assms(1) False, of "CHR ''#''"] by (auto simp: ctype_defs)
  ultimately show ?thesis
    using assms(2) False by (auto simp: get_authority_def none_of_def split: if_splits)
qed (use assms in \<open>simp add: get_authority_def\<close>)

lemma path_get_begin:
  assumes "segs_ok (segmt p)" "slash_begin p"
  obtains r where "path_get p = CHR ''/'' # r"
  using assms by (cases "segmt p = []") (simp_all add: path_get_no_segs path_get_join)

lemma split_tail:
  assumes pa: "clean URL_CHAR_PATH pa"
    and qu: "qu \<noteq> [] \<longrightarrow> hd qu = CHR ''?'' \<and> clean URL_CHAR_QUERY qu"
    and fr: "fr \<noteq> [] \<longrightarrow> hd fr = CHR ''#''"
  shows "takeWhile (none_of ''?#'') (pa @ qu @ fr) = pa" "dropWhile (none_of ''?#'') (pa @ qu @ fr) = qu @ fr"
    "split_opt CHR ''?'' (none_of ''#'') (qu @ fr) = (if qu = [] then None else Some qu, fr)"
    "split_opt CHR ''#'' (\<lambda>_. True) fr = (if fr = [] then None else Some fr, [])"
proof -
  have "CHR ''?'' \<notin> set pa" "CHR ''#'' \<notin> set pa" using clean_no [OF pa] by simp_all
  then have p: "\<forall>c\<in>set pa. none_of ''?#'' c" by (auto simp: none_of_def)
  have n: "qu @ fr = [] \<or> \<not> none_of ''?#'' (hd (qu @ fr))" using qu fr by (cases qu) (auto simp: none_of_def)
  show "takeWhile (none_of ''?#'') (pa @ qu @ fr) = pa" "dropWhile (none_of ''?#'') (pa @ qu @ fr) = qu @ fr"
    using span_append [OF p n] by blast+
  have "qu \<noteq> [] \<Longrightarrow> CHR ''#'' \<notin> set qu" using qu clean_no [of URL_CHAR_QUERY qu "CHR ''#''"] by simp
  then have q: "\<forall>c\<in>set (tl qu). none_of ''#'' c" by (cases qu) (auto simp: none_of_def)
  have f: "fr = [] \<or> \<not> none_of ''#'' (hd fr)" using fr by (auto simp: none_of_def)
  have "takeWhile (none_of ''#'') (tl qu @ fr) = tl qu" "dropWhile (none_of ''#'') (tl qu @ fr) = fr"
    using span_append [OF q f] by blast+
  then show "split_opt CHR ''?'' (none_of ''#'') (qu @ fr) = (if qu = [] then None else Some qu, fr)"
    using qu fr by (cases qu; cases fr) (simp_all add: split_opt_def)
  show "split_opt CHR ''#'' (\<lambda>_. True) fr = (if fr = [] then None else Some fr, [])"
    using fr by (cases fr) (auto simp: split_opt_def)
qed

lemma split_url_get:
  assumes "url_wf u" "m_has_authority u"
  shows "split_url (url_get u) = \<lparr>p_scheme = (if m_scheme u = [] then None else Some (m_scheme u)),
     p_auth = Some (get_authority u), p_path = get_path u,
     p_query = (if m_query u = [] then None else Some (m_query u)),
     p_fragment = (if m_fragment u = [] then None else Some (m_fragment u))\<rparr>"
proof -
  let ?au = "get_authority u" and ?pa = "get_path u" and ?qu = "m_query u" and ?fr = "m_fragment u"
  let ?t = "?pa @ ?qu @ ?fr"
  let ?r = "''//'' @ ?au @ ?t"
  have wf: "auth_wf u" "segs_ok (segmt (u_path u))" "slash_begin (u_path u)" using assms by (simp_all add: url_wf_def)
  have get: "url_get u = (if m_scheme u \<noteq> [] then m_scheme u @ CHR '':'' # ?r else ?r)"
    using assms(2) by (simp add: url_get_def has_authority_def)
  have sch: "split_scheme (url_get u) = (if m_scheme u = [] then None else Some (m_scheme u), ?r)"
  proof (cases "m_scheme u = []")
    case False
    then have "\<forall>c\<in>set (m_scheme u). none_of '':/?#'' c" using assms(1) scheme_char by (auto simp: url_wf_def)
    then have "takeWhile (none_of '':/?#'') (m_scheme u @ CHR '':'' # ?r) = m_scheme u"
      "dropWhile (none_of '':/?#'') (m_scheme u @ CHR '':'' # ?r) = CHR '':'' # ?r"
      by (intro span_append; simp add: none_of_def)+
    with False show ?thesis unfolding get split_scheme_def Let_def by simp
  qed (simp add: get split_scheme_def none_of_def)
  obtain r where pa: "?pa = CHR ''/'' # r" using path_get_begin [OF wf(2,3)] by (auto simp: get_path_def)
  have "\<forall>c\<in>set ?au. none_of ''/?#'' c" using get_authority_char [OF wf(1)] by blast
  moreover have "?t = [] \<or> \<not> none_of ''/?#'' (hd ?t)" by (simp add: pa none_of_def)
  ultimately have au: "split_auth ?r = (Some ?au, ?t)"
    using span_append [of ?au "none_of ''/?#''" ?t] by (simp add: split_auth_def)
  have "clean URL_CHAR_PATH ?pa" using assms(1) by (auto simp: url_wf_def get_path_def intro!: clean_path_get)
  from split_tail [OF this, of ?qu ?fr] assms(1)
  show ?thesis unfolding split_url_def sch au Let_def prod.case by (simp add: url_wf_def)
qed

lemma fill_get:
  assumes "url_wf v" "m_has_authority v" "m_host v = [] \<longrightarrow> m_scheme v = [] \<or> m_scheme v = ''file''"
    and u: "u = url_init\<lparr>m_scheme := m_scheme v, m_has_authority := h\<rparr>"
  shows "fill (split_url (url_get v)) u = Inr (v\<lparr>u_path := set_absolute True (path_assign (get_path v))\<rparr>)"
proof -
  have wf: "auth_wf v" "\<not> m_suspicious v" using assms(1) by (simp_all add: url_wf_def)
  have cl: "clean URL_CHAR_PATH (get_path v)" "clean URL_CHAR_QUERY (m_query v)" "clean URL_CHAR_FRAGMENT (m_fragment v)"
    using assms(1) by (auto simp: url_wf_def get_path_def intro!: clean_path_get)
  have "get_authority v = [] \<longrightarrow> m_host v = []" by (auto simp: get_authority_def)
  then have nofail: "\<not> (get_authority v = [] \<and> m_scheme v \<noteq> [] \<and> m_scheme v \<noteq> ''file'')" using assms(3) by blast
  have sa: "set_authority B (get_authority v) u = Inr (u\<lparr>m_userinfo := m_userinfo v, m_host := m_host v,
    m_port := m_port v, m_host_ip_literal := m_host_ip_literal v, m_has_authority := True\<rparr>)"
    by (rule set_authority_print [OF wf(1)]) (simp_all add: u url_init_def)
  have qu: "if_matched (if m_query v = [] then None else Some (m_query v)) set_query w = Inr (w\<lparr>m_query := m_query v\<rparr>)"
    if "m_query w = []" for w
    using that cl by (cases "m_query v = []") (simp_all add: if_matched_def set_query_def escape_clean_id url_upd_id)
  have fr: "if_matched (if m_fragment v = [] then None else Some (m_fragment v)) set_fragment w
      = Inr (w\<lparr>m_fragment := m_fragment v\<rparr>)" if "m_fragment w = []" for w
    using that cl by (cases "m_fragment v = []") (simp_all add: if_matched_def set_fragment_def escape_clean_id url_upd_id)
  have pa: "set_path (get_path v) w = Inr (w\<lparr>u_path := set_absolute True (path_assign (get_path v))\<rparr>)"
    if "m_has_authority w" for w
    using that cl by (simp add: set_path_def escape_clean_id has_authority_def)
  have "if_matched (Some (get_authority v)) (set_authority B) u = set_authority B (get_authority v) u"
    by (simp add: if_matched_def)
  then show ?thesis
    unfolding fill_def split_url_get [OF assms(1,2)] url_parts.simps
    using nofail sa assms(2) wf(2)
    by (simp add: u url_init_def pa qu fr)
qed

lemma url_assign_get:
  assumes "url_wf v" "m_has_authority v" "m_host v = [] \<longrightarrow> m_scheme v = [] \<or> m_scheme v = ''file''"
  shows "url_assign B (url_get v) u = Inr (v\<lparr>u_path := set_absolute True (path_assign (get_path v))\<rparr>)"
proof -
  let ?u = "url_init\<lparr>m_scheme := m_scheme v, m_has_authority := m_scheme v \<noteq> []\<rparr>"
  let ?v = "v\<lparr>u_path := set_absolute True (path_assign (get_path v))\<rparr>"
  have "clean URL_CHAR_PATH (get_path v)" using assms(1) by (auto simp: url_wf_def get_path_def intro!: clean_path_get)
  then have "url_wf ?v"
    using assms(1) path_wf_assign [of "get_path v"] path_assign_clean
    by (simp add: url_wf_def auth_wf_def path_wf_def)
  moreover have "if_matched (p_scheme (split_url (url_get v))) (set_scheme B) url_init = Inr ?u"
    using assms(1) unfolding split_url_get [OF assms(1,2)]
    by (auto simp: if_matched_def set_scheme_ok url_wf_def url_init_def)
  ultimately show ?thesis using fill_get [OF assms refl] by (intro url_assign_of_fill)
qed

end

end
