(* ===== verification/Url_Norm.thy ===== *)
theory Url_Norm
  imports Url_Parse
begin

text \<open>
  Normalisation of URLs. On a parsed URL \<^verbatim>\<open>normalize\<close> lowers the host, normalises the escapes of every
  component in place, since the components are well escaped, and normalises the path.
\<close>

section \<open>Normalised strings\<close>

definition norm_str :: "string \<Rightarrow> string" where
  "norm_str s = untoks (map norm_tok (toks s))"

lemma norm_str_Nil [simp]: "norm_str [] = []"
  by (simp add: norm_str_def)

lemma norm_str_append: "well_escaped a \<Longrightarrow> norm_str (a @ b) = norm_str a @ norm_str b"
  by (simp add: norm_str_def toks_append_well)

lemma norm_str_Cons: "c \<noteq> CHR ''%'' \<Longrightarrow> norm_str (c # b) = c # norm_str b"
  by (simp add: norm_str_def)

lemma well_escaped_simps [simp]:
  "well_escaped []" "c \<noteq> CHR ''%'' \<Longrightarrow> well_escaped (c # s) \<longleftrightarrow> well_escaped s"
  by (auto simp: well_escaped_def)

lemma well_escaped_append: "well_escaped a \<Longrightarrow> well_escaped (a @ b) \<longleftrightarrow> well_escaped b"
  by (auto simp: well_escaped_def toks_append_well)

lemma well_escaped_no_percent: "CHR ''%'' \<notin> set s \<Longrightarrow> well_escaped s \<and> norm_str s = s"
  by (induction s) (auto simp: norm_str_Cons)

lemma toks_norm_str: "well_escaped s \<Longrightarrow> toks (norm_str s) = map norm_tok (toks s)"
  by (simp add: norm_str_def toks_norm)

lemma well_escaped_norm_str: "well_escaped s \<Longrightarrow> well_escaped (norm_str s)"
  using norm_tok_percent by (auto simp: well_escaped_def toks_norm_str dest: sym)

lemma norm_str_idem: "well_escaped s \<Longrightarrow> norm_str (norm_str s) = norm_str s"
proof -
  assume "well_escaped s"
  then have "toks (norm_str s) = map norm_tok (toks s)" by (rule toks_norm_str)
  moreover have "map norm_tok (map norm_tok (toks s)) = map norm_tok (toks s)"
    using norm_tok_idem toks_ok by simp
  ultimately show ?thesis by (simp only: norm_str_def)
qed

lemma norm_str_eq_Nil: "norm_str s = [] \<longleftrightarrow> s = []"
proof -
  have "tok_str t \<noteq> []" for t by (cases t) auto
  then have "untoks ts = [] \<longleftrightarrow> ts = []" for ts by (cases ts) (auto simp: untoks_def)
  moreover have "toks s = [] \<longleftrightarrow> s = []" by (cases s) auto
  ultimately show ?thesis by (simp add: norm_str_def)
qed

lemma safe_char_not_special: "safe_char c \<Longrightarrow> \<not> url_char_test c m"
  using unreserved_table by (simp add: safe_char_unreserved url_char_test_def)

lemma clean_norm_str:
  assumes "clean m s" "well_escaped s"
  shows "clean m (norm_str s)"
proof -
  have "tok_clean m (norm_tok t)" if "tok_clean m t" for t
    using that by (cases t) (auto simp: safe_char_not_special)
  with assms show ?thesis by (auto simp: clean_def toks_norm_str)
qed

text \<open>Only safe characters appear that were not there.\<close>

lemma norm_str_set:
  assumes "c \<in> set (norm_str s)"
  shows "c \<in> set s \<or> safe_char c \<or> isxdigit c"
proof -
  from assms obtain t where t: "t \<in> set (toks s)" "c \<in> set (tok_str (norm_tok t))"
    by (auto simp: norm_str_def untoks_def)
  have "c \<in> set (tok_str t) \<Longrightarrow> c \<in> set s" using t(1) set_untoks by blast
  then show ?thesis using t(2) toks_ok [OF t(1)] by (cases t) (auto split: if_splits)
qed

lemma unsafe_delims:
  "\<not> safe_char CHR ''/''" "\<not> safe_char CHR ''@''" "\<not> safe_char CHR '':''" "\<not> safe_char CHR ''?''" "\<not> safe_char CHR ''#''"
  "\<not> isxdigit CHR ''/''" "\<not> isxdigit CHR ''@''" "\<not> isxdigit CHR '':''" "\<not> isxdigit CHR ''?''" "\<not> isxdigit CHR ''#''"
  by (simp_all add: safe_char_unreserved unreserved_def ctype_defs)

lemma norm_str_delim:
  "c \<notin> set s \<Longrightarrow> \<not> safe_char c \<Longrightarrow> \<not> isxdigit c \<Longrightarrow> c \<notin> set (norm_str s)"
  using norm_str_set by blast

section \<open>Hosts\<close>

text \<open>A valid host decodes to a string without escapes, which is its normal form.\<close>

lemma norm_str_host:
  assumes "host_ok h" "well_escaped h"
  shows "norm_str h = safe_decode h" "CHR ''%'' \<notin> set (safe_decode h)" "host_ok (norm_str h)"
proof -
  show np: "CHR ''%'' \<notin> set (safe_decode h)"
    using assms host_words_char [of "safe_decode h" "CHR ''%''"]
    by (cases "h = []") (auto simp: host_ok_def host_char_def none_of_def safe_decode_def)
  have "norm_tok t = unesc_tok safe_char t" if "t \<in> set (toks h)" for t
  proof (cases t)
    case (Esc a b)
    have "safe_char (x2val a b)"
    proof (rule ccontr)
      assume "\<not> safe_char (x2val a b)"
      then have "CHR ''%'' \<in> set (tok_str (unesc_tok safe_char t))" using Esc by simp
      with that np show False by (auto simp: safe_decode_def untoks_def)
    qed
    with Esc show ?thesis by simp
  qed simp
  then show eq: "norm_str h = safe_decode h" by (simp add: norm_str_def safe_decode_def cong: map_cong)
  have "toks s = map Chr s" if "CHR ''%'' \<notin> set s" for s using that by (induction s) auto
  then have "safe_decode (safe_decode h) = safe_decode h"
    using np by (simp add: safe_decode_def [of "safe_decode h"] o_def untoks_def)
  with assms(1) eq show "host_ok (norm_str h)" by (auto simp: host_ok_def safe_decode_def)
qed

text \<open>The languages of hosts are closed under lowering letters.\<close>

primrec lowers :: "regex \<Rightarrow> bool" where
  "lowers Eps \<longleftrightarrow> True"
| "lowers (Cls P) \<longleftrightarrow> (\<forall>c. P c \<longrightarrow> P (tolower c))"
| "lowers (Seq r s) \<longleftrightarrow> lowers r \<and> lowers s"
| "lowers (Alt r s) \<longleftrightarrow> lowers r \<and> lowers s"
| "lowers (Star r) \<longleftrightarrow> lowers r"
| "lowers (Grp n r) \<longleftrightarrow> lowers r"

definition lowered :: "string \<Rightarrow> string \<Rightarrow> bool" where
  "lowered = list_all2 (\<lambda>a b. b = a \<or> b = tolower a)"

lemma lowered_append: "lowered (a @ b) w \<longleftrightarrow> (\<exists>a' b'. w = a' @ b' \<and> lowered a a' \<and> lowered b b')"
proof
  assume "lowered (a @ b) w"
  then show "\<exists>a' b'. w = a' @ b' \<and> lowered a a' \<and> lowered b b'"
    unfolding lowered_def list_all2_append1 by blast
next
  assume "\<exists>a' b'. w = a' @ b' \<and> lowered a a' \<and> lowered b b'"
  then show "lowered (a @ b) w" unfolding lowered_def by (blast intro: list_all2_appendI)
qed

lemma star_lowered:
  assumes "w \<in> star A" "lowered w w'" "\<And>a a'. a \<in> A \<Longrightarrow> lowered a a' \<Longrightarrow> a' \<in> A"
  shows "w' \<in> star A"
  using assms(1,2)
proof (induction arbitrary: w' rule: star.induct)
  case star_Nil
  then show ?case by (simp add: lowered_def star.star_Nil)
next
  case (star_step a b)
  then obtain a' b' where "w' = a' @ b'" "lowered a a'" "lowered b b'" by (auto simp: lowered_append)
  with star_step assms(3) show ?case by (auto intro: star.star_step)
qed

lemma lang_lowered: "lowers r \<Longrightarrow> w \<in> lang r \<Longrightarrow> lowered w w' \<Longrightarrow> w' \<in> lang r"
proof (induction r arbitrary: w w')
  case (Cls P)
  then show ?case by (auto simp: lowered_def list_all2_Cons1)
next
  case (Seq r1 r2)
  from Seq.prems(2) obtain a b where ab: "w = a @ b" "a \<in> lang r1" "b \<in> lang r2" by auto
  with Seq.prems(3) obtain a' b' where "w' = a' @ b'" "lowered a a'" "lowered b b'" by (auto simp: lowered_append)
  moreover from this ab Seq.IH Seq.prems(1) have "a' \<in> lang r1" "b' \<in> lang r2" by simp_all
  ultimately show ?case unfolding lang.simps by blast
next
  case (Star r)
  from Star.prems have "w \<in> star (lang r)" "lowers r" by simp_all
  then have "w' \<in> star (lang r)" using Star.prems(3) star_lowered Star.IH [OF \<open>lowers r\<close>] by blast
  then show ?case by simp
next
  case Eps
  then show ?case by (auto simp: lowered_def)
qed auto

lemma lowers_simps [simp]:
  "lowers (Opt r) \<longleftrightarrow> lowers r" "lowers (Plus r) \<longleftrightarrow> lowers r"
  "lowers (Lit s) \<longleftrightarrow> (\<forall>c\<in>set s. tolower c = c)"
  by (simp_all add: Opt_def Plus_def) (induction s, auto)

lemma lowers_Rep: "lowers r \<Longrightarrow> lowers (Rep r n)"
  by (induction n) auto

lemma lowers_RepOpt: "lowers r \<Longrightarrow> lowers (RepOpt r n)"
  by (induction n) auto

lemma lowers_RepRange: "lowers r \<Longrightarrow> lowers (RepRange r m n)"
  by (simp add: RepRange_def lowers_Rep lowers_RepOpt)

lemma tolower_not_upper: "\<not> isupper c \<Longrightarrow> tolower c = c"
  by (simp add: tolower_def)

lemma isxdigit_tolower [simp]: "isxdigit (tolower c) = isxdigit c"
  by (auto simp: ctype_defs byte_tolower)

lemma any_of_lower: "\<forall>c\<in>set cs. \<not> isupper c \<Longrightarrow> any_of cs c \<Longrightarrow> tolower c = c"
  by (auto simp: any_of_def tolower_not_upper)

lemma lowers_hosts: "lowers RE_HOST" "lowers RE_IPVFUT" "lowers RE_IPV4" "lowers RE_IPV6"
proof -
  have up: "any_of ''.-'' c \<Longrightarrow> tolower c = c" "any_of ''.'' c \<Longrightarrow> tolower c = c"
    "any_of ''._~!$&'' c \<Longrightarrow> tolower c = c" "any_of ''()*+,;=:-'' c \<Longrightarrow> tolower c = c" for c
    by (rule any_of_lower; simp add: isupper_def)+
  show "lowers RE_HOST" by (auto simp: RE_HOST_def up)
  show "lowers RE_IPVFUT" by (auto simp: RE_IPVFUT_def up tolower_not_upper isupper_def)
  have "char_range CHR ''0'' d c \<Longrightarrow> byte d < 65 \<Longrightarrow> tolower c = c" for c d
    by (simp add: char_range_def tolower_not_upper isupper_def)
  then have "lowers RE_decoct" by (auto simp: RE_decoct_def tolower_not_upper isupper_def)
  then show v4: "lowers RE_IPV4" by (simp add: RE_IPV4_def tolower_not_upper isupper_def)
  have h16: "lowers RE_h16" by (simp add: RE_h16_def lowers_RepRange)
  then show "lowers RE_IPV6"
    using v4 by (simp add: RE_IPV6_def RE_ls32_def Let_def lowers_Rep lowers_RepRange tolower_not_upper isupper_def)
qed

lemma host_words_lowered: "w \<in> host_words \<Longrightarrow> lowered w w' \<Longrightarrow> w' \<in> host_words"
  unfolding host_words_def using lowers_hosts lang_lowered by blast

text \<open>Lowering a host keeps it valid and clean.\<close>

fun lower_tok :: "tok \<Rightarrow> tok" where
  "lower_tok (Esc h l) = Esc (tolower h) (tolower l)"
| "lower_tok (Chr c) = Chr (tolower c)"

lemma tolower_percent [simp]: "tolower c = CHR ''%'' \<longleftrightarrow> c = CHR ''%''" "tolower CHR ''%'' = CHR ''%''"
proof -
  have "byte (tolower c) = 37 \<longleftrightarrow> byte c = 37" by (auto simp: byte_tolower isupper_def)
  then show "tolower c = CHR ''%'' \<longleftrightarrow> c = CHR ''%''"
    using char_eq_byte [of "tolower c" "CHR ''%''"] char_eq_byte [of c "CHR ''%''"] by simp
qed (simp add: tolower_def isupper_def)

lemma xx_follows_lower: "xx_follows (map tolower s) = xx_follows s"
  by (auto simp: xx_follows_def split: list.splits)

lemma toks_lower: "toks (map tolower s) = map lower_tok (toks s)"
proof (induction s rule: toks_induct)
  case (Chr c cs)
  then show ?case using xx_follows_lower [of cs] by auto
qed auto

lemma xval_tolower: "isxdigit c \<Longrightarrow> xval (tolower c) = xval c"
proof -
  have "toupper (tolower c) = toupper c"
    unfolding char_eq_byte by (auto simp: byte_toupper byte_tolower ctype_defs simp del: of_char_eq_iff)
  moreover assume "isxdigit c"
  ultimately show ?thesis using xval_toupper [of c] xval_toupper [of "tolower c"] by simp
qed

lemma special_tolower: "url_char_test (tolower c) m = url_char_test c m"
proof (cases "isupper c")
  case True
  then have "isalnum c" by (simp add: isalnum_def isalpha_def)
  moreover from this have "isalnum (tolower c)" by simp
  ultimately show ?thesis by (simp only: alnum_not_special)
qed (simp add: tolower_not_upper)

lemma clean_lower: "clean m s \<Longrightarrow> clean m (map tolower s)"
proof -
  have "tok_clean m (lower_tok t) = tok_clean m t" for t by (cases t) (simp_all add: special_tolower)
  then show "clean m s \<Longrightarrow> clean m (map tolower s)" by (auto simp: clean_def toks_lower)
qed

lemma lowered_refl [simp]: "lowered s s"
  by (simp add: lowered_def list_all2_refl)

lemma safe_decode_lower: "lowered (safe_decode s) (safe_decode (map tolower s))"
proof -
  have "lowered (tok_str (unesc_tok safe_char t)) (tok_str (unesc_tok safe_char (lower_tok t)))" if "tok_ok t" for t
    using that by (cases t) (auto simp: x2val_def xval_tolower lowered_def)
  then have "lowered (untoks (map (unesc_tok safe_char) ts)) (untoks (map (unesc_tok safe_char) (map lower_tok ts)))"
    if "\<forall>t\<in>set ts. tok_ok t" for ts
    using that by (induction ts) (auto simp: lowered_append)
  then show ?thesis using toks_ok by (simp add: safe_decode_def toks_lower del: map_map)
qed

lemma host_ok_lower: "host_ok h \<Longrightarrow> host_ok (map tolower h)"
  using safe_decode_lower host_words_lowered by (auto simp: host_ok_def)

lemma tolower_colon: "CHR '':'' \<notin> set s \<Longrightarrow> CHR '':'' \<notin> set (map tolower s)"
proof -
  have "tolower c = CHR '':'' \<Longrightarrow> c = CHR '':''" for c
    by (cases "isupper c") (auto simp: tolower_def isupper_def char_eq_byte [of _ "CHR '':''"] simp del: of_char_eq_iff)
  then show "CHR '':'' \<notin> set s \<Longrightarrow> CHR '':'' \<notin> set (map tolower s)" by (auto dest: sym)
qed

lemma normalize_host_lower: "normalize_host u = u\<lparr>m_host := map tolower (m_host u)\<rparr>"
proof -
  have "schar c \<ge> 0x41 \<and> schar c \<le> 0x5A \<longleftrightarrow> isupper c" for c
  proof (cases "byte c < 128")
    case False
    have "byte c < 256" by (rule byte_less_256)
    then have "int (byte c) < 256" by linarith
    then have "schar c < 0" using False unfolding schar_def if_not_P [OF False] by linarith
    then show ?thesis using False by (simp add: isupper_def)
  qed (auto simp: schar_def isupper_def)
  then have "(if schar c \<ge> 0x41 \<and> schar c \<le> 0x5A then char_of (byte c + 0x20) else c) = tolower c" for c
    unfolding tolower_def by simp
  then show ?thesis by (simp add: normalize_host_def)
qed

section \<open>Normalised URLs\<close>

definition norm_path_segs :: "path \<Rightarrow> path" where
  "norm_path_segs p = p\<lparr>segmt := map norm_str (segmt p)\<rparr>"

text \<open>The URL whose components are normalised one by one.\<close>

definition norm_url :: "url \<Rightarrow> url" where
  "norm_url u = u\<lparr>m_userinfo := norm_str (m_userinfo u), m_host := norm_str (m_host u),
     u_path := norm_path_segs (u_path u), m_query := norm_str (m_query u), m_fragment := norm_str (m_fragment u)\<rparr>"

lemma norm_str_join:
  assumes "\<forall>x\<in>set ss. well_escaped x"
  shows "well_escaped (join ss) \<and> norm_str (join ss) = join (map norm_str ss)"
  using assms by (induction ss rule: join.induct) (auto simp: norm_str_append norm_str_Cons well_escaped_append)

lemma segs_ok_norm: "segs_ok ss \<Longrightarrow> segs_ok (map norm_str ss)"
  by (auto simp: segs_ok_def norm_str_eq_Nil norm_str_delim unsafe_delims)

lemma norm_str_path_get:
  assumes "segs_ok (segmt p)" "\<forall>x\<in>set (segmt p). well_escaped x"
  shows "well_escaped (path_get p) \<and> norm_str (path_get p) = path_get (norm_path_segs p)"
proof (cases "segmt p = []")
  case True
  then show ?thesis by (simp add: path_get_no_segs norm_path_segs_def norm_str_Cons)
next
  case False
  have j: "well_escaped (join (segmt p))" "norm_str (join (segmt p)) = join (map norm_str (segmt p))"
    using norm_str_join [OF assms(2)] by simp_all
  have "path_get (norm_path_segs p) = (if slash_begin p then ''/'' else []) @ join (map norm_str (segmt p))
      @ (if slash_end p then ''/'' else [])"
    using False segs_ok_norm [OF assms(1)] by (simp add: path_get_join norm_path_segs_def)
  then show ?thesis
    using False assms(1) j by (simp add: path_get_join norm_str_append norm_str_Cons well_escaped_append)
qed

lemma url_wf_escaped:
  assumes "url_wf u"
  shows "well_escaped (m_userinfo u)" "well_escaped (m_host u)" "\<forall>x\<in>set (segmt (u_path u)). well_escaped x"
    "well_escaped (m_query u)" "well_escaped (m_fragment u)"
    "CHR ''%'' \<notin> set (m_scheme u)" "CHR ''%'' \<notin> set (m_port u)"
proof -
  have "clean URL_CHAR_AUTH (m_userinfo u)" "clean URL_CHAR_AUTH (m_host u)"
    "\<forall>x\<in>set (segmt (u_path u)). clean URL_CHAR_PATH x"
    "m_query u \<noteq> [] \<Longrightarrow> clean URL_CHAR_QUERY (m_query u)" "m_fragment u \<noteq> [] \<Longrightarrow> clean URL_CHAR_FRAGMENT (m_fragment u)"
    using assms by (simp_all add: url_wf_def auth_wf_def)
  note cl = this
  show "well_escaped (m_userinfo u)" "well_escaped (m_host u)" using cl(1,2) by (simp_all add: clean_well_escaped)
  show "\<forall>x\<in>set (segmt (u_path u)). well_escaped x" using cl(3) clean_well_escaped [of URL_CHAR_PATH] by auto
  show "well_escaped (m_query u)" using cl(4) by (cases "m_query u = []") (simp_all add: clean_well_escaped)
  show "well_escaped (m_fragment u)" using cl(5) by (cases "m_fragment u = []") (simp_all add: clean_well_escaped)
  have "m_scheme u \<noteq> [] \<Longrightarrow> m_scheme u \<in> lang RE_SCHEME" using assms by (simp add: url_wf_def)
  then show "CHR ''%'' \<notin> set (m_scheme u)"
    by (cases "m_scheme u") (auto simp: lang_RE_SCHEME ctype_defs any_of_def)
  show "CHR ''%'' \<notin> set (m_port u)"
    using assms by (auto simp: url_wf_def auth_wf_def port_ok_def ctype_defs)
qed

lemma norm_str_authority:
  assumes "url_wf u"
  shows "well_escaped (get_authority u) \<and> norm_str (get_authority u) = get_authority (norm_url u)"
proof -
  note we = url_wf_escaped [OF assms]
  have p: "well_escaped (m_port u)" "norm_str (m_port u) = m_port u" using well_escaped_no_percent [OF we(7)] by simp_all
  show ?thesis
    using we(1,2) p
    by (auto simp: get_authority_def norm_url_def norm_str_eq_Nil norm_str_append norm_str_Cons well_escaped_append)
qed

lemma norm_str_url_get:
  assumes "url_wf u"
  shows "well_escaped (url_get u) \<and> norm_str (url_get u) = url_get (norm_url u)"
proof -
  note we = url_wf_escaped [OF assms]
  have s: "well_escaped (m_scheme u)" "norm_str (m_scheme u) = m_scheme u" using well_escaped_no_percent [OF we(6)] by simp_all
  have a: "well_escaped (get_authority u)" "norm_str (get_authority u) = get_authority (norm_url u)"
    using norm_str_authority [OF assms] by simp_all
  have "segs_ok (segmt (u_path u))" using assms by (simp add: url_wf_def)
  from norm_str_path_get [OF this we(3)]
  have p: "well_escaped (get_path u)" "norm_str (get_path u) = get_path (norm_url u)"
    by (simp_all add: get_path_def norm_url_def)
  have f: "m_scheme (norm_url u) = m_scheme u" "has_authority (norm_url u) = has_authority u"
    "m_query (norm_url u) = norm_str (m_query u)" "m_fragment (norm_url u) = norm_str (m_fragment u)"
    by (simp_all add: norm_url_def has_authority_def)
  show ?thesis
    unfolding url_get_def f using s a p we(4,5)
    by (simp add: norm_str_append norm_str_Cons well_escaped_append)
qed

lemma norm_str_hd:
  "s \<noteq> [] \<Longrightarrow> hd s = c \<Longrightarrow> c \<noteq> CHR ''%'' \<Longrightarrow> norm_str s \<noteq> [] \<and> hd (norm_str s) = c"
  by (cases s) (auto simp: norm_str_Cons)

lemma url_wf_norm:
  assumes "url_wf u"
  shows "url_wf (norm_url u)"
proof -
  note we = url_wf_escaped [OF assms]
  have au: "auth_wf u" using assms by (simp add: url_wf_def)
  then have h: "host_ok (m_host u)" by (simp add: auth_wf_def)
  have "auth_wf (norm_url u)"
    using au we norm_str_host(3) [OF h we(2)]
    by (auto simp: auth_wf_def norm_url_def clean_norm_str norm_str_delim unsafe_delims norm_str_eq_Nil)
  moreover have "\<forall>x\<in>set (map norm_str (segmt (u_path u))). clean URL_CHAR_PATH x"
    using assms we(3) clean_norm_str by (auto simp: url_wf_def)
  ultimately show ?thesis
    using assms we norm_str_hd [of "m_query u"] norm_str_hd [of "m_fragment u"]
    by (auto simp: url_wf_def norm_url_def norm_path_segs_def segs_ok_norm norm_str_eq_Nil clean_norm_str)
qed

definition lower_host :: "url \<Rightarrow> url" where
  "lower_host u = u\<lparr>m_host := map tolower (m_host u)\<rparr>"

definition reparsed :: "url \<Rightarrow> url" where
  "reparsed u = u\<lparr>u_path := set_absolute True (path_assign (get_path u))\<rparr>"

lemma url_wf_lower_host: "url_wf u \<Longrightarrow> url_wf (lower_host u)"
  by (auto simp: url_wf_def auth_wf_def lower_host_def clean_lower host_ok_lower simp del: set_map
      dest: tolower_colon)

lemma url_wf_reparsed: "url_wf u \<Longrightarrow> m_has_authority u \<Longrightarrow> url_wf (reparsed u)"
proof -
  assume u: "url_wf u" "m_has_authority u"
  then have "clean URL_CHAR_PATH (get_path u)" by (auto simp: url_wf_def get_path_def intro!: clean_path_get)
  then show ?thesis
    using u path_wf_assign [of "get_path u"] boost_lib.path_assign_clean [OF ref.boost_lib_axioms]
    by (simp add: reparsed_def url_wf_def auth_wf_def path_wf_def set_absolute_def)
qed

lemma normalize_loop_set: "set (fst (normalize_loop before rest se)) \<subseteq> set before \<union> set rest"
proof (induction before rest se rule: normalize_loop.induct)
  case (2 before i rest se)
  then show ?case by (cases before) auto
qed simp

lemma path_normalize_set: "set (segmt (path_normalize p)) \<subseteq> set (segmt p)"
proof (cases "segmt p")
  case (Cons x xs)
  then show ?thesis using normalize_loop_set [of "[x]" xs "slash_end p"] by (simp add: path_normalize_segmt)
qed (simp add: path_normalize_Nil)

lemma url_wf_normalize_path: "url_wf u \<Longrightarrow> url_wf (normalize_path u)"
  using path_normalize_set [of "u_path u"] path_normalize_segs_ok [of "u_path u"]
  by (auto simp: normalize_path_def url_wf_def auth_wf_def)

context boost_lib
begin

lemma url_normalize_result:
  assumes "url_wf u" "m_has_authority u" "m_host u \<noteq> [] \<or> m_scheme u = [] \<or> m_scheme u = ''file''"
  shows "url_normalize B u = Inr (normalize_path (reparsed (norm_url (lower_host u))))"
    and "url_wf (normalize_path (reparsed (norm_url (lower_host u))))"
proof -
  let ?u = "lower_host u"
  have wf1: "url_wf ?u" using assms(1) by (rule url_wf_lower_host)
  have wf2: "url_wf (norm_url ?u)" using wf1 by (rule url_wf_norm)
  have a: "m_has_authority (norm_url ?u)" using assms(2) by (simp add: norm_url_def lower_host_def)
  have h: "m_host (norm_url ?u) = [] \<longrightarrow> m_scheme (norm_url ?u) = [] \<or> m_scheme (norm_url ?u) = ''file''"
    using assms(3) by (auto simp: norm_url_def lower_host_def norm_str_eq_Nil)
  have "map tolower (m_scheme u) = m_scheme u" using assms(1) by (cases "m_scheme u = []") (simp_all add: url_wf_def)
  then have "normalize_scheme B u = u" by (cases u) (simp add: normalize_scheme_def to_lower_map)
  moreover have "normalize_host u = ?u" by (simp add: normalize_host_lower lower_host_def)
  moreover have "url_normalize_escapes B ?u = Inr (reparsed (norm_url ?u))"
    using norm_str_url_get [OF wf1] url_assign_get [OF wf2 a h]
    by (simp add: url_normalize_escapes_def normalize_escapes_toks reparsed_def flip: norm_str_def)
  ultimately show "url_normalize B u = Inr (normalize_path (reparsed (norm_url ?u)))"
    by (simp add: url_normalize_def)
  show "url_wf (normalize_path (reparsed (norm_url ?u)))"
    using url_wf_reparsed [OF wf2 a] by (rule url_wf_normalize_path)
qed

end

text \<open>A normalised URL whose host has no escapes is a fixed point.\<close>

lemma segmt_path_assign_get:
  assumes "segs_ok (segmt p)" "slash_begin p"
  shows "segmt (path_assign (path_get p)) = segmt p"
proof (cases "segmt p = []")
  case True
  then show ?thesis using assms(2) by (simp add: path_get_no_segs path_assign_def)
next
  case False
  then show ?thesis using assms by (simp add: path_assign_get path_wf_def)
qed

lemma path_get_renormalize:
  assumes "segs_ok (segmt p)" "slash_begin p" "normal_segs (segmt p)"
  shows "path_get (path_normalize (set_absolute True (path_assign (path_get p)))) = path_get p"
proof -
  let ?q = "set_absolute True (path_assign (path_get p))"
  have "normal_segs (segmt ?q)" using assms segmt_path_assign_get by (simp add: set_absolute_def)
  then have "path_normalize ?q = ?q" by (rule path_normalize_id)
  with path_get_reassign [OF assms(1,2)] show ?thesis by simp
qed

lemma norm_url_fixed:
  assumes "url_wf u" "m_has_authority u" "CHR ''%'' \<notin> set (m_host u)"
  defines "v \<equiv> normalize_path (reparsed (norm_url (lower_host u)))"
  shows "lower_host v = v" "norm_url v = v"
proof -
  let ?w = "norm_url (lower_host u)"
  have wf: "url_wf (lower_host u)" using assms(1) by (rule url_wf_lower_host)
  note we = url_wf_escaped [OF wf]
  have np: "CHR ''%'' \<notin> set (map tolower (m_host u))" using assms(3) by (auto dest: sym)
  then have h: "m_host v = map tolower (m_host u)"
    using well_escaped_no_percent [OF np] by (simp add: v_def normalize_path_def reparsed_def norm_url_def lower_host_def)
  then show "lower_host v = v" by (cases v) (simp add: lower_host_def o_def)
  have wfw: "url_wf ?w" using wf by (rule url_wf_norm)
  have aw: "m_has_authority ?w" using assms(2) by (simp add: norm_url_def lower_host_def)
  have ok: "segs_ok (segmt (u_path ?w))" "slash_begin (u_path ?w)" using wfw aw by (simp_all add: url_wf_def)
  have "segmt (u_path v) = segmt (path_normalize (set_absolute True (path_assign (path_get (u_path ?w)))))"
    by (simp add: v_def normalize_path_def reparsed_def get_path_def)
  then have "set (segmt (u_path v)) \<subseteq> set (segmt (u_path ?w))"
    using path_normalize_set [of "set_absolute True (path_assign (path_get (u_path ?w)))"] segmt_path_assign_get [OF ok]
    by (simp add: set_absolute_def)
  also have "segmt (u_path ?w) = map norm_str (segmt (u_path (lower_host u)))"
    by (simp add: norm_url_def norm_path_segs_def)
  finally have "\<forall>x\<in>set (segmt (u_path v)). norm_str x = x" using we(3) norm_str_idem by auto
  then have "norm_path_segs (u_path v) = u_path v" by (cases "u_path v") (simp add: norm_path_segs_def map_idI)
  moreover have "norm_str (m_host v) = m_host v" using h well_escaped_no_percent [OF np] by simp
  moreover have "norm_str (m_userinfo v) = m_userinfo v" "norm_str (m_query v) = m_query v" "norm_str (m_fragment v) = m_fragment v"
    using we(1,4,5) norm_str_idem by (simp_all add: v_def normalize_path_def reparsed_def norm_url_def)
  ultimately show "norm_url v = v" by (cases v) (simp add: norm_url_def)
qed

lemma url_get_renormalized:
  assumes "url_wf v" "m_has_authority v" "normal_segs (segmt (u_path v))"
  shows "url_get (normalize_path (reparsed v)) = url_get v"
proof -
  have "segs_ok (segmt (u_path v))" "slash_begin (u_path v)" using assms by (simp_all add: url_wf_def)
  from path_get_renormalize [OF this assms(3)] show ?thesis
    by (simp add: url_get_def normalize_path_def reparsed_def get_path_def get_authority_def has_authority_def)
qed

end
