(* ===== verification/Url_Props.thy ===== *)
theory Url_Props
  imports Url_Norm
begin

text \<open>
  The properties of the class \<^verbatim>\<open>Url\<close>, for every Boost library that behaves as documented, and the
  behaviours at its edges that the model shows.
\<close>

section \<open>References\<close>

context boost_lib
begin

lemma merge_fragment_wf:
  assumes "url_wf r"
  shows "merge_fragment r u = Inr (u\<lparr>m_fragment := m_fragment r\<rparr>)"
proof (cases "m_fragment r = []")
  case False
  with assms have "clean URL_CHAR_FRAGMENT (m_fragment r)" by (simp add: url_wf_def)
  with False show ?thesis by (simp add: merge_fragment_def has_fragment_def set_fragment_def escape_clean_id)
qed (simp add: merge_fragment_def has_fragment_def clear_fragment_def)

lemma set_query_wf: "url_wf r \<Longrightarrow> m_query r \<noteq> [] \<Longrightarrow> set_query (m_query r) u = Inr (u\<lparr>m_query := m_query r\<rparr>)"
  by (simp add: set_query_def escape_clean_id url_wf_def)

lemma merge_ref_path:
  assumes "url_wf u" "absolute u" "url_wf r" "\<not> absolute r" "\<not> m_has_authority r" "\<not> path_empty (u_path r)"
  shows "merge_ref B u r = Inr (u\<lparr>u_path := merge (u_path u) (u_path r), m_query := m_query r, m_fragment := m_fragment r\<rparr>)"
proof (cases "m_query r = []")
  case True
  with assms show ?thesis
    by (simp add: merge_ref_def syntax_ok_wf has_scheme_def absolute_def has_authority_def has_query_def
        merge_fragment_wf clear_query_def Let_def)
next
  case False
  with assms show ?thesis
    by (simp add: merge_ref_def syntax_ok_wf has_scheme_def absolute_def has_authority_def has_query_def
        merge_fragment_wf set_query_wf Let_def)
qed

lemma merge_ref_wf:
  assumes "url_wf u" "absolute u" "url_wf r" "\<not> m_has_authority r"
  shows "url_wf (u\<lparr>u_path := merge (u_path u) (u_path r), m_query := m_query r, m_fragment := m_fragment r\<rparr>)"
proof -
  have u: "segs_ok (segmt (u_path u))" "slash_begin (u_path u)" "\<forall>x\<in>set (segmt (u_path u)). clean URL_CHAR_PATH x"
    using assms by (auto simp: url_wf_def absolute_def)
  have r: "segs_ok (segmt (u_path r))" "\<forall>x\<in>set (segmt (u_path r)). clean URL_CHAR_PATH x"
    using assms(3) by (simp_all add: url_wf_def)
  have walk: "set (walk st ss) \<subseteq> set st \<union> set ss" for st ss
  proof (induction ss arbitrary: st)
    case (Cons a ss)
    show ?case using Cons [of st] Cons [of "butlast st"] Cons [of "st @ [a]"] by (auto dest: in_set_butlastD)
  qed simp
  have "set (segmt (merge (u_path u) (u_path r))) \<subseteq> set (segmt (u_path u)) \<union> set (segmt (u_path r))"
    using walk by (auto simp: merge_def Let_def fold_merge_step dest!: subsetD [OF walk] in_set_butlastD)
  then have "\<forall>x\<in>set (segmt (merge (u_path u) (u_path r))). clean URL_CHAR_PATH x" using u(3) r(2) by blast
  then show ?thesis
    using assms u r segs_ok_merge [OF u(1) r(1)] slash_begin_merge [OF u(2), of "u_path r"]
    by (simp add: url_wf_def auth_wf_def)
qed

text \<open>A reference without a path, for which the path of the base and, when it has no query, the query of the base stay.\<close>

lemma merge_ref_no_path:
  assumes "absolute u" "url_wf r" "\<not> absolute r" "\<not> m_has_authority r" "path_empty (u_path r)"
  shows "merge_ref B u r = Inr (u\<lparr>m_query := if m_query r = [] then m_query u else m_query r, m_fragment := m_fragment r\<rparr>)"
proof (cases "m_query r = []")
  case True
  then have "u\<lparr>m_query := m_query u, m_fragment := x\<rparr> = u\<lparr>m_fragment := x\<rparr>" for x by simp
  with True assms show ?thesis
    by (simp add: merge_ref_def syntax_ok_wf has_scheme_def absolute_def has_authority_def has_query_def merge_fragment_wf)
next
  case False
  with assms show ?thesis
    by (simp add: merge_ref_def syntax_ok_wf has_scheme_def absolute_def has_authority_def has_query_def
        merge_fragment_wf set_query_wf)
qed

lemma merge_ref_no_path_wf:
  "url_wf u \<Longrightarrow> url_wf r \<Longrightarrow> url_wf (u\<lparr>m_query := if m_query r = [] then m_query u else m_query r, m_fragment := m_fragment r\<rparr>)"
  by (auto simp: url_wf_def auth_wf_def)

lemma url_assign_path_wf:
  assumes "url_assign B s u = Inr u'" "\<not> m_has_authority u'"
  shows "path_wf (u_path u')"
  using assms(1)
proof (rule url_assign_Inr)
  let ?p = "split_url s"
  fix u0
  assume "fill ?p u0 = Inr u'"
  then obtain u1 u2 u3 where 2: "set_path (p_path ?p) u1 = Inr u2"
    and 3: "if_matched (p_query ?p) set_query u2 = Inr u3" and 4: "if_matched (p_fragment ?p) set_fragment u3 = Inr u'"
    by (auto simp: fill_def bindR_eq_Inr split: if_splits)
  have "u_path u' = u_path u2" "m_has_authority u' = m_has_authority u2"
    using 3 4 by (auto simp: if_matched_def set_query_def set_fragment_def bindR_eq_Inr split: option.splits)
  moreover obtain e where "u2 = u1\<lparr>u_path := (if m_has_authority u1 then set_absolute True (path_assign e) else path_assign e)\<rparr>"
    using set_path_total [of "p_path ?p" u1] 2 by auto
  ultimately show "path_wf (u_path u')" using assms(2) path_wf_assign by simp
qed

text \<open>Where parsing ends in an exception.\<close>

lemma as_parse_error_Inl: "as_parse_error r = Inl e \<Longrightarrow> e = UrlParseError \<or> r = Inl e \<and> (e = AssertFailed \<or> e = Undefined)"
  by (auto simp: as_parse_error_def split: sum.splits if_splits)

lemma set_host_Inl: "set_host B s u = Inl e \<Longrightarrow> e = UrlParseError"
  by (auto simp: set_host_def as_parse_error_def valid_host_iff escape_toks split: if_splits)

lemma set_port_Inl: "set_port B s u = Inl e \<Longrightarrow> e = UrlParseError"
  by (auto simp: set_port_def as_parse_error_def split: if_splits option.splits)

lemma authority_host_Inl:
  assumes "authority_host B s k u = Inl e"
  shows "e = UrlParseError \<or> e = AssertFailed \<and> prefix ''[]'' (drop k s)"
proof (cases "char_at s k = CHR ''[''")
  case True
  show ?thesis
  proof (cases "sfind (\<lambda>c. c = CHR '']'') s (k + 1)")
    case None
    with True assms show ?thesis by (auto simp: authority_host_def Let_def split: if_splits)
  next
    case (Some i)
    note i = sfind_Some [OF Some]
    show ?thesis
    proof (cases "i = k + 1")
      case eq: True
      have "drop k s = CHR ''['' # CHR '']'' # drop (k + 2) s"
        using i True eq by (auto simp: char_at_def Cons_nth_drop_Suc [symmetric])
      then have "prefix ''[]'' (drop k s)" by simp
      moreover have "e = UrlParseError \<or> e = AssertFailed"
        using assms True Some eq by (auto simp: authority_host_def Let_def split: if_splits)
      ultimately show ?thesis by blast
    next
      case False
      then have "k + 1 < i" using i(1) by simp
      with assms True Some i(2) show ?thesis
        by (auto simp: authority_host_def Let_def dest: set_host_Inl split: if_splits)
    qed
  qed
next
  case False
  with assms show ?thesis
    by (auto simp: authority_host_def bindR_def dest: set_host_Inl set_port_Inl split: option.splits if_splits sum.splits)
qed

lemma set_authority_Inl:
  assumes "set_authority B s u = Inl e"
  shows "e = UrlParseError \<or>
    e = AssertFailed \<and> (prefix ''@'' s \<or> (\<exists>ui r. s = ui @ ''[]'' @ r \<and> (ui = [] \<or> last ui = CHR ''@'')))"
proof (cases "sfind (\<lambda>c. c = CHR ''@'') s 0")
  case None
  then have "as_parse_error (authority_host B s 0 u) = Inl e" using assms by (simp add: set_authority_def)
  then have "e = UrlParseError \<or> authority_host B s 0 u = Inl e" using as_parse_error_Inl by blast
  with authority_host_Inl [of s 0 u e] have "e = UrlParseError \<or> e = AssertFailed \<and> prefix ''[]'' s" by auto
  moreover have "prefix ''[]'' s \<Longrightarrow> \<exists>r. s = [] @ ''[]'' @ r" by (auto simp: prefix_def)
  ultimately show ?thesis by blast
next
  case (Some i)
  note i = sfind_Some [OF Some]
  show ?thesis
  proof (cases "i = 0")
    case True
    then have "prefix ''@'' s" using i by (cases s) auto
    with assms Some True show ?thesis by (simp add: set_authority_def as_parse_error_def)
  next
    case False
    have "\<exists>u'. set_userinfo (substr s 0 i) u = Inr u'" by (simp add: set_userinfo_def escape_toks)
    then obtain u' where "set_userinfo (substr s 0 i) u = Inr u'" by blast
    with assms Some False have "e = UrlParseError \<or> authority_host B s (i + 1) u' = Inl e"
      by (auto simp: set_authority_def dest!: as_parse_error_Inl split: if_splits)
    then consider "e = UrlParseError" | "e = AssertFailed" "prefix ''[]'' (drop (i + 1) s)"
      using authority_host_Inl by blast
    then show ?thesis
    proof cases
      case 2
      then obtain r where r: "drop (i + 1) s = ''[]'' @ r" by (auto simp: prefix_def)
      have "s = take (i + 1) s @ ''[]'' @ r" using r append_take_drop_id [of "i + 1" s] by simp
      moreover have "last (take (i + 1) s) = CHR ''@''" using i(2,3) by (simp add: take_Suc_conv_app_nth)
      ultimately show ?thesis using 2(1) by blast
    qed simp
  qed
qed

lemma syntax_ok_total: "\<exists>b. syntax_ok B w = Inr b"
  by (cases "syntax_ok B w") (simp_all add: syntax_ok_def valid_host_iff split: if_splits)

lemma url_assign_Inl:
  assumes "url_assign B s u = Inl e"
  shows "e = UrlParseError \<or> e = AssertFailed \<and> (\<exists>a. p_auth (split_url s) = Some a
      \<and> (prefix ''@'' a \<or> (\<exists>ui r. a = ui @ ''[]'' @ r \<and> (ui = [] \<or> last ui = CHR ''@''))))"
proof -
  let ?p = "split_url s"
  have q: "\<exists>u'. if_matched (p_query ?p) set_query w = Inr u'" for w
    using set_query_ok by (auto simp: if_matched_def split: option.split)
  have f: "\<exists>u'. if_matched (p_fragment ?p) set_fragment w = Inr u'" for w
    using set_fragment_ok by (auto simp: if_matched_def split: option.split)
  have fill: "e = UrlParseError \<or> (\<exists>a. p_auth ?p = Some a \<and> set_authority B a w = Inl e)" if "fill ?p w = Inl e" for w
  proof (cases "p_auth ?p = Some [] \<and> m_scheme w \<noteq> [] \<and> m_scheme w \<noteq> ''file''")
    case True
    with that show ?thesis by (simp add: fill_def)
  next
    case ok: False
    show ?thesis
    proof (cases "if_matched (p_auth ?p) (set_authority B) w")
      case (Inl x)
      then have "x = e" using that ok by (simp add: fill_def)
      with Inl show ?thesis by (cases "p_auth ?p") (simp_all add: if_matched_def)
    next
      case (Inr w1)
      obtain w2 where w2: "set_path (p_path ?p) w1 = Inr w2" using set_path_total by blast
      obtain w3 where w3: "if_matched (p_query ?p) set_query w2 = Inr w3" using q by blast
      obtain w4 where w4: "if_matched (p_fragment ?p) set_fragment w3 = Inr w4" using f by blast
      with that ok Inr w2 w3 w4 show ?thesis by (simp add: fill_def)
    qed
  qed
  have sc: "if_matched (p_scheme ?p) (set_scheme B) url_init = Inl x \<Longrightarrow> x = UrlParseError" for x
    by (auto simp: if_matched_def set_scheme_def as_parse_error_def split: option.splits if_splits)
  consider "e = UrlParseError" | w where "fill ?p w = Inl e"
  proof (cases "if_matched (p_scheme ?p) (set_scheme B) url_init")
    case (Inl x)
    then have "x = e" using assms by (simp add: url_assign_fill)
    with sc [OF Inl] that show thesis by simp
  next
    case w: (Inr w)
    show thesis
    proof (cases "fill ?p w")
      case (Inl x)
      then have "x = e" using assms w by (simp add: url_assign_fill)
      with that Inl show thesis by simp
    next
      case (Inr w')
      obtain b where "syntax_ok B w' = Inr b" using syntax_ok_total by blast
      with assms w Inr have "e = UrlParseError" by (simp add: url_assign_fill valid_host_iff split: if_splits)
      with that show thesis by simp
    qed
  qed
  then show ?thesis
  proof cases
    case 2
    from fill [OF this] set_authority_Inl show ?thesis by blast
  qed simp
qed

text \<open>A URL with a scheme other than \<^verbatim>\<open>file\<close> and an empty host prints as one that is not parsed.\<close>

lemma url_normalize_empty_host:
  assumes "url_wf u" "m_host u = []" "m_scheme u \<noteq> []" "m_scheme u \<noteq> ''file''"
  shows "url_normalize B u = Inl RuntimeError"
proof -
  let ?u = "norm_url (lower_host u)"
  have wf1: "url_wf (lower_host u)" using assms(1) by (rule url_wf_lower_host)
  have wf2: "url_wf ?u" using wf1 by (rule url_wf_norm)
  have sc: "m_scheme ?u = m_scheme u" "m_host ?u = []"
    using assms(2) by (simp_all add: norm_url_def lower_host_def)
  have a: "m_has_authority ?u" using wf2 sc assms(3) by (simp add: url_wf_def)
  have low: "map tolower (m_scheme u) = m_scheme u" "m_scheme u \<in> lang RE_SCHEME"
    using assms(1,3) by (simp_all add: url_wf_def)
  have "get_authority ?u = []" using sc by (simp add: get_authority_def)
  then have fail: "url_assign B (url_get ?u) w = Inl UrlParseError" for w
    using assms(3,4) low sc(1)
    by (simp add: url_assign_fill split_url_get [OF wf2 a] if_matched_def set_scheme_def regex_match_None
        as_parse_error_def to_lower_map fill_def)
  have "normalize_scheme B u = u" using low(1) by (cases u) (simp add: normalize_scheme_def to_lower_map)
  moreover have "normalize_host u = lower_host u" by (simp add: normalize_host_lower lower_host_def)
  moreover have "url_normalize_escapes B (lower_host u) = Inl RuntimeError"
    using norm_str_url_get [OF wf1] fail
    by (simp add: url_normalize_escapes_def normalize_escapes_toks flip: norm_str_def)
  ultimately show ?thesis by (simp add: url_normalize_def)
qed

end

section \<open>Properties\<close>

text \<open>C7. Parsing establishes the invariant of the class: whatever string \<^verbatim>\<open>Url(s)\<close> accepts, the object has
  a lower-case scheme of the scheme grammar or none, a host that one of the four host patterns
  accepts, a port between 1 and 65535 or none, an absolute path when it has an authority, and in every
  component no character of the component's mask outside of a valid escape.\<close>

theorem url_parse_invariant:
  assumes "boost_lib B" "url_of B s = Inr u"
  shows "url_wf u"
  using boost_lib.url_assign_wf [OF assms(1), of s url_init u] assms(2) by (simp add: url_of_def)

theorem url_parse_invariant_witness:
  "\<exists>u. url_of boost_ref ''HTTP://me@A.b:80/x y?q#f'' = Inr u \<and> url_wf u"
proof -
  have "\<exists>u. url_of boost_ref ''HTTP://me@A.b:80/x y?q#f'' = Inr u"
    by (rule exI [of _ "\<lparr>u_path = \<lparr>segmt = [''x%20y''], slash_begin = True, slash_end = False\<rparr>, m_suspicious = False,
      m_scheme = ''http'', m_has_authority = True, m_host_ip_literal = False, m_userinfo = ''me'', m_host = ''A.b'',
      m_port = ''80'', m_query = ''?q'', m_fragment = ''#f''\<rparr>"]) code_simp
  then show ?thesis using url_parse_invariant [OF ref.boost_lib_axioms] by blast
qed

text \<open>C11. Printing and parsing: the string of a parsed URL that has an authority, and a host unless its
  scheme is \<^verbatim>\<open>file\<close> or missing, is parsed again, to a URL that prints the same string.\<close>

theorem url_reparse:
  assumes "boost_lib B" "url_of B s = Inr u" "m_has_authority u"
    and "m_host u = [] \<longrightarrow> m_scheme u = [] \<or> m_scheme u = ''file''"
  shows "\<exists>v. url_of B (url_get u) = Inr v \<and> url_get v = url_get u"
proof -
  have wf: "url_wf u" using boost_lib.url_assign_wf [OF assms(1)] assms(2) by (auto simp: url_of_def)
  then have "segs_ok (segmt (u_path u))" "slash_begin (u_path u)" using assms(3) by (simp_all add: url_wf_def)
  from path_get_reassign [OF this] boost_lib.url_assign_get [OF assms(1) wf assms(3,4)]
  show ?thesis by (auto simp: url_of_def url_get_def get_path_def get_authority_def has_authority_def)
qed

theorem url_reparse_witness:
  "\<exists>u v. url_of boost_ref ''http://a.b'' = Inr u \<and> url_of boost_ref (url_get u) = Inr v \<and> url_get v = url_get u"
proof -
  let ?u = "\<lparr>u_path = \<lparr>segmt = [], slash_begin = True, slash_end = False\<rparr>, m_suspicious = False,
      m_scheme = ''http'', m_has_authority = True, m_host_ip_literal = False, m_userinfo = [], m_host = ''a.b'',
      m_port = [], m_query = [], m_fragment = []\<rparr>"
  have "url_of boost_ref ''http://a.b'' = Inr ?u" by code_simp
  with url_reparse [OF ref.boost_lib_axioms this] show ?thesis by auto
qed

text \<open>C12. Normalisation does not fail on the URLs a crawler visits: a parsed URL with a host is normalised,
  the result satisfies the invariant again, keeps scheme and port, and its path is normal.\<close>

theorem url_normalize_total:
  assumes "boost_lib B" "url_of B s = Inr u" "m_host u \<noteq> []"
  shows "\<exists>v. url_normalize B u = Inr v \<and> url_wf v \<and> m_scheme v = m_scheme u \<and> m_port v = m_port u
    \<and> normal_segs (segmt (u_path v))"
proof -
  have wf: "url_wf u" using boost_lib.url_assign_wf [OF assms(1)] assms(2) by (auto simp: url_of_def)
  then have "m_has_authority u" using assms(3) by (auto simp: url_wf_def)
  with boost_lib.url_normalize_result [OF assms(1) wf] assms(3) show ?thesis
    by (auto simp: normalize_path_def reparsed_def norm_url_def lower_host_def path_normalize_nf)
qed

theorem url_normalize_total_witness:
  "\<exists>u v. url_of boost_ref ''http://A.b/%7ex/../y'' = Inr u \<and> url_normalize boost_ref u = Inr v \<and> url_wf v
    \<and> normal_segs (segmt (u_path v))"
proof -
  let ?u = "\<lparr>u_path = \<lparr>segmt = [''%7ex'', ''..'', ''y''], slash_begin = True, slash_end = False\<rparr>, m_suspicious = False,
      m_scheme = ''http'', m_has_authority = True, m_host_ip_literal = False, m_userinfo = [], m_host = ''A.b'',
      m_port = [], m_query = [], m_fragment = []\<rparr>"
  have "url_of boost_ref ''http://A.b/%7ex/../y'' = Inr ?u" by code_simp
  with url_normalize_total [OF ref.boost_lib_axioms this] show ?thesis by auto
qed

text \<open>C13. Normalisation is idempotent on parsed URLs whose host has no escapes.\<close>

theorem url_normalize_idempotent:
  assumes "boost_lib B" "url_of B s = Inr u" "m_host u \<noteq> []" "CHR ''%'' \<notin> set (m_host u)"
  shows "\<exists>v w. url_normalize B u = Inr v \<and> url_normalize B v = Inr w \<and> url_get w = url_get v"
proof -
  let ?v = "normalize_path (reparsed (norm_url (lower_host u)))"
  have wf: "url_wf u" using boost_lib.url_assign_wf [OF assms(1)] assms(2) by (auto simp: url_of_def)
  then have au: "m_has_authority u" using assms(3) by (auto simp: url_wf_def)
  note r = boost_lib.url_normalize_result [OF assms(1) wf au] and fix1 = norm_url_fixed [OF wf au assms(4)]
  have v: "m_has_authority ?v" "m_host ?v \<noteq> []" "normal_segs (segmt (u_path ?v))"
    using au assms(3)
    by (simp_all add: normalize_path_def reparsed_def norm_url_def lower_host_def path_normalize_nf norm_str_eq_Nil)
  have "url_normalize B ?v = Inr (normalize_path (reparsed ?v))"
    using boost_lib.url_normalize_result(1) [OF assms(1) r(2) v(1)] v(2) fix1 assms(3) by simp
  moreover have "url_get (normalize_path (reparsed ?v)) = url_get ?v"
    using r(2) v assms(3) by (intro url_get_renormalized) simp_all
  ultimately show ?thesis using r(1) assms(3) by blast
qed

theorem url_normalize_idempotent_witness:
  "\<exists>u v w. url_of boost_ref ''http://a.b/%7ex/../y'' = Inr u \<and> url_normalize boost_ref u = Inr v
    \<and> url_normalize boost_ref v = Inr w \<and> url_get w = url_get v"
proof -
  let ?u = "\<lparr>u_path = \<lparr>segmt = [''%7ex'', ''..'', ''y''], slash_begin = True, slash_end = False\<rparr>, m_suspicious = False,
      m_scheme = ''http'', m_has_authority = True, m_host_ip_literal = False, m_userinfo = [], m_host = ''a.b'',
      m_port = [], m_query = [], m_fragment = []\<rparr>"
  have "url_of boost_ref ''http://a.b/%7ex/../y'' = Inr ?u" by code_simp
  with url_normalize_idempotent [OF ref.boost_lib_axioms this] show ?thesis by auto
qed

text \<open>Section 5.2.2 of RFC 3986 for a reference without scheme and authority: the path of the target.\<close>

definition target_path :: "string \<Rightarrow> string \<Rightarrow> string" where
  "target_path base ref =
     (if ref = [] then base
      else if hd ref = CHR ''/'' then remove_dot_segments ref
      else remove_dot_segments (dirname base @ ref))"

lemma path_get_hd:
  assumes "path_wf p"
  shows "path_get p = [] \<longleftrightarrow> path_empty p" "path_get p \<noteq> [] \<Longrightarrow> hd (path_get p) = CHR ''/'' \<longleftrightarrow> slash_begin p"
proof -
  have ok: "segs_ok (segmt p)" using assms by (simp add: path_wf_def)
  show "path_get p = [] \<longleftrightarrow> path_empty p"
    using join_eq_Nil [OF ok] ok by (cases "segmt p = []") (auto simp: path_get_no_segs path_get_join path_empty_def)
  show "path_get p \<noteq> [] \<Longrightarrow> hd (path_get p) = CHR ''/'' \<longleftrightarrow> slash_begin p"
    using join_hd [OF ok] join_eq_Nil [OF ok] ok assms
    by (cases "segmt p = []") (auto simp: path_get_no_segs path_get_join path_wf_def)
qed

lemma merge_target:
  assumes "segs_ok (segmt b)" "slash_begin b" "\<forall>x\<in>set (segmt b). \<not> is_dots x" "path_wf p" "\<not> path_empty p"
    and "slash_begin p \<Longrightarrow> \<forall>x\<in>set (segmt p). \<not> is_dots x"
  shows "path_get (merge b p) = target_path (path_get b) (path_get p)"
proof -
  note h = path_get_hd [OF assms(4)]
  have ne: "path_get p \<noteq> []" using h(1) assms(5) by simp
  have ok: "segs_ok (segmt p)" using assms(4) by (simp add: path_wf_def)
  show ?thesis
  proof (cases "slash_begin p")
    case True
    have "remove_dot_segments (path_get p) = path_get p"
    proof (cases "segmt p = []")
      case True
      then show ?thesis using \<open>slash_begin p\<close> by (simp add: path_get_no_segs remove_dot_segments_def rds_root)
    next
      case False
      have "\<not> is_dots (last (segmt p))" using assms(6) [OF True] False by simp
      then show ?thesis using rds_slashed [OF ok, of "[]" "slash_end p"] False True ok walk_names [OF assms(6) [OF True], of "[]"]
        by (simp add: path_get_slashed remove_dot_segments_def)
    qed
    then show ?thesis using True h(2) ne by (simp add: target_path_def merge_def)
  next
    case False
    then have "segmt p \<noteq> []" using assms(4,5) by (auto simp: path_wf_def path_empty_def)
    from merge_resolves [OF assms(1) ok assms(2) False this assms(3)] show ?thesis using False h(2) ne by (simp add: target_path_def)
  qed
qed

text \<open>C9. The merge with a reference that has no scheme and no authority is the resolution of section 5.2.2 of RFC 3986, for parsed
  URLs, when the base is absolute and its path has no dot segments, and neither has the path of the reference when it
  starts with a slash. The target keeps scheme and authority of the base; its path is the one of the base, the one
  of the reference or the two joined without dot segments; the query of the base stays when the reference has neither path nor
  query; the fragment is the one of the reference; and the target satisfies the invariant.\<close>

theorem url_merge_ref:
  assumes "boost_lib B" "url_of B s = Inr u" "absolute u" "url_of B t = Inr r" "\<not> absolute r" "\<not> m_has_authority r"
    and "\<forall>x\<in>set (segmt (u_path u)). \<not> is_dots x" "slash_begin (u_path r) \<longrightarrow> (\<forall>x\<in>set (segmt (u_path r)). \<not> is_dots x)"
  shows "\<exists>v. merge_ref B u r = Inr v \<and> url_wf v \<and> m_scheme v = m_scheme u \<and> get_authority v = get_authority u
    \<and> get_path v = target_path (get_path u) (get_path r)
    \<and> m_query v = (if get_path r = [] \<and> m_query r = [] then m_query u else m_query r) \<and> m_fragment v = m_fragment r"
proof -
  have wf: "url_wf u" "url_wf r" "path_wf (u_path r)"
    using boost_lib.url_assign_wf [OF assms(1)] boost_lib.url_assign_path_wf [OF assms(1)] assms(2,4,6) by (auto simp: url_of_def)
  have p: "segs_ok (segmt (u_path u))" "slash_begin (u_path u)" using wf assms(3) by (auto simp: url_wf_def absolute_def)
  have e: "get_path r = [] \<longleftrightarrow> path_empty (u_path r)" using path_get_hd(1) [OF wf(3)] by (simp add: get_path_def)
  show ?thesis
  proof (cases "path_empty (u_path r)")
    case True
    note m = boost_lib.merge_ref_no_path [OF assms(1,3) wf(2) assms(5,6) True]
      and v = boost_lib.merge_ref_no_path_wf [OF assms(1) wf(1,2)]
    show ?thesis unfolding m using v True e by (simp add: get_authority_def get_path_def target_path_def)
  next
    case False
    note m = boost_lib.merge_ref_path [OF assms(1) wf(1) assms(3) wf(2) assms(5,6) False]
      and v = boost_lib.merge_ref_wf [OF assms(1) wf(1) assms(3) wf(2) assms(6)]
      and g = merge_target [OF p assms(7) wf(3) False]
    show ?thesis unfolding m using v g assms(8) False e by (simp add: get_authority_def get_path_def)
  qed
qed

theorem url_merge_ref_witness:
  "\<exists>u r v. url_of boost_ref ''http://a.b/c/d'' = Inr u \<and> url_of boost_ref ''../x?q'' = Inr r
    \<and> merge_ref boost_ref u r = Inr v \<and> url_wf v \<and> m_query v = m_query r
    \<and> get_path v = target_path (get_path u) (get_path r) \<and> get_path v = ''/x''"
proof -
  let ?u = "\<lparr>u_path = \<lparr>segmt = [''c'', ''d''], slash_begin = True, slash_end = False\<rparr>, m_suspicious = False,
      m_scheme = ''http'', m_has_authority = True, m_host_ip_literal = False, m_userinfo = [], m_host = ''a.b'',
      m_port = [], m_query = [], m_fragment = []\<rparr>"
  let ?r = "\<lparr>u_path = \<lparr>segmt = [''..'', ''x''], slash_begin = False, slash_end = False\<rparr>, m_suspicious = False,
      m_scheme = [], m_has_authority = False, m_host_ip_literal = False, m_userinfo = [], m_host = [],
      m_port = [], m_query = ''?q'', m_fragment = []\<rparr>"
  have u: "url_of boost_ref ''http://a.b/c/d'' = Inr ?u" by code_simp
  have r: "url_of boost_ref ''../x?q'' = Inr ?r" by code_simp
  have "\<exists>v. merge_ref boost_ref ?u ?r = Inr v \<and> url_wf v \<and> m_scheme v = m_scheme ?u \<and> get_authority v = get_authority ?u
    \<and> get_path v = target_path (get_path ?u) (get_path ?r)
    \<and> m_query v = (if get_path ?r = [] \<and> m_query ?r = [] then m_query ?u else m_query ?r) \<and> m_fragment v = m_fragment ?r"
    by (rule url_merge_ref [OF ref.boost_lib_axioms u _ r]) (simp_all add: absolute_def is_dots_def)
  then obtain v where "merge_ref boost_ref ?u ?r = Inr v \<and> url_wf v \<and> m_query v = m_query ?r
    \<and> get_path v = target_path (get_path ?u) (get_path ?r)" by auto
  moreover have "target_path (get_path ?u) (get_path ?r) = ''/x''" by code_simp
  ultimately show ?thesis using u r by auto
qed

text \<open>The merge refuses every other combination with a \<^verbatim>\<open>runtime_error\<close>: a base that is not absolute,
  or a reference that is.\<close>

theorem url_merge_ref_refused:
  assumes "boost_lib B" "url_of B t = Inr r" "\<not> (absolute u \<and> \<not> absolute r)"
  shows "merge_ref B u r = Inl RuntimeError"
proof -
  have "url_wf r" using boost_lib.url_assign_wf [OF assms(1)] assms(2) by (auto simp: url_of_def)
  from boost_lib.syntax_ok_wf [OF assms(1) this] show ?thesis using assms(3) by (auto simp: merge_ref_def)
qed

theorem url_merge_ref_refused_witness: "\<exists>r. url_of boost_ref ''x'' = Inr r \<and> merge_ref boost_ref url_init r = Inl RuntimeError"
proof -
  have "url_of boost_ref ''x'' = Inr (url_init\<lparr>u_path := \<lparr>segmt = [''x''], slash_begin = False, slash_end = False\<rparr>\<rparr>)"
    by code_simp
  with url_merge_ref_refused [OF ref.boost_lib_axioms this, of url_init] show ?thesis
    by (auto simp: absolute_def url_init_def)
qed

text \<open>C19. Parsing fails only with \<^verbatim>\<open>UrlParseError\<close>, but for two authorities that stop the program in an
  assertion: one that starts with the at sign, and one whose bracketed literal is empty.\<close>

theorem url_parse_errors:
  assumes "boost_lib B" "url_of B s = Inl e"
  shows "e = UrlParseError \<or> e = AssertFailed \<and> (\<exists>a. p_auth (split_url s) = Some a
      \<and> (prefix ''@'' a \<or> (\<exists>ui r. a = ui @ ''[]'' @ r \<and> (ui = [] \<or> last ui = CHR ''@''))))"
  using boost_lib.url_assign_Inl [OF assms(1)] assms(2) by (simp add: url_of_def)

theorem url_parse_errors_witness:
  "url_of boost_ref ''http://@h/'' = Inl AssertFailed
   \<and> (\<exists>a. p_auth (split_url ''http://@h/'') = Some a
      \<and> (prefix ''@'' a \<or> (\<exists>ui r. a = ui @ ''[]'' @ r \<and> (ui = [] \<or> last ui = CHR ''@''))))"
proof -
  have "url_of boost_ref ''http://@h/'' = Inl AssertFailed" by code_simp
  with url_parse_errors [OF ref.boost_lib_axioms this] show ?thesis by simp
qed

text \<open>\<^verbatim>\<open>size\<close> is the length of the printed URL.\<close>

theorem url_size_get: "url_size u = length (url_get u)"
  by (simp add: url_size_def url_get_def)

text \<open>C21. \<^verbatim>\<open>port_int\<close> of a parsed URL with a port returns a number between 1 and 65535.\<close>

theorem url_port_range:
  assumes "boost_lib B" "url_of B s = Inr u" "m_port u \<noteq> []"
  shows "\<exists>n. port_int u = Inr n \<and> 0 < n \<and> n < 2 ^ 16"
proof -
  have "url_wf u" using boost_lib.url_assign_wf [OF assms(1)] assms(2) by (auto simp: url_of_def)
  then have "\<forall>c\<in>set (m_port u). isdigit c" "length (m_port u) \<le> 5" "0 < decimal (m_port u)" "decimal (m_port u) < 2 ^ 16"
    using assms(3) by (simp_all add: url_wf_def auth_wf_def port_ok_def)
  with assms(3) show ?thesis by (simp add: port_int_def stream_int_digits)
qed

theorem url_port_range_witness:
  "\<exists>u n. url_of boost_ref ''http://a:8080/'' = Inr u \<and> port_int u = Inr n \<and> 0 < n \<and> n < 2 ^ 16"
proof -
  let ?u = "\<lparr>u_path = \<lparr>segmt = [], slash_begin = True, slash_end = True\<rparr>, m_suspicious = False,
      m_scheme = ''http'', m_has_authority = True, m_host_ip_literal = False, m_userinfo = [], m_host = ''a'',
      m_port = ''8080'', m_query = [], m_fragment = []\<rparr>"
  have "url_of boost_ref ''http://a:8080/'' = Inr ?u" by code_simp
  with url_port_range [OF ref.boost_lib_axioms this] show ?thesis by auto
qed

text \<open>C20. A parsed URL with a scheme other than \<^verbatim>\<open>file\<close> and without a host, such as \<^verbatim>\<open>http:foo\<close>, cannot be normalised: \<^verbatim>\<open>normalize\<close>
  throws a \<^verbatim>\<open>runtime_error\<close>.\<close>

theorem url_normalize_throws:
  assumes "boost_lib B" "url_of B s = Inr u" "m_host u = []" "m_scheme u \<noteq> []" "m_scheme u \<noteq> ''file''"
  shows "url_normalize B u = Inl RuntimeError"
proof -
  have "url_wf u" using boost_lib.url_assign_wf [OF assms(1)] assms(2) by (auto simp: url_of_def)
  with boost_lib.url_normalize_empty_host [OF assms(1)] assms(3-5) show ?thesis by blast
qed

theorem url_normalize_throws_witness:
  "\<exists>u. url_of boost_ref ''http:foo'' = Inr u \<and> url_get u = ''http:///foo'' \<and> url_normalize boost_ref u = Inl RuntimeError"
proof -
  let ?u = "\<lparr>u_path = \<lparr>segmt = [''foo''], slash_begin = True, slash_end = False\<rparr>, m_suspicious = False,
      m_scheme = ''http'', m_has_authority = True, m_host_ip_literal = False, m_userinfo = [], m_host = [],
      m_port = [], m_query = [], m_fragment = []\<rparr>"
  have u: "url_of boost_ref ''http:foo'' = Inr ?u" by code_simp
  have "url_normalize boost_ref ?u = Inl RuntimeError"
    by (rule url_normalize_throws [OF ref.boost_lib_axioms u]) simp_all
  moreover have "url_get ?u = ''http:///foo''" by code_simp
  ultimately show ?thesis using u by blast
qed

section \<open>Edges\<close>

text \<open>The port after a bracketed literal is dropped without an error.\<close>

lemma ip_literal_port_dropped:
  "map_sum id url_get (url_of boost_ref ''http://[::1]:80/'') = Inr ''http://[::1]/''"
  by code_simp

text \<open>The octet pattern of embedded IPv4 addresses accepts 240 but not 241 to 249.\<close>

lemma ipv4_octet_typo:
  "valid_host boost_ref ''::240.0.0.1'' = Inr True \<and> valid_host boost_ref ''::241.0.0.1'' = Inr False"
  by code_simp

text \<open>The pattern of future literals wants the digit 1 after the dot.\<close>

lemma ipvfuture_needs_1:
  "valid_host boost_ref ''v1.fe:80'' = Inr False \<and> valid_host boost_ref ''v1.1fe:80'' = Inr True"
  by code_simp

text \<open>The host is lowered before its escapes are decoded: a second call changes the result of the first.\<close>

lemma normalize_host_escapes_twice:
  "bindR (url_of boost_ref ''http://%41.com/'') (\<lambda>u. bindR (url_normalize boost_ref u) (\<lambda>v.
     bindR (url_normalize boost_ref v) (\<lambda>w. Inr (url_get v, url_get w)))) = Inr (''http://A.com/'', ''http://a.com/'')"
  by code_simp

text \<open>A reference with an authority keeps userinfo and port of the base, and the brackets of a literal.\<close>

lemma merge_ref_keeps_userinfo:
  "bindR (url_of boost_ref ''http://u@a:81/'') (\<lambda>u. bindR (url_of boost_ref ''//b/x'') (\<lambda>r.
     map_sum id url_get (merge_ref boost_ref u r))) = Inr ''http://u@b:81/x''"
  by code_simp

lemma merge_ref_keeps_brackets:
  "bindR (url_of boost_ref ''http://[::1]/'') (\<lambda>u. bindR (url_of boost_ref ''//b/x'') (\<lambda>r.
     map_sum id url_get (merge_ref boost_ref u r))) = Inr ''http://[b]/x''"
  by code_simp

end
