(* ===== verification/Robots.thy ===== *)
theory Robots
  imports Url
begin

text \<open>
  Robots exclusion: the class \<^verbatim>\<open>robots::Robots\<close> of \<^verbatim>\<open>src/crawler/Robots.hh\<close> and \<^verbatim>\<open>src/crawler/Robots.cc\<close> with
  the scanner of \<^verbatim>\<open>src/crawler/robots.ll\<close>. The scanner takes at every position the rule with the longest
  match, the first one among equals, as flex documents; a rule that starts with a caret applies at
  the beginning of a line. The properties: the decision of \<open>path_allowed\<close> is the one of the first group
  that names the agent and the first of its rules for the path, and scanning a file gives the groups in
  the order of the file.
\<close>

section \<open>The class\<close>

datatype robots_state_t = EMPTY | PRESENT | NOT_AVAILABLE | EPARSE

datatype rule_type_t = DISALLOW | ALLOW | CRAWL_DELAY

record Rule =
  rule_type :: rule_type_t
  rule_str :: string

datatype rstate_t = START | READING_UAS | RULES | STATE_EOF

record Uas_rules =
  ua :: "string list"
  rules :: "Rule list"

definition uas_clear :: Uas_rules where
  "uas_clear = \<lparr>ua = [], rules = []\<rparr>"

definition uas_empty :: "Uas_rules \<Rightarrow> bool" where
  "uas_empty g \<longleftrightarrow> ua g = []"

record robots =
  valid :: bool
  errors :: string
  rstate :: rstate_t
  current :: Uas_rules
  uas_rules_all :: "Uas_rules list"

definition robots_init :: robots where
  "robots_init = \<lparr>valid = False, errors = [], rstate = START, current = uas_clear, uas_rules_all = []\<rparr>"

definition robots_clear :: "robots \<Rightarrow> robots" where
  "robots_clear r = r\<lparr>current := uas_clear, uas_rules_all := [], rstate := START\<rparr>"

definition start_state :: "robots \<Rightarrow> robots" where
  "start_state r = r\<lparr>rstate := START\<rparr>"

definition rules_state :: "robots \<Rightarrow> robots" where
  "rules_state r = r\<lparr>rstate := RULES\<rparr>"

definition reading_uas :: "robots \<Rightarrow> robots" where
  "reading_uas r =
     (let r = (if rstate r = RULES
               then r\<lparr>uas_rules_all := uas_rules_all r @ [current r], current := uas_clear, valid := True\<rparr>
               else r)
      in r\<lparr>rstate := READING_UAS\<rparr>)"

definition eof :: "robots \<Rightarrow> robots" where
  "eof r =
     (let r = (if \<not> uas_empty (current r)
               then r\<lparr>uas_rules_all := uas_rules_all r @ [current r], current := uas_clear, valid := True\<rparr>
               else r)
      in r\<lparr>rstate := STATE_EOF\<rparr>)"

section \<open>The decision\<close>

definition clean_path :: "string \<Rightarrow> string res" where
  "clean_path p = bindR (escape p URL_CHAR_PATH) (\<lambda>e. unescape_not e URL_CHAR_PATH)"

text \<open>\<^verbatim>\<open>s.compare(0, s.size(), t) == 0\<close>: the whole of \<open>s\<close> is compared with the whole of \<open>t\<close>.\<close>

definition compare_eq :: "string \<Rightarrow> string \<Rightarrow> bool" where
  "compare_eq s t \<longleftrightarrow> take (length s) s = t"

fun rules_loop :: "Rule list \<Rightarrow> string \<Rightarrow> bool" where
  "rules_loop [] path = True"
| "rules_loop (r # rs) path = (if compare_eq (rule_str r) path then rule_type r = ALLOW else rules_loop rs path)"

text \<open>\<open>None\<close> when no agent of the group matches and the search goes on.\<close>

fun agents_loop :: "string list \<Rightarrow> Rule list \<Rightarrow> string \<Rightarrow> string \<Rightarrow> bool option" where
  "agents_loop [] rs user_agent path = None"
| "agents_loop (u # us) rs user_agent path =
     (if compare_eq u user_agent \<or> u = ''*'' then Some (rules_loop rs path) else agents_loop us rs user_agent path)"

fun groups_loop :: "Uas_rules list \<Rightarrow> string \<Rightarrow> string \<Rightarrow> bool" where
  "groups_loop [] user_agent path = True"
| "groups_loop (g # gs) user_agent path =
     (case agents_loop (ua g) (rules g) user_agent path of Some b \<Rightarrow> b | None \<Rightarrow> groups_loop gs user_agent path)"

definition path_allowed :: "robots \<Rightarrow> string \<Rightarrow> string \<Rightarrow> bool res" where
  "path_allowed r user_agent p = bindR (clean_path p) (\<lambda>path. Inr (groups_loop (uas_rules_all r) user_agent path))"

text \<open>\<^verbatim>\<open>operator<<\<close>: an enumerator prints as its number.\<close>

definition type_num :: "rule_type_t \<Rightarrow> string" where
  "type_num t = (case t of DISALLOW \<Rightarrow> ''0'' | ALLOW \<Rightarrow> ''1'' | CRAWL_DELAY \<Rightarrow> ''2'')"

definition robots_print :: "robots \<Rightarrow> string" where
  "robots_print r = concat (map (\<lambda>i.
     concat (map (\<lambda>u. ''ua: '' @ u @ [CHR 0x0A]) (ua i))
     @ concat (map (\<lambda>x. type_num (rule_type x) @ '' '' @ rule_str x @ [CHR 0x0A]) (rules i))) (uas_rules_all r))"

section \<open>The scanner\<close>

definition LitI :: "string \<Rightarrow> regex" where
  "LitI s = foldr (\<lambda>c r. Seq (Cls (\<lambda>x. tolower x = tolower c)) r) s Eps"

definition fl_SPACE :: regex where
  "fl_SPACE = Cls (\<lambda>c. c = CHR 0x09 \<or> c = CHR '' '')"

definition fl_NEWLINE :: regex where
  "fl_NEWLINE = Seq (Opt (Cls (\<lambda>c. c = CHR 0x0D))) (Cls (\<lambda>c. c = CHR 0x0A))"

definition fl_dot :: regex where
  "fl_dot = Cls (\<lambda>c. c \<noteq> CHR 0x0A)"

definition fl_COMMENTL :: regex where
  "fl_COMMENTL = Seq (Star fl_SPACE) (Seq (Cls (\<lambda>c. c = CHR ''#'')) (Star fl_dot))"

definition fl_value :: regex where
  "fl_value = Cls (\<lambda>c. c \<noteq> CHR ''#'' \<and> c \<noteq> CHR 0x0A \<and> c \<noteq> CHR 0x0D)"

definition fl_line :: "string \<Rightarrow> regex" where
  "fl_line key = Seq (LitI key) (Seq (Star fl_SPACE) (Seq (Star fl_value) (Seq (Opt fl_COMMENTL) (Opt fl_NEWLINE))))"

text \<open>The rules of the file in their order; the flag says that the pattern starts with a caret.\<close>

datatype rtoken = TComment | TUserAgent | TAllow | TDisallow | TCrawlDelay | TSpace | TUnmatched

definition robots_rules :: "(rtoken \<times> bool \<times> regex) list" where
  "robots_rules =
     [(TComment, False, Seq fl_COMMENTL (Star fl_NEWLINE)),
      (TUserAgent, True, Seq (LitI ''User-agent:'') (Seq (Star fl_SPACE) (Seq (Plus fl_value)
         (Seq (Opt fl_COMMENTL) fl_NEWLINE)))),
      (TAllow, True, fl_line ''Allow:''),
      (TDisallow, True, fl_line ''Disallow:''),
      (TCrawlDelay, True, fl_line ''Crawl-delay:''),
      (TSpace, False, Seq (Star fl_SPACE) fl_NEWLINE),
      (TUnmatched, False, Plus fl_dot)]"

definition longest :: "regex \<Rightarrow> string \<Rightarrow> nat" where
  "longest r s = foldr max (map (\<lambda>(m, rest). length s - length rest) (matches r s Map.empty)) 0"

text \<open>The longest match, the first rule among equals; nothing when no rule matches a character.\<close>

fun best_rule :: "(rtoken \<times> bool \<times> regex) list \<Rightarrow> bool \<Rightarrow> string \<Rightarrow> (rtoken \<times> nat) option" where
  "best_rule [] bol s = None"
| "best_rule ((t, anchored, r) # rs) bol s =
     (let n = (if anchored \<and> \<not> bol then 0 else longest r s) in
      case best_rule rs bol s of
        None \<Rightarrow> if n = 0 then None else Some (t, n)
      | Some (t', n') \<Rightarrow> if n' \<le> n then Some (t, n) else Some (t', n'))"

text \<open>
  The value after the key of a line: from the C string \<^verbatim>\<open>yytext\<close>, without the key, up to a comment sign,
  trimmed.
\<close>

definition cstr :: "string \<Rightarrow> string" where
  "cstr s = takeWhile (\<lambda>c. c \<noteq> CHR 0x00) s"

definition line_value :: "boost \<Rightarrow> nat \<Rightarrow> string \<Rightarrow> string" where
  "line_value B n yytext =
     (let s = drop n (cstr yytext);
          s = (case sfind (\<lambda>c. c = CHR ''#'') s 0 of Some pos \<Rightarrow> take pos s | None \<Rightarrow> s)
      in trim B s)"

definition sgml_tag :: regex where
  "sgml_tag = Seq (Lit ''<'') (Seq (Plus (Cls (\<lambda>c. c \<noteq> CHR ''>''))) (Lit ''>''))"

definition add_rule :: "rule_type_t \<Rightarrow> string \<Rightarrow> robots \<Rightarrow> robots" where
  "add_rule t s r = r\<lparr>current := (current r)\<lparr>rules := rules (current r) @ [\<lparr>rule_type = t, rule_str = s\<rparr>]\<rparr>\<rparr>"

text \<open>The action of a rule; \<open>True\<close> is the \<^verbatim>\<open>return -1\<close> of a file that looks like HTML.\<close>

definition robots_action :: "boost \<Rightarrow> rtoken \<Rightarrow> string \<Rightarrow> robots \<Rightarrow> (bool \<times> robots) res" where
  "robots_action B t yytext r =
     (case t of
        TComment \<Rightarrow> Inr (False, r)
      | TUserAgent \<Rightarrow>
          let ua_name = line_value B 11 yytext; r = reading_uas r in
          Inr (False, r\<lparr>current := (current r)\<lparr>ua := ua (current r) @ [ua_name]\<rparr>\<rparr>)
      | TAllow \<Rightarrow> bindR (clean_path (line_value B 6 yytext)) (\<lambda>rule. Inr (False, add_rule ALLOW rule (rules_state r)))
      | TDisallow \<Rightarrow> bindR (clean_path (line_value B 9 yytext)) (\<lambda>rule. Inr (False, add_rule DISALLOW rule (rules_state r)))
      | TCrawlDelay \<Rightarrow> Inr (False, add_rule CRAWL_DELAY (line_value B 12 yytext) (rules_state r))
      | TSpace \<Rightarrow> Inr (False, r)
      | TUnmatched \<Rightarrow>
          let r = r\<lparr>errors := errors r @ ''unmatched: |'' @ cstr yytext @ ''|'' @ [CHR 0x0A]\<rparr> in
          Inr (rstate r = START \<and> regex_search B sgml_tag (cstr yytext) \<noteq> None, r))"

text \<open>
  \<^verbatim>\<open>yylex\<close>: the value returned and the object. A character that no rule matches is echoed by the default
  rule of flex.
\<close>

function yylex :: "boost \<Rightarrow> bool \<Rightarrow> string \<Rightarrow> robots \<Rightarrow> (int \<times> robots) res" where
  "yylex B bol s r =
     (if s = [] then Inr (0, start_state (eof r))
      else case best_rule robots_rules bol s of
        None \<Rightarrow> yylex B (hd s = CHR 0x0A) (tl s) r
      | Some (t, n) \<Rightarrow>
          bindR (robots_action B t (take n s) r) (\<lambda>(html, r).
            if html then Inr (-1, r)
            else if n = 0 then yylex B bol (tl s) r
            else yylex B (last (take n s) = CHR 0x0A) (drop n s) r))"
  by pat_completeness auto
termination by (relation "measure (\<lambda>(B, bol, s, r). length s)") auto

declare yylex.simps [simp del]

text \<open>\<^verbatim>\<open>Robots_entry\<close> adds what is known of the file of a host.\<close>

record robots_entry = robots +
  estate :: robots_state_t

definition entry_init :: "robots_state_t \<Rightarrow> robots_entry" where
  "entry_init st = robots.extend robots_init \<lparr>estate = st\<rparr>"

definition tried_but_failed :: "robots_entry \<Rightarrow> bool" where
  "tried_but_failed e \<longleftrightarrow> estate e = NOT_AVAILABLE \<or> estate e = EPARSE"

end
