(* ===== verification/Robots_Props.thy ===== *)
theory Robots_Props
  imports Robots
begin

text \<open>
  Lemmas and properties of \<^verbatim>\<open>Robots\<close>: the reference form of the decision, the invariant of the scanner's
  state machine, that scanning a \<^verbatim>\<open>robots.txt\<close> of rule groups gives these groups, and where the
  decision differs from the one documented in \<^verbatim>\<open>Robots.hh\<close>.
\<close>

section \<open>The decision\<close>

definition names_agent :: "string \<Rightarrow> Uas_rules \<Rightarrow> bool" where
  "names_agent user_agent g \<longleftrightarrow> user_agent \<in> set (ua g) \<or> ''*'' \<in> set (ua g)"

lemma compare_eq_iff [simp]: "compare_eq s t \<longleftrightarrow> s = t"
  by (simp add: compare_eq_def)

lemma rules_loop_find:
  "rules_loop rs path = (case List.find (\<lambda>r. rule_str r = path) rs of None \<Rightarrow> True | Some r \<Rightarrow> rule_type r = ALLOW)"
  by (induction rs) auto

lemma agents_loop_iff:
  "agents_loop us rs a path = (if a \<in> set us \<or> ''*'' \<in> set us then Some (rules_loop rs path) else None)"
  by (induction us) auto

lemma groups_loop_find:
  "groups_loop gs a path =
     (case List.find (names_agent a) gs of None \<Rightarrow> True | Some g \<Rightarrow> rules_loop (rules g) path)"
  by (induction gs) (auto simp: agents_loop_iff names_agent_def)

text \<open>The canonical form of a path: the characters special in a path escaped, no others.\<close>

definition robots_tok :: "tok \<Rightarrow> tok" where
  "robots_tok t = unesc_tok (\<lambda>c. \<not> url_char_test c URL_CHAR_PATH) (esc_tok URL_CHAR_PATH t)"

definition cpath :: "string \<Rightarrow> string" where
  "cpath p = untoks (map robots_tok (toks p))"

lemma clean_path_cpath: "clean_path p = Inr (cpath p)"
  by (simp add: clean_path_def escape_toks unescape_not_def unesc_toks url_char_test_def toks_escape
      comp_def robots_tok_def [abs_def] cpath_def)

section \<open>The state machine of the scanner\<close>








section \<open>The longest match\<close>

lemma foldr_max_le: "foldr max xs 0 \<le> (n::nat) \<longleftrightarrow> (\<forall>x\<in>set xs. x \<le> n)"
  by (induction xs) auto

lemma foldr_max_ge: "x \<in> set xs \<Longrightarrow> (x::nat) \<le> foldr max xs 0"
  by (induction xs) auto

lemma longest_le:
  assumes "\<And>w t. w \<in> lang r \<Longrightarrow> s = w @ t \<Longrightarrow> length w \<le> n"
  shows "longest r s \<le> n"
  unfolding longest_def foldr_max_le
proof (intro ballI)
  fix x assume "x \<in> set (map (\<lambda>(m, rest). length s - length rest) (matches r s Map.empty))"
  then obtain m rest where m: "(m, rest) \<in> set (matches r s Map.empty)" "x = length s - length rest" by auto
  from matches_sound [OF this(1)] obtain w where w: "w \<in> lang r" "s = w @ rest" by blast
  with assms [OF this] m(2) show "x \<le> n" by simp
qed

lemma longest_ge:
  assumes "w \<in> lang r"
  shows "length w \<le> longest r (w @ t)"
proof -
  from matches_complete [OF assms, of t Map.empty] obtain m where
    "(m, t) \<in> set (matches r (w @ t) Map.empty)" by blast
  then have "length w \<in> set (map (\<lambda>(m, rest). length (w @ t) - length rest) (matches r (w @ t) Map.empty))"
    by (force simp: image_iff)
  then show ?thesis unfolding longest_def by (rule foldr_max_ge)
qed

lemma best_rule_pos: "best_rule rs bol s = Some (t, n) \<Longrightarrow> 0 < n"
  by (induction rs arbitrary: t n) (auto simp: Let_def split: option.splits if_splits prod.splits)

lemma LitI_simps: "LitI [] = Eps" "LitI (c # s) = Seq (Cls (\<lambda>x. tolower x = tolower c)) (LitI s)"
  by (simp_all add: LitI_def)

lemma lang_LitI: "w \<in> lang (LitI s) \<longleftrightarrow> map tolower w = map tolower s"
proof (induction s arbitrary: w)
  case (Cons c s)
  then show ?case unfolding LitI_simps lang_Seq_Cls by (cases w) simp_all
qed (simp add: LitI_simps)

section \<open>The line of a key\<close>

abbreviation LF :: char where
  "LF \<equiv> CHR 0x0A"

text \<open>The words of the line rules have a line feed at most at their end.\<close>

definition one_line :: "string \<Rightarrow> bool" where
  "one_line w \<longleftrightarrow> LF \<notin> set (butlast w)"

lemma one_line_append: "LF \<notin> set a \<Longrightarrow> one_line b \<Longrightarrow> one_line (a @ b)"
  by (auto simp: one_line_def butlast_append dest: in_set_butlastD)

lemma one_line_nolf: "LF \<notin> set a \<Longrightarrow> one_line a"
  by (auto simp: one_line_def dest: in_set_butlastD)

lemma one_line_prefix:
  assumes "one_line w" and "l @ LF # rest = w @ t"
  shows "length w \<le> length l + 1"
proof (rule ccontr)
  assume "\<not> length w \<le> length l + 1"
  then have n: "length l < length (butlast w)" by simp
  have "(w @ t) ! length l = LF" using assms(2) by (metis nth_append_length)
  moreover have "length l < length w" using n by simp
  ultimately have "butlast w ! length l = LF" using n by (simp add: nth_append nth_butlast)
  then show False using n assms(1) nth_mem unfolding one_line_def by metis
qed

lemma tolower_LF: "tolower c = LF \<longleftrightarrow> c = LF"
  by (auto simp: tolower_def isupper_def char_eq_byte)

lemma LitI_nolf: "w \<in> lang (LitI s) \<Longrightarrow> LF \<notin> set s \<Longrightarrow> LF \<notin> set w"
proof
  assume "w \<in> lang (LitI s)" "LF \<notin> set s" "LF \<in> set w"
  then have m: "map tolower w = map tolower s" by (simp add: lang_LitI)
  have "tolower LF \<in> set (map tolower w)" using \<open>LF \<in> set w\<close> by simp
  then have "LF \<in> tolower ` set s" unfolding m by (simp add: tolower_LF [THEN iffD2])
  then show False using \<open>LF \<notin> set s\<close> by (metis imageE tolower_LF)
qed

lemma fl_SPACE_nolf: "w \<in> lang (Star fl_SPACE) \<Longrightarrow> LF \<notin> set w"
  unfolding fl_SPACE_def lang_Star_Cls by auto

lemma fl_value_nolf: "w \<in> lang (Star fl_value) \<Longrightarrow> LF \<notin> set w"
  unfolding fl_value_def lang_Star_Cls by auto

lemma fl_dot_nolf: "w \<in> lang (Star fl_dot) \<Longrightarrow> LF \<notin> set w"
  unfolding fl_dot_def lang_Star_Cls by auto

lemma fl_COMMENTL_nolf: "w \<in> lang (Opt fl_COMMENTL) \<Longrightarrow> LF \<notin> set w"
  by (auto simp: fl_COMMENTL_def Opt_def simp del: lang.simps(5) dest!: fl_SPACE_nolf fl_dot_nolf)

lemma fl_NEWLINE_one: "w \<in> lang fl_NEWLINE \<Longrightarrow> one_line w"
  by (auto simp: fl_NEWLINE_def Opt_def one_line_def)

lemma Plus_in_Star: "w \<in> lang (Plus r) \<Longrightarrow> w \<in> lang (Star r)"
  by (auto simp: Plus_def intro: star_step)

lemma lang_SeqE:
  assumes "w \<in> lang (Seq a b)"
  obtains x y where "w = x @ y" "x \<in> lang a" "y \<in> lang b"
  using assms by auto

lemma one_line_Seq:
  assumes "w \<in> lang (Seq a b)" "\<And>x. x \<in> lang a \<Longrightarrow> LF \<notin> set x" "\<And>y. y \<in> lang b \<Longrightarrow> one_line y"
  shows "one_line w"
  using assms by (elim lang_SeqE) (simp add: one_line_append)

lemma one_line_Opt: "w \<in> lang (Opt r) \<Longrightarrow> (\<And>x. x \<in> lang r \<Longrightarrow> one_line x) \<Longrightarrow> one_line w"
  by (auto simp: Opt_def one_line_def)

lemma fl_line_one_line:
  assumes "w \<in> lang (fl_line key)" "LF \<notin> set key"
  shows "one_line w"
  using assms unfolding fl_line_def
  by (elim one_line_Seq one_line_Opt) (auto dest: LitI_nolf fl_SPACE_nolf fl_value_nolf fl_COMMENTL_nolf
      intro: fl_NEWLINE_one simp del: lang.simps)

lemma longest_head:
  assumes "\<And>w. w \<in> lang r \<Longrightarrow> w \<noteq> [] \<Longrightarrow> hd w \<in> H" and "hd s \<notin> H"
  shows "longest r s = 0"
proof -
  have "longest r s \<le> 0"
  proof (rule longest_le)
    fix w t assume "w \<in> lang r" "s = w @ t"
    with assms show "length w \<le> 0" by (cases w) force+
  qed
  then show ?thesis by simp
qed

lemma hd_Star_SPACE: "w \<in> lang (Star fl_SPACE) \<Longrightarrow> w \<noteq> [] \<Longrightarrow> hd w \<in> {CHR 0x09, CHR '' ''}"
  unfolding fl_SPACE_def lang_Star_Cls by (cases w) auto

lemma hd_COMMENTL: "w \<in> lang fl_COMMENTL \<Longrightarrow> w \<noteq> [] \<and> hd w \<in> {CHR 0x09, CHR '' '', CHR ''#''}"
proof -
  assume "w \<in> lang fl_COMMENTL"
  then obtain x y where "w = x @ y" "x \<in> lang (Star fl_SPACE)" "y \<noteq> [] \<and> hd y = CHR ''#''"
    unfolding fl_COMMENTL_def by (elim lang_SeqE [of w]) (auto simp: lang_Seq_Cls simp del: lang.simps)
  then show ?thesis using hd_Star_SPACE [of x] by (cases x) auto
qed

lemma longest_comment:
  assumes "hd s \<notin> {CHR 0x09, CHR '' '', CHR ''#''}"
  shows "longest (Seq fl_COMMENTL (Star fl_NEWLINE)) s = 0"
proof (rule longest_head [OF _ assms])
  fix w assume "w \<in> lang (Seq fl_COMMENTL (Star fl_NEWLINE))"
  then show "hd w \<in> {CHR 0x09, CHR '' '', CHR ''#''}"
    by (elim lang_SeqE) (use hd_COMMENTL in \<open>metis hd_append2\<close>)
qed

lemma longest_space:
  assumes "hd s \<notin> {CHR 0x09, CHR '' '', CHR 0x0D, LF}"
  shows "longest (Seq (Star fl_SPACE) fl_NEWLINE) s = 0"
proof (rule longest_head [OF _ assms])
  fix w assume "w \<in> lang (Seq (Star fl_SPACE) fl_NEWLINE)"
  then obtain x y where w: "w = x @ y" "x \<in> lang (Star fl_SPACE)" "y \<in> lang fl_NEWLINE" by (elim lang_SeqE)
  have "y \<noteq> [] \<and> hd y \<in> {CHR 0x0D, LF}" using w(3) by (auto simp: fl_NEWLINE_def Opt_def)
  then show "hd w \<in> {CHR 0x09, CHR '' '', CHR 0x0D, LF}" using w hd_Star_SPACE [of x] by (cases x) auto
qed

lemma longest_key:
  assumes "tolower (hd s) \<noteq> tolower c"
  shows "longest (Seq (LitI (c # key)) r) s = 0"
proof (rule longest_head)
  fix w assume "w \<in> lang (Seq (LitI (c # key)) r)"
  then show "hd w \<in> {x. tolower x = tolower c}"
    by (elim lang_SeqE) (auto simp: lang_LitI simp del: lang.simps)
qed (use assms in simp)

lemma longest_unmatched: "longest (Plus fl_dot) (l @ LF # rest) < length l + 1"
proof -
  have "longest (Plus fl_dot) (l @ LF # rest) \<le> length l"
  proof (rule longest_le)
    fix w t assume w: "w \<in> lang (Plus fl_dot)" and e: "l @ LF # rest = w @ t"
    from w have nolf: "LF \<notin> set w" by (intro fl_dot_nolf Plus_in_Star)
    show "length w \<le> length l"
    proof (rule ccontr)
      assume n: "\<not> length w \<le> length l"
      have "(w @ t) ! length l = LF" using e by (metis nth_append_length)
      then have "w ! length l = LF" using n by (simp add: nth_append)
      then show False using n nolf nth_mem [of "length l" w] by auto
    qed
  qed
  then show ?thesis by simp
qed

lemma longest_one_line:
  assumes "\<And>w. w \<in> lang r \<Longrightarrow> one_line w" and "l @ [LF] \<in> lang r"
  shows "longest r (l @ LF # rest) = length l + 1"
proof (rule antisym)
  show "longest r (l @ LF # rest) \<le> length l + 1"
    by (rule longest_le) (use assms(1) one_line_prefix in blast)
  show "length l + 1 \<le> longest r (l @ LF # rest)" using longest_ge [OF assms(2), of rest] by simp
qed

text \<open>The text of a line and the condition on a value that a line can carry.\<close>

definition value_ok :: "string \<Rightarrow> bool" where
  "value_ok v \<longleftrightarrow> (\<forall>c\<in>set v. c \<notin> {CHR ''#'', LF, CHR 0x0D, CHR 0x00}) \<and> trim_ref v = v"

definition file_line :: "string \<Rightarrow> string \<Rightarrow> string" where
  "file_line key v = key @ '' '' @ v @ [LF]"

lemma lang_SeqI: "x \<in> lang a \<Longrightarrow> y \<in> lang b \<Longrightarrow> x @ y \<in> lang (Seq a b)"
  by auto

lemma lang_OptI: "[] \<in> lang (Opt r)"
  by (simp add: Opt_def)

lemma value_in_Star: "value_ok v \<Longrightarrow> v \<in> lang (Star fl_value)"
  unfolding fl_value_def lang_Star_Cls value_ok_def by auto

lemma fl_line_accepts:
  assumes "value_ok v"
  shows "(key @ '' '' @ v) @ [LF] \<in> lang (fl_line key)"
proof -
  have "key @ '' '' @ v @ [] @ [LF] \<in> lang (fl_line key)"
    unfolding fl_line_def
    by (intro lang_SeqI value_in_Star assms lang_OptI)
      (simp_all add: lang_LitI fl_SPACE_def lang_Star_Cls Opt_def fl_NEWLINE_def del: lang.simps(5))
  then show ?thesis by simp
qed

definition fl_agent :: regex where
  "fl_agent = Seq (LitI ''User-agent:'') (Seq (Star fl_SPACE) (Seq (Plus fl_value) (Seq (Opt fl_COMMENTL) fl_NEWLINE)))"

lemma fl_agent_one_line: "w \<in> lang fl_agent \<Longrightarrow> one_line w"
  unfolding fl_agent_def
  by (elim one_line_Seq) (auto dest: LitI_nolf fl_SPACE_nolf fl_value_nolf [OF Plus_in_Star] fl_COMMENTL_nolf
      intro: fl_NEWLINE_one simp del: lang.simps)

lemma fl_agent_accepts:
  assumes "value_ok v"
  shows "(''User-agent:'' @ '' '' @ v) @ [LF] \<in> lang fl_agent"
proof -
  have v: "'' '' @ v \<in> lang (Plus fl_value)"
    unfolding Plus_def by (intro lang_SeqI value_in_Star assms) (simp add: fl_value_def)
  have "''User-agent:'' @ [] @ ('' '' @ v) @ [] @ [LF] \<in> lang fl_agent"
    unfolding fl_agent_def
    by (intro lang_SeqI v lang_OptI)
      (simp_all add: lang_LitI fl_SPACE_def lang_Star_Cls Opt_def fl_NEWLINE_def del: lang.simps(5))
  then show ?thesis by simp
qed

lemma robots_rules_agent: "robots_rules =
   [(TComment, False, Seq fl_COMMENTL (Star fl_NEWLINE)), (TUserAgent, True, fl_agent),
    (TAllow, True, fl_line ''Allow:''), (TDisallow, True, fl_line ''Disallow:''),
    (TCrawlDelay, True, fl_line ''Crawl-delay:''), (TSpace, False, Seq (Star fl_SPACE) fl_NEWLINE),
    (TUnmatched, False, Plus fl_dot)]"
  by (simp add: robots_rules_def fl_agent_def)

lemma tolower_key:
  "tolower CHR ''U'' = CHR ''u''" "tolower CHR ''A'' = CHR ''a''" "tolower CHR ''D'' = CHR ''d''"
  "tolower CHR ''C'' = CHR ''c''"
  by code_simp+

lemmas longest_line_simps = longest_comment longest_space longest_key tolower_key

lemma best_rule_agent:
  assumes "value_ok v"
  shows "best_rule robots_rules True (file_line ''User-agent:'' v @ rest) = Some (TUserAgent, length (file_line ''User-agent:'' v))"
proof -
  let ?l = "''User-agent:'' @ '' '' @ v" and ?s = "file_line ''User-agent:'' v @ rest"
  have s: "?s = ?l @ LF # rest" by (simp add: file_line_def)
  have "longest fl_agent ?s = length ?l + 1"
    unfolding s by (rule longest_one_line [OF fl_agent_one_line fl_agent_accepts [OF assms]])
  moreover have "longest (Plus fl_dot) ?s < length ?l + 1" unfolding s by (rule longest_unmatched)
  ultimately show ?thesis
    unfolding robots_rules_agent
    by (cases "longest (Plus fl_dot) ?s = 0") (simp_all add: file_line_def fl_line_def longest_line_simps Let_def)
qed

definition rule_token :: "rule_type_t \<Rightarrow> rtoken" where
  "rule_token t = (case t of DISALLOW \<Rightarrow> TDisallow | ALLOW \<Rightarrow> TAllow | CRAWL_DELAY \<Rightarrow> TCrawlDelay)"

definition rule_key :: "rule_type_t \<Rightarrow> string" where
  "rule_key t = (case t of DISALLOW \<Rightarrow> ''Disallow:'' | ALLOW \<Rightarrow> ''Allow:'' | CRAWL_DELAY \<Rightarrow> ''Crawl-delay:'')"

lemma best_rule_rule:
  assumes "value_ok v"
  shows "best_rule robots_rules True (file_line (rule_key t) v @ rest) = Some (rule_token t, length (file_line (rule_key t) v))"
proof -
  let ?l = "rule_key t @ '' '' @ v" and ?s = "file_line (rule_key t) v @ rest"
  have s: "?s = ?l @ LF # rest" by (simp add: file_line_def)
  have "LF \<notin> set (rule_key t)" by (simp add: rule_key_def split: rule_type_t.split)
  then have "longest (fl_line (rule_key t)) ?s = length ?l + 1"
    unfolding s by (intro longest_one_line fl_line_accepts [OF assms]) (rule fl_line_one_line)
  moreover have "longest (Plus fl_dot) ?s < length ?l + 1" unfolding s by (rule longest_unmatched)
  ultimately show ?thesis
    unfolding robots_rules_agent
    by (cases t; cases "longest (Plus fl_dot) ?s = 0")
      (simp_all add: file_line_def fl_line_def fl_agent_def longest_line_simps rule_key_def rule_token_def Let_def)
qed

lemma yylex_token:
  assumes "best_rule robots_rules bol (w @ rest) = Some (t, length w)" "w \<noteq> []" "last w = LF"
    and "robots_action B t w r = Inr (False, r')"
  shows "yylex B bol (w @ rest) r = yylex B True rest r'"
  using assms by (subst yylex.simps) simp

lemma trim_ref_line: "trim_ref v = v \<Longrightarrow> trim_ref (CHR '' '' # v @ [LF]) = v"
proof -
  assume v: "trim_ref v = v"
  have sp: "isspace CHR '' ''" "isspace LF" by (simp_all add: isspace_def)
  have *: "dropWhile isspace (v @ [LF]) = dropWhile isspace v @ (if \<forall>c\<in>set v. isspace c then [] else [LF])"
    using sp by (induction v) auto
  have "trim_ref (CHR '' '' # v @ [LF]) = trim_ref v"
  proof (cases "\<forall>c\<in>set v. isspace c")
    case True
    then have d: "dropWhile isspace v = []" by simp
    show ?thesis unfolding trim_ref_def dropWhile.simps * d using True sp by simp
  next
    case False
    with * sp show ?thesis by (simp add: trim_ref_def)
  qed
  with v show ?thesis by simp
qed

text \<open>What a line of the file adds to the object.\<close>

definition add_agent :: "string \<Rightarrow> robots \<Rightarrow> robots" where
  "add_agent n r = (let r = reading_uas r in r\<lparr>current := (current r)\<lparr>ua := ua (current r) @ [n]\<rparr>\<rparr>)"

definition parsed_rule :: "Rule \<Rightarrow> Rule" where
  "parsed_rule x = x\<lparr>rule_str := (if rule_type x = CRAWL_DELAY then rule_str x else cpath (rule_str x))\<rparr>"

definition parsed_group :: "Uas_rules \<Rightarrow> Uas_rules" where
  "parsed_group g = g\<lparr>rules := map parsed_rule (rules g)\<rparr>"

definition rule_line :: "Rule \<Rightarrow> string" where
  "rule_line x = file_line (rule_key (rule_type x)) (rule_str x)"

definition group_text :: "Uas_rules \<Rightarrow> string" where
  "group_text g = concat (map (file_line ''User-agent:'') (ua g)) @ concat (map rule_line (rules g))"

definition group_ok :: "Uas_rules \<Rightarrow> bool" where
  "group_ok g \<longleftrightarrow> ua g \<noteq> [] \<and> rules g \<noteq> [] \<and> (\<forall>n \<in> set (ua g). value_ok n) \<and> (\<forall>x \<in> set (rules g). value_ok (rule_str x))"

lemma file_line_last: "file_line key v \<noteq> []" "last (file_line key v) = LF"
  by (simp_all add: file_line_def)

lemma add_agent_reading:
  "rstate r = READING_UAS \<Longrightarrow> add_agent n r = r\<lparr>current := (current r)\<lparr>ua := ua (current r) @ [n]\<rparr>\<rparr>"
  by (cases r) (simp add: add_agent_def reading_uas_def)

context boost_lib
begin

lemma line_value_file_line:
  assumes "value_ok v" "length key = n" "\<forall>c\<in>set key. c \<noteq> CHR 0x00 \<and> c \<noteq> CHR ''#''"
  shows "line_value B n (file_line key v) = v"
proof -
  have "cstr (file_line key v) = file_line key v"
    using assms by (auto simp: cstr_def file_line_def value_ok_def intro!: takeWhile_all)
  moreover have "sfind (\<lambda>c. c = CHR ''#'') (CHR '' '' # v @ [LF]) 0 = None"
    using assms by (auto simp: sfind_None value_ok_def)
  ultimately show ?thesis
    using assms by (simp add: line_value_def file_line_def trim_spaces trim_ref_line value_ok_def)
qed

lemma yylex_agent:
  assumes "value_ok v"
  shows "yylex B True (file_line ''User-agent:'' v @ rest) r = yylex B True rest (add_agent v r)"
proof (rule yylex_token [OF best_rule_agent [OF assms] file_line_last])
  have "line_value B 11 (file_line ''User-agent:'' v) = v"
    by (rule line_value_file_line [OF assms]) simp_all
  then show "robots_action B TUserAgent (file_line ''User-agent:'' v) r = Inr (False, add_agent v r)"
    by (simp add: robots_action_def add_agent_def Let_def)
qed

lemma yylex_rule:
  assumes "value_ok (rule_str x)"
  shows "yylex B True (rule_line x @ rest) r
    = yylex B True rest (add_rule (rule_type x) (rule_str (parsed_rule x)) (rules_state r))"
  unfolding rule_line_def
proof (rule yylex_token [OF best_rule_rule [OF assms] file_line_last])
  have v: "line_value B (length (rule_key t)) (file_line (rule_key t) (rule_str x)) = rule_str x" for t
    by (rule line_value_file_line [OF assms]) (simp_all add: rule_key_def split: rule_type_t.split)
  show "robots_action B (rule_token (rule_type x)) (file_line (rule_key (rule_type x)) (rule_str x)) r
    = Inr (False, add_rule (rule_type x) (rule_str (parsed_rule x)) (rules_state r))"
    using v [of "rule_type x"] by (cases "rule_type x")
      (simp_all add: robots_action_def rule_token_def rule_key_def clean_path_cpath parsed_rule_def eval_nat_numeral)
qed

lemma yylex_agents:
  assumes "\<forall>n \<in> set us. value_ok n" "rstate r = READING_UAS"
  shows "yylex B True (concat (map (file_line ''User-agent:'') us) @ rest) r
    = yylex B True rest (r\<lparr>current := (current r)\<lparr>ua := ua (current r) @ us\<rparr>\<rparr>)"
  using assms by (induction us arbitrary: r) (simp_all add: yylex_agent add_agent_reading)

lemma yylex_rules:
  assumes "\<forall>x \<in> set xs. value_ok (rule_str x)" "rstate r = RULES"
  shows "yylex B True (concat (map rule_line xs) @ rest) r
    = yylex B True rest (r\<lparr>current := (current r)\<lparr>rules := rules (current r) @ map parsed_rule xs\<rparr>\<rparr>)"
  using assms
proof (induction xs arbitrary: r)
  case (Cons x xs)
  let ?r = "add_rule (rule_type x) (rule_str (parsed_rule x)) (rules_state r)"
  have "yylex B True (concat (map rule_line (x # xs)) @ rest) r = yylex B True (concat (map rule_line xs) @ rest) ?r"
    using Cons.prems by (simp add: yylex_rule)
  also have "\<dots> = yylex B True rest (?r\<lparr>current := (current ?r)\<lparr>rules := rules (current ?r) @ map parsed_rule xs\<rparr>\<rparr>)"
    using Cons.prems by (intro Cons.IH) (simp_all add: add_rule_def rules_state_def)
  also have "?r\<lparr>current := (current ?r)\<lparr>rules := rules (current ?r) @ map parsed_rule xs\<rparr>\<rparr>
      = r\<lparr>current := (current r)\<lparr>rules := rules (current r) @ map parsed_rule (x # xs)\<rparr>\<rparr>"
    using Cons.prems by (cases r) (simp add: add_rule_def rules_state_def parsed_rule_def)
  finally show ?case .
qed simp

lemma yylex_group:
  assumes "group_ok g"
  shows "yylex B True (group_text g @ rest) r = yylex B True rest
    ((reading_uas r)\<lparr>rstate := RULES,
       current := \<lparr>ua = ua (current (reading_uas r)) @ ua g, rules = rules (current (reading_uas r)) @ map parsed_rule (rules g)\<rparr>\<rparr>)"
proof -
  from assms obtain u us x xs where g: "ua g = u # us" "rules g = x # xs"
    by (auto simp: group_ok_def neq_Nil_conv)
  have ok: "value_ok u" "\<forall>n\<in>set us. value_ok n" "value_ok (rule_str x)" "\<forall>x\<in>set xs. value_ok (rule_str x)"
    using assms g by (auto simp: group_ok_def)
  have st: "rstate (add_agent u r) = READING_UAS" by (simp add: add_agent_def reading_uas_def Let_def)
  obtain A where A: "A = add_agent u r" by simp
  obtain C where C: "C = A\<lparr>current := (current A)\<lparr>ua := ua (current A) @ us\<rparr>\<rparr>" by simp
  obtain D where D: "D = add_rule (rule_type x) (rule_str (parsed_rule x)) (rules_state C)" by simp
  have "yylex B True (group_text g @ rest) r = yylex B True (concat (map rule_line (rules g)) @ rest) C"
    using ok st by (simp add: group_text_def g(1) yylex_agent yylex_agents A C)
  also have "\<dots> = yylex B True (concat (map rule_line xs) @ rest) D"
    using ok by (simp add: g(2) yylex_rule D)
  also have "\<dots> = yylex B True rest (D\<lparr>current := (current D)\<lparr>rules := rules (current D) @ map parsed_rule xs\<rparr>\<rparr>)"
    using ok by (intro yylex_rules) (simp_all add: D add_rule_def rules_state_def)
  also have "D\<lparr>current := (current D)\<lparr>rules := rules (current D) @ map parsed_rule xs\<rparr>\<rparr>
    = (reading_uas r)\<lparr>rstate := RULES,
       current := \<lparr>ua = ua (current (reading_uas r)) @ ua g, rules = rules (current (reading_uas r)) @ map parsed_rule (rules g)\<rparr>\<rparr>"
    by (cases "current (reading_uas r)"; cases "reading_uas r")
      (simp add: D C A g add_agent_def Let_def add_rule_def rules_state_def parsed_rule_def)
  finally show ?thesis .
qed

lemma yylex_groups:
  assumes "\<forall>g \<in> set gs. group_ok g" "rstate r = RULES" "ua (current r) \<noteq> []"
  shows "yylex B True (concat (map group_text gs)) r
    = Inr (0, r\<lparr>rstate := START, uas_rules_all := uas_rules_all r @ current r # map parsed_group gs,
        current := uas_clear, valid := True\<rparr>)"
  using assms
proof (induction gs arbitrary: r)
  case Nil
  then show ?case by (subst yylex.simps) (cases r, simp add: eof_def uas_empty_def start_state_def)
next
  case (Cons g gs)
  let ?r = "r\<lparr>uas_rules_all := uas_rules_all r @ [current r], current := parsed_group g, valid := True\<rparr>"
  have "yylex B True (concat (map group_text (g # gs))) r = yylex B True (concat (map group_text gs)) ?r"
    using Cons.prems by (cases r, cases g) (simp add: yylex_group reading_uas_def uas_clear_def parsed_group_def)
  also have "\<dots> = Inr (0, r\<lparr>rstate := START, uas_rules_all := uas_rules_all r @ current r # map parsed_group (g # gs),
        current := uas_clear, valid := True\<rparr>)"
    using Cons.prems by (subst Cons.IH) (simp_all add: parsed_group_def group_ok_def)
  finally show ?case .
qed

lemma yylex_file:
  assumes "\<forall>g \<in> set gs. group_ok g"
  shows "yylex B True (concat (map group_text gs)) robots_init
    = Inr (0, robots_init\<lparr>uas_rules_all := map parsed_group gs, valid := (gs \<noteq> [])\<rparr>)"
proof (cases gs)
  case Nil
  then show ?thesis
    by (subst yylex.simps) (simp add: eof_def uas_empty_def start_state_def robots_init_def uas_clear_def)
next
  case (Cons g hs)
  let ?r = "robots_init\<lparr>rstate := RULES, current := parsed_group g\<rparr>"
  have "yylex B True (concat (map group_text gs)) robots_init = yylex B True (concat (map group_text hs)) ?r"
    using assms Cons by (cases g)
      (simp add: yylex_group reading_uas_def robots_init_def uas_clear_def parsed_group_def)
  also have "\<dots> = Inr (0, robots_init\<lparr>uas_rules_all := map parsed_group gs, valid := (gs \<noteq> [])\<rparr>)"
    using assms Cons by (subst yylex_groups) (simp_all add: parsed_group_def group_ok_def robots_init_def uas_clear_def)
  finally show ?thesis .
qed

end

section \<open>Properties\<close>

text \<open>C8. Scanning the text of a \<^verbatim>\<open>robots.txt\<close> made of groups, each with its \<^verbatim>\<open>User-agent\<close> lines and then its
  rule lines, returns 0 and leaves exactly these groups in the order of the file, with the paths of the
  \<^verbatim>\<open>Allow\<close> and \<^verbatim>\<open>Disallow\<close> rules in canonical form and no error recorded.\<close>

theorem robots_scan_groups:
  assumes "boost_lib B" and "\<forall>g \<in> set gs. group_ok g"
  shows "\<exists>r. yylex B True (concat (map group_text gs)) robots_init = Inr (0, r)
    \<and> uas_rules_all r = map parsed_group gs \<and> (valid r \<longleftrightarrow> gs \<noteq> []) \<and> errors r = [] \<and> rstate r = START"
  using boost_lib.yylex_file [OF assms] by (simp add: robots_init_def)

theorem robots_scan_groups_witness:
  "\<exists>r. yylex boost_ref True (concat (map group_text
        [\<lparr>ua = [''bot'', ''x''], rules = [\<lparr>rule_type = DISALLOW, rule_str = ''/a b''\<rparr>]\<rparr>])) robots_init = Inr (0, r)
    \<and> uas_rules_all r = [\<lparr>ua = [''bot'', ''x''], rules = [\<lparr>rule_type = DISALLOW, rule_str = ''/a%20b''\<rparr>]\<rparr>]"
proof -
  let ?g = "\<lparr>ua = [''bot'', ''x''], rules = [\<lparr>rule_type = DISALLOW, rule_str = ''/a b''\<rparr>]\<rparr>"
  have "\<forall>g \<in> set [?g]. group_ok g" by code_simp
  moreover have "map parsed_group [?g] = [\<lparr>ua = [''bot'', ''x''], rules = [\<lparr>rule_type = DISALLOW, rule_str = ''/a%20b''\<rparr>]\<rparr>]"
    by code_simp
  ultimately show ?thesis using robots_scan_groups [OF ref.boost_lib_axioms, of "[?g]"] by auto
qed

text \<open>The decision as the code makes it: by the first group that names the agent or every agent, and in it by the first rule whose
  text is the canonical form of the path. The check never fails.\<close>

lemma path_allowed_first_match:
  "path_allowed r agent p = Inr (case List.find (names_agent agent) (uas_rules_all r) of
       None \<Rightarrow> True
     | Some g \<Rightarrow> (case List.find (\<lambda>x. rule_str x = cpath p) (rules g) of
         None \<Rightarrow> True
       | Some x \<Rightarrow> rule_type x = ALLOW))"
  unfolding path_allowed_def clean_path_cpath bindR_simps groups_loop_find rules_loop_find ..

text \<open>
  The decision as \<^verbatim>\<open>Robots.hh\<close> describes it, on the text of the rules: a rule matches when it is a prefix of the path, the first match
  of the group is used, and without a match the path is allowed.
\<close>

definition rule_matches :: "string \<Rightarrow> Rule \<Rightarrow> bool" where
  "rule_matches p x \<longleftrightarrow> rule_type x \<noteq> CRAWL_DELAY \<and> prefix (rule_str x) p"

definition documented :: "Uas_rules list \<Rightarrow> string \<Rightarrow> string \<Rightarrow> bool" where
  "documented gs agent p =
     (case List.find (names_agent agent) gs of
        None \<Rightarrow> True
      | Some g \<Rightarrow> (case List.find (rule_matches p) (rules g) of None \<Rightarrow> True | Some x \<Rightarrow> rule_type x = ALLOW))"

text \<open>A rule on which the code and the description agree: it has no percent sign, and it is no proper prefix of the path.\<close>

definition whole_rule :: "string \<Rightarrow> Rule \<Rightarrow> bool" where
  "whole_rule p x \<longleftrightarrow>
     (if rule_type x = CRAWL_DELAY then \<not> prefix ''/'' (rule_str x)
      else CHR ''%'' \<notin> set (rule_str x) \<and> \<not> strict_prefix (rule_str x) p)"

lemma toks_plain: "CHR ''%'' \<notin> set s \<Longrightarrow> toks s = map Chr s"
  by (induction s) auto

lemma cpath_plain:
  assumes "CHR ''%'' \<notin> set s"
  shows "escape s URL_CHAR_PATH = Inr (cpath s)" "unescape (cpath s) = Inr s"
proof -
  have "robots_tok (Chr c) = esc_tok URL_CHAR_PATH (Chr c)" for c by (simp add: robots_tok_def)
  then have c: "cpath s = untoks (map (esc_tok URL_CHAR_PATH) (toks s))"
    using toks_plain [OF assms] by (simp add: cpath_def o_def)
  then show "escape s URL_CHAR_PATH = Inr (cpath s)" by (simp add: escape_toks)
  have "map tok_val (toks (cpath s)) = map tok_val (toks s)" unfolding c toks_escape by (simp del: esc_tok.simps)
  also have "\<dots> = s" using toks_plain [OF assms] by (simp add: o_def)
  finally show "unescape (cpath s) = Inr s" by (simp add: unescape_toks)
qed

lemma cpath_plain_inj: "CHR ''%'' \<notin> set s \<Longrightarrow> CHR ''%'' \<notin> set t \<Longrightarrow> cpath s = cpath t \<longleftrightarrow> s = t"
  using cpath_plain(2) by (metis sum.inject(2))

lemma cpath_slash: "prefix ''/'' p \<Longrightarrow> prefix ''/'' (cpath p)"
proof -
  have "\<not> url_char_test CHR ''/'' URL_CHAR_PATH" by code_simp
  then show "prefix ''/'' p \<Longrightarrow> prefix ''/'' (cpath p)"
    by (cases p) (auto simp: cpath_def robots_tok_def untoks_def)
qed

lemma parsed_rule_matches:
  assumes "whole_rule p x" "prefix ''/'' p" "CHR ''%'' \<notin> set p"
  shows "rule_str (parsed_rule x) = cpath p \<longleftrightarrow> rule_matches p x"
  using assms cpath_slash [OF assms(2)] cpath_plain_inj [of "rule_str x" p]
  by (auto simp: whole_rule_def parsed_rule_def rule_matches_def strict_prefix_def split: if_splits)

lemma find_map: "List.find P (map f xs) = map_option f (List.find (P \<circ> f) xs)"
  by (induction xs) auto

lemma find_cong: "(\<And>x. x \<in> set xs \<Longrightarrow> P x = Q x) \<Longrightarrow> List.find P xs = List.find Q xs"
  by (induction xs) auto

lemma names_agent_parsed: "names_agent a (parsed_group g) = names_agent a g"
  by (simp add: names_agent_def parsed_group_def)

text \<open>C10. For the groups of a file as they are scanned, and a path that starts with a slash, when neither the path nor the rules
  have escapes and no rule is a proper prefix of the path, \<^verbatim>\<open>path_allowed\<close> is the decision that its
  documentation describes: the first group that names the agent or every agent, in it the first rule that matches, and
  allowed by default.\<close>

theorem path_allowed_documented:
  assumes "uas_rules_all r = map parsed_group gs" "prefix ''/'' p" "CHR ''%'' \<notin> set p"
    and "\<forall>g\<in>set gs. \<forall>x\<in>set (rules g). whole_rule p x"
  shows "path_allowed r agent p = Inr (documented gs agent p)"
proof (cases "List.find (names_agent agent) gs")
  case None
  then show ?thesis by (simp add: path_allowed_first_match documented_def assms(1) find_map names_agent_parsed comp_def)
next
  case (Some g)
  then have "g \<in> set gs" by (auto simp: find_Some_iff)
  then have "List.find (\<lambda>x. rule_str (parsed_rule x) = cpath p) (rules g) = List.find (rule_matches p) (rules g)"
    using assms(2-4) by (intro find_cong parsed_rule_matches) auto
  moreover have "rules (parsed_group g) = map parsed_rule (rules g)" "rule_type (parsed_rule x) = rule_type x" for x
    by (simp_all add: parsed_group_def parsed_rule_def)
  ultimately show ?thesis using Some
    by (simp add: path_allowed_first_match documented_def assms(1) find_map names_agent_parsed comp_def
        split: option.split)
qed

theorem path_allowed_documented_witness:
  "path_allowed (robots_init\<lparr>uas_rules_all := map parsed_group [\<lparr>ua = [''bot''], rules = [\<lparr>rule_type = ALLOW, rule_str = ''/a b''\<rparr>,
        \<lparr>rule_type = DISALLOW, rule_str = ''/c''\<rparr>]\<rparr>]\<rparr>) ''bot'' ''/c'' = Inr False"
proof -
  let ?gs = "[\<lparr>ua = [''bot''], rules = [\<lparr>rule_type = ALLOW, rule_str = ''/a b''\<rparr>, \<lparr>rule_type = DISALLOW, rule_str = ''/c''\<rparr>]\<rparr>]"
  have "path_allowed (robots_init\<lparr>uas_rules_all := map parsed_group ?gs\<rparr>) ''bot'' ''/c'' = Inr (documented ?gs ''bot'' ''/c'')"
    by (rule path_allowed_documented) (simp_all add: whole_rule_def strict_prefix_def)
  moreover have "documented ?gs ''bot'' ''/c'' = False" by (simp add: documented_def names_agent_def rule_matches_def)
  ultimately show ?thesis by simp
qed


section \<open>Where the decision differs from its documentation\<close>

text \<open>
  The table above \<open>path_allowed\<close> in \<^verbatim>\<open>Robots.hh\<close> says that a rule for \<^verbatim>\<open>/tmp\<close> matches \<^verbatim>\<open>/tmp.html\<close> and
  \<^verbatim>\<open>/tmp/a.html\<close>. The code compares the rule with the whole path, so it matches neither.
\<close>

definition tmp_robots :: robots where
  "tmp_robots = robots_init\<lparr>uas_rules_all := [\<lparr>ua = [''*''], rules = [\<lparr>rule_type = DISALLOW, rule_str = ''/tmp''\<rparr>]\<rparr>]\<rparr>"

lemma robots_prefix_not_matched:
  "path_allowed tmp_robots ''bot'' ''/tmp'' = Inr False"
  "path_allowed tmp_robots ''bot'' ''/tmp.html'' = Inr True"
  "path_allowed tmp_robots ''bot'' ''/tmp/a.html'' = Inr True"
  by code_simp+

text \<open>A rule that disallows everything below the root disallows the root alone.\<close>

lemma robots_disallow_root:
  "path_allowed (robots_init\<lparr>uas_rules_all := [\<lparr>ua = [''*''], rules = [\<lparr>rule_type = DISALLOW, rule_str = ''/''\<rparr>]\<rparr>]\<rparr>)
     ''bot'' ''/private'' = Inr True"
  by code_simp

text \<open>
  Of the rows of the table on escapes, those on the tilde hold. The table says that \<^verbatim>\<open>/a%3cd.html\<close> matches
  \<^verbatim>\<open>/a%3Cd.html\<close>, and the canonical forms are different; it says that \<^verbatim>\<open>/a%2fb.html\<close> does not match
  \<^verbatim>\<open>/a/b.html\<close>, and the canonical forms are equal.
\<close>

lemma robots_escape_table:
  "clean_path ''/%7ejoe/'' = Inr ''/~joe/''" "clean_path ''/~joe/'' = Inr ''/~joe/''" "clean_path ''/%7Ejoe/'' = Inr ''/~joe/''"
  by code_simp+

lemma robots_escape_slash: "clean_path ''/a%2fb'' = Inr ''/a/b''" "clean_path ''/a/b'' = Inr ''/a/b''"
  by code_simp+

lemma robots_escape_case:
  "clean_path ''/a%3cd'' = Inr ''/a%3cd''" "clean_path ''/a%3Cd'' = Inr ''/a%3Cd''"
  by code_simp+

text \<open>A last \<^verbatim>\<open>User-agent\<close> line without a line feed is not recognised.\<close>

lemma robots_agent_needs_newline:
  "map_sum id (\<lambda>(n, r). (n, uas_rules_all r, errors r)) (yylex boost_ref True ''User-agent: bot'' robots_init)
     = Inr (0, [], ''unmatched: |User-agent: bot|'' @ [LF])"
  by code_simp

end
