(* ===== verification/Text_Sniff.thy ===== *)
theory Text_Sniff
  imports Prelude "HOL-Library.Word"
begin

unbundle bit_operations_syntax

text \<open>
  Guessing the encoding of a buffer: \<^verbatim>\<open>looks_ascii\<close>, \<^verbatim>\<open>looks_latin1\<close>, \<^verbatim>\<open>looks_extended\<close>, \<^verbatim>\<open>looks_utf8\<close>, \<^verbatim>\<open>unicode_BOM\<close> and
  \<^verbatim>\<open>pdf_ver\<close> of \<^verbatim>\<open>src/common/utils.cc\<close>. A buffer of bytes is a list of 8-bit words. The properties:
  \<^verbatim>\<open>looks_utf8\<close> accepts every encoding of text by UTF-8 and rejects stray bytes; the guesses are nested; and
  the answer of \<^verbatim>\<open>unicode_BOM\<close> on either byte order of the machine.
\<close>

type_synonym bytes = "8 word list"

section \<open>The table and the tests\<close>

datatype text_class = F | T | I | X

definition text_chars :: "text_class list" where
  "text_chars =
     [F, F, F, F, F, F, F, T, T, T, T, F, T, T, F, F]
     @ [F, F, F, F, F, F, F, F, F, F, F, T, F, F, F, F]
     @ replicate 16 T @ replicate 16 T @ replicate 16 T @ replicate 16 T @ replicate 16 T
     @ replicate 15 T @ [F]
     @ replicate 5 X @ [T] @ replicate 10 X
     @ replicate 16 X
     @ replicate 16 I @ replicate 16 I @ replicate 16 I @ replicate 16 I @ replicate 16 I @ replicate 16 I"

definition text_char :: "8 word \<Rightarrow> text_class" where
  "text_char b = text_chars ! unat b"

fun looks_ascii :: "bytes \<Rightarrow> bool" where
  "looks_ascii [] = True"
| "looks_ascii (b # bs) = (if text_char b \<noteq> T then False else looks_ascii bs)"

fun looks_latin1 :: "bytes \<Rightarrow> bool" where
  "looks_latin1 [] = True"
| "looks_latin1 (b # bs) = (if text_char b \<noteq> T \<and> text_char b \<noteq> I then False else looks_latin1 bs)"

fun looks_extended :: "bytes \<Rightarrow> bool" where
  "looks_extended [] = True"
| "looks_extended (b # bs) =
     (if text_char b \<noteq> T \<and> text_char b \<noteq> I \<and> text_char b \<noteq> X then False else looks_extended bs)"

definition following :: "8 word \<Rightarrow> nat option" where
  "following b =
     (if b AND 0x20 = 0 then Some 1
      else if b AND 0x10 = 0 then Some 2
      else if b AND 0x08 = 0 then Some 3
      else if b AND 0x04 = 0 then Some 4
      else if b AND 0x02 = 0 then Some 5
      else None)"

text \<open>
  The inner loop over the continuation bytes: \<open>None\<close> is \<^verbatim>\<open>return false\<close>, \<open>Some None\<close> the jump to \<^verbatim>\<open>done\<close> at the
  end of the buffer, and otherwise the rest of the buffer.
\<close>

fun continuation :: "nat \<Rightarrow> bytes \<Rightarrow> bytes option option" where
  "continuation 0 bs = Some (Some bs)"
| "continuation (Suc n) [] = Some None"
| "continuation (Suc n) (b # bs) = (if b AND 0x80 = 0 \<or> b AND 0x40 \<noteq> 0 then None else continuation n bs)"

lemma continuation_shorter: "continuation n bs = Some (Some cs) \<Longrightarrow> length cs \<le> length bs"
  by (induction n bs rule: continuation.induct) (auto split: if_splits)

function looks_utf8_loop :: "bool \<Rightarrow> bytes \<Rightarrow> bool" where
  "looks_utf8_loop gotone [] = gotone"
| "looks_utf8_loop gotone (b # bs) =
     (if b AND 0x80 = 0 then (if text_char b \<noteq> T then False else looks_utf8_loop gotone bs)
      else if b AND 0x40 = 0 then False
      else case following b of
        None \<Rightarrow> False
      | Some n \<Rightarrow> (case continuation n bs of
          None \<Rightarrow> False
        | Some None \<Rightarrow> gotone
        | Some (Some cs) \<Rightarrow> looks_utf8_loop True cs))"
  by pat_completeness auto
termination by (relation "measure (\<lambda>(_, bs). length bs)") (auto dest: continuation_shorter)

definition looks_utf8 :: "bytes \<Rightarrow> bool" where
  "looks_utf8 buf = looks_utf8_loop False buf"

text \<open>The reads of \<^verbatim>\<open>unicode_BOM\<close> through a pointer to a wider integer use the byte order of the machine.\<close>

definition read16 :: "bool \<Rightarrow> bytes \<Rightarrow> 16 word" where
  "read16 big buf = (if big then word_cat (buf ! 0) (buf ! 1) else word_cat (buf ! 1) (buf ! 0))"

definition read32 :: "bool \<Rightarrow> bytes \<Rightarrow> 32 word" where
  "read32 big buf =
     (if big then word_cat (read16 big buf) (read16 big (drop 2 buf))
      else word_cat (read16 big (drop 2 buf)) (read16 big buf))"

definition unicode_BOM :: "bool \<Rightarrow> bytes \<Rightarrow> string option" where
  "unicode_BOM big buf =
     (if length buf < 2 then None
      else if read16 big buf = 0xFEFF then Some ''UTF-16BE''
      else if read16 big buf = 0xFFFE then Some ''UTF-16LE''
      else if length buf \<ge> 3 \<and> buf ! 0 = 0xEF \<and> buf ! 1 = 0xBB \<and> buf ! 2 = 0xBF then Some ''UTF-8''
      else if length buf \<ge> 4 \<and> read32 big buf = 0x0000FEFF then Some ''UTF-32BE''
      else if length buf \<ge> 4 \<and> read32 big buf = 0xFEFF0000 then Some ''UTF-32LE''
      else None)"

text \<open>\<^verbatim>\<open>strncmp\<close> of the first five bytes, and the bytes read as the two numbers.\<close>

definition pdf_ver :: "bytes \<Rightarrow> (int \<times> int) option" where
  "pdf_ver buf =
     (if length buf < 8 then None
      else if take 5 buf = [0x25, 0x50, 0x44, 0x46, 0x2D] then Some (uint (buf ! 5), uint (buf ! 7))
      else None)"

section \<open>UTF-8\<close>

text \<open>The encoding of a code point in one to four bytes (RFC 3629).\<close>

definition cont_byte :: "nat \<Rightarrow> 8 word" where
  "cont_byte n = word_of_nat (0x80 + n mod 64)"

definition utf8_encode :: "nat \<Rightarrow> bytes" where
  "utf8_encode n =
     (if n < 0x80 then [word_of_nat n]
      else if n < 0x800 then [word_of_nat (0xC0 + n div 64), cont_byte n]
      else if n < 0x10000 then [word_of_nat (0xE0 + n div 4096), cont_byte (n div 64), cont_byte n]
      else [word_of_nat (0xF0 + n div 262144), cont_byte (n div 4096), cont_byte (n div 64), cont_byte n])"

text \<open>Code points of text: no control characters but those the table has as text.\<close>

definition text_point :: "nat \<Rightarrow> bool" where
  "text_point n \<longleftrightarrow> n < 0x110000 \<and> (n < 0x80 \<longrightarrow> text_chars ! n = T)"

lemma cont_byte_bits: "cont_byte n AND 0x80 \<noteq> 0" "cont_byte n AND 0x40 = 0"
proof -
  have "list_all (\<lambda>m. (word_of_nat (0x80 + m) :: 8 word) AND 0x80 \<noteq> 0 \<and> (word_of_nat (0x80 + m) :: 8 word) AND 0x40 = 0) [0..<64]"
    by code_simp
  moreover have "n mod 64 < 64" by simp
  ultimately show "cont_byte n AND 0x80 \<noteq> 0" "cont_byte n AND 0x40 = 0"
    unfolding cont_byte_def list_all_iff by auto
qed

text \<open>A byte that starts a sequence with \<open>k\<close> continuation bytes, and a continuation byte.\<close>

definition lead :: "nat \<Rightarrow> 8 word \<Rightarrow> bool" where
  "lead k b \<longleftrightarrow> b AND 0x80 \<noteq> 0 \<and> b AND 0x40 \<noteq> 0 \<and> following b = Some k"

definition cont :: "8 word \<Rightarrow> bool" where
  "cont b \<longleftrightarrow> b AND 0x80 \<noteq> 0 \<and> b AND 0x40 = 0"

lemma lead_bytes:
  "list_all (\<lambda>n. lead 1 (word_of_nat (0xC0 + n))) [0..<32]"
  "list_all (\<lambda>n. lead 2 (word_of_nat (0xE0 + n))) [0..<16]"
  "list_all (\<lambda>n. lead 3 (word_of_nat (0xF0 + n))) [0..<8]"
  by code_simp+

lemma lead_byte:
  "n < 32 \<Longrightarrow> lead 1 (word_of_nat (0xC0 + n))" "n < 16 \<Longrightarrow> lead 2 (word_of_nat (0xE0 + n))"
  "n < 8 \<Longrightarrow> lead 3 (word_of_nat (0xF0 + n))"
  using lead_bytes unfolding list_all_iff by simp_all

lemma cont_cont_byte: "cont (cont_byte n)"
  by (simp add: cont_def cont_byte_bits)

lemma continuation_append:
  "list_all cont cs \<Longrightarrow> length cs = k \<Longrightarrow> continuation k (cs @ bs) = Some (Some bs)"
  by (induction cs arbitrary: k) (auto simp: cont_def)

lemma continuation_short:
  "list_all cont cs \<Longrightarrow> length cs < k \<Longrightarrow> continuation k cs = Some None"
proof (induction cs arbitrary: k)
  case Nil
  then show ?case by (cases k) simp_all
next
  case (Cons c cs)
  then show ?case by (cases k) (auto simp: cont_def)
qed

lemma continuation_cases:
  "continuation k bs = Some r \<Longrightarrow> case r of
     None \<Rightarrow> list_all cont bs \<and> length bs < k
   | Some cs \<Rightarrow> \<exists>ds. bs = ds @ cs \<and> list_all cont ds \<and> length ds = k"
proof (induction k bs arbitrary: r rule: continuation.induct)
  case (3 n b bs)
  then have c: "cont b" "continuation n bs = Some r" "\<not> (b AND 0x80 = 0 \<or> b AND 0x40 \<noteq> 0)"
    by (auto simp: cont_def split: if_splits)
  show ?case
  proof (cases r)
    case None
    with "3.IH" [OF c(3,2)] c(1) show ?thesis by simp
  next
    case (Some cs)
    with "3.IH" [OF c(3,2)] obtain ds where "bs = ds @ cs" "list_all cont ds" "length ds = n" by auto
    with c(1) Some show ?thesis by (auto intro: exI [of _ "b # ds"])
  qed
qed auto

lemma loop_lead:
  assumes "lead k b"
  shows "looks_utf8_loop g (b # bs) = (case continuation k bs of
      None \<Rightarrow> False | Some None \<Rightarrow> g | Some (Some cs) \<Rightarrow> looks_utf8_loop True cs)"
  using assms by (simp add: lead_def)

text \<open>The sequences that the test takes: one byte of text, or a leading byte and its continuation bytes.\<close>

definition chunk :: "bytes \<Rightarrow> bool" where
  "chunk c \<longleftrightarrow> (\<exists>b. c = [b] \<and> b AND 0x80 = 0 \<and> text_char b = T)
     \<or> (\<exists>k b cs. c = b # cs \<and> lead k b \<and> length cs = k \<and> list_all cont cs)"

definition cut_short :: "bytes \<Rightarrow> bool" where
  "cut_short t \<longleftrightarrow> (\<exists>k b cs. t = b # cs \<and> lead k b \<and> length cs < k \<and> list_all cont cs)"

lemma lead_pos: "lead k b \<Longrightarrow> 0 < k"
  by (auto simp: lead_def following_def split: if_splits)

lemma loop_chunk:
  assumes "chunk c"
  shows "looks_utf8_loop g (c @ bs) = looks_utf8_loop (g \<or> 1 < length c) bs"
proof -
  from assms consider b where "c = [b]" "b AND 0x80 = 0" "text_char b = T"
    | k b cs where "c = b # cs" "lead k b" "length cs = k" "list_all cont cs" by (auto simp: chunk_def)
  then show ?thesis
  proof cases
    case 2
    then show ?thesis using lead_pos [OF 2(2)]
      by (simp add: loop_lead continuation_append del: looks_utf8_loop.simps(2))
  qed simp
qed

lemma loop_cut: "cut_short t \<Longrightarrow> looks_utf8_loop g t = g"
  by (auto simp: cut_short_def loop_lead continuation_short simp del: looks_utf8_loop.simps(2))

lemma loop_chunks:
  "list_all chunk cs \<Longrightarrow> looks_utf8_loop g (concat cs @ t) = looks_utf8_loop (g \<or> list_ex (\<lambda>c. 1 < length c) cs) t"
  by (induction cs arbitrary: g) (auto simp: loop_chunk simp del: looks_utf8_loop.simps(2))

lemma loop_split:
  "looks_utf8_loop g s \<Longrightarrow> \<exists>cs t. s = concat cs @ t \<and> list_all chunk cs \<and> (t = [] \<or> cut_short t)"
proof (induction g s rule: looks_utf8_loop.induct)
  case (1 g)
  then show ?case by (intro exI [of _ "[]"]) simp
next
  case (2 g b bs)
  have step: ?case if "bs = ds @ r" "chunk (b # ds)" "\<exists>cs t. r = concat cs @ t \<and> list_all chunk cs \<and> (t = [] \<or> cut_short t)" for ds r
  proof -
    from that(3) obtain cs t where "r = concat cs @ t" "list_all chunk cs" "t = [] \<or> cut_short t" by blast
    with that show ?thesis by (intro exI [of _ "(b # ds) # cs"] exI [of _ t]) simp
  qed
  show ?case
  proof (cases "b AND 0x80 = 0")
    case True
    with "2.prems" have b: "text_char b = T" "looks_utf8_loop g bs" by (auto split: if_splits)
    from step [of "[]" bs] "2.IH"(1) [OF True _ b(2)] b True show ?thesis by (simp add: chunk_def)
  next
    case False
    with "2.prems" obtain k where k: "lead k b" by (auto simp: lead_def split: if_splits option.splits)
    then have fol: "b AND 0x40 \<noteq> 0" "following b = Some k" by (simp_all add: lead_def)
    from "2.prems" obtain r where r: "continuation k bs = Some r" unfolding loop_lead [OF k] by (auto split: option.splits)
    show ?thesis
    proof (cases r)
      case None
      from continuation_cases [OF r] None k have "cut_short (b # bs)" by (auto simp: cut_short_def)
      then show ?thesis by (intro exI [of _ "[]"] exI [of _ "b # bs"]) simp
    next
      case (Some cs)
      from continuation_cases [OF r] Some obtain ds where ds: "bs = ds @ cs" "list_all cont ds" "length ds = k" by auto
      then have "chunk (b # ds)" using k by (auto simp: chunk_def)
      moreover have "looks_utf8_loop True cs" using "2.prems" r Some unfolding loop_lead [OF k] by simp
      ultimately show ?thesis using step [of ds cs] ds(1) "2.IH"(2) [OF False fol(1,2) r Some] by blast
    qed
  qed
qed

lemma utf8_encode_chunk:
  assumes "text_point n"
  shows "chunk (utf8_encode n)" "1 < length (utf8_encode n) \<longleftrightarrow> 0x80 \<le> n"
proof -
  have ascii: "list_all (\<lambda>n. (word_of_nat n :: 8 word) AND 0x80 = 0) [0..<0x80]" by code_simp
  consider "n < 0x80" | "0x80 \<le> n" "n < 0x800" | "0x800 \<le> n" "n < 0x10000" | "0x10000 \<le> n" "n < 0x110000"
    using assms by (force simp: text_point_def)
  then have "chunk (utf8_encode n) \<and> (1 < length (utf8_encode n) \<longleftrightarrow> 0x80 \<le> n)"
  proof cases
    case 1
    moreover have "unat (word_of_nat n :: 8 word) = n" using 1 by (simp add: unat_of_nat take_bit_nat_eq_self)
    ultimately show ?thesis using assms ascii
      by (simp add: utf8_encode_def chunk_def text_point_def text_char_def list_all_iff)
  next
    case 2
    then have "lead 1 (word_of_nat (0xC0 + n div 64))" by (intro lead_byte) simp
    with 2 show ?thesis by (auto simp: utf8_encode_def chunk_def cont_cont_byte)
  next
    case 3
    then have "lead 2 (word_of_nat (0xE0 + n div 4096))" by (intro lead_byte) simp
    with 3 show ?thesis by (auto simp: utf8_encode_def chunk_def cont_cont_byte numeral_2_eq_2)
  next
    case 4
    then have "lead 3 (word_of_nat (0xF0 + n div 262144))" by (intro lead_byte) simp
    with 4 show ?thesis by (auto simp: utf8_encode_def chunk_def cont_cont_byte numeral_3_eq_3)
  qed
  then show "chunk (utf8_encode n)" "1 < length (utf8_encode n) \<longleftrightarrow> 0x80 \<le> n" by simp_all
qed

lemma looks_utf8_iff:
  "looks_utf8 buf = (\<exists>cs t. buf = concat cs @ t \<and> list_all chunk cs \<and> list_ex (\<lambda>c. 1 < length c) cs \<and> (t = [] \<or> cut_short t))"
proof
  assume l: "looks_utf8 buf"
  from loop_split [OF l [unfolded looks_utf8_def]] obtain cs t where
    s: "buf = concat cs @ t" "list_all chunk cs" "t = [] \<or> cut_short t" by blast
  have "looks_utf8_loop (list_ex (\<lambda>c. 1 < length c) cs) t"
    using l s loop_chunks [OF s(2), of False t] by (simp add: looks_utf8_def)
  then have "list_ex (\<lambda>c. 1 < length c) cs" using s(3) loop_cut by auto
  with s show "\<exists>cs t. buf = concat cs @ t \<and> list_all chunk cs \<and> list_ex (\<lambda>c. 1 < length c) cs \<and> (t = [] \<or> cut_short t)"
    by blast
next
  assume "\<exists>cs t. buf = concat cs @ t \<and> list_all chunk cs \<and> list_ex (\<lambda>c. 1 < length c) cs \<and> (t = [] \<or> cut_short t)"
  then obtain cs t where s: "buf = concat cs @ t" "list_all chunk cs" "list_ex (\<lambda>c. 1 < length c) cs" "t = [] \<or> cut_short t"
    by blast
  then show "looks_utf8 buf"
    using loop_chunks [OF s(2), of False t] loop_cut [of t] by (auto simp: looks_utf8_def)
qed

section \<open>Properties\<close>

text \<open>C30. \<^verbatim>\<open>looks_utf8\<close> accepts exactly the buffers made of bytes of text and of complete multi-byte sequences, at
  least one, of which the last sequence may be cut short by the end of the buffer.\<close>

theorem looks_utf8_chunks:
  "looks_utf8 buf = (\<exists>cs t. buf = concat cs @ t \<and> list_all chunk cs \<and> list_ex (\<lambda>c. 1 < length c) cs \<and> (t = [] \<or> cut_short t))"
  by (rule looks_utf8_iff)

text \<open>C31. Code points, of which those of ASCII are characters of text, encoded by UTF-8 look like UTF-8 exactly when one of them
  is outside of ASCII.\<close>

theorem looks_utf8_encode:
  assumes "\<forall>n\<in>set ns. text_point n"
  shows "looks_utf8 (concat (map utf8_encode ns)) \<longleftrightarrow> (\<exists>n\<in>set ns. 0x80 \<le> n)"
proof -
  have "list_all chunk (map utf8_encode ns)" using assms utf8_encode_chunk by (simp add: list_all_iff)
  from loop_chunks [OF this, of False "[]"] show ?thesis
    using assms utf8_encode_chunk(2) by (auto simp: looks_utf8_def list_ex_iff)
qed

theorem looks_utf8_encode_witness:
  "looks_utf8 (concat (map utf8_encode [0x63, 0x61, 0x66, 0xE9])) \<and> \<not> looks_utf8 (concat (map utf8_encode [0x63, 0x61, 0x66]))"
proof -
  have "text_chars ! 0x63 = T" "text_chars ! 0x61 = T" "text_chars ! 0x66 = T" by code_simp+
  then have "\<forall>n\<in>set [0x63, 0x61, 0x66, 0xE9]. text_point n" "\<forall>n\<in>set [0x63, 0x61, 0x66]. text_point n"
    by (simp_all add: text_point_def)
  moreover have "\<exists>n\<in>set [0x63, 0x61, 0x66, 0xE9]. (0x80::nat) \<le> n" "\<not> (\<exists>n\<in>set [0x63, 0x61, 0x66]. (0x80::nat) \<le> n)" by simp_all
  ultimately show ?thesis using looks_utf8_encode by blast
qed

lemma lead_not_text: "lead k b \<Longrightarrow> text_char b \<noteq> T"
proof -
  assume "lead k b"
  moreover have "list_all (\<lambda>n. (word_of_nat n :: 8 word) AND 0x80 = 0 \<or> (word_of_nat n :: 8 word) AND 0x40 = 0
      \<or> text_char (word_of_nat n) \<noteq> T) [0..<256]" by code_simp
  moreover have "unat b \<in> set [0..<256]" using unsigned_less [of b] by simp
  ultimately have "text_char (word_of_nat (unat b)) \<noteq> T" unfolding list_all_iff lead_def by fastforce
  then show ?thesis by simp
qed

lemma looks_ascii_iff: "looks_ascii buf \<longleftrightarrow> (\<forall>b\<in>set buf. text_char b = T)"
  by (induction buf) auto

text \<open>The guesses are nested: what looks like ASCII looks like Latin-1, and what looks like Latin-1 looks like
  extended ASCII; no buffer that looks like ASCII looks like UTF-8.\<close>

theorem looks_nested:
  "(if looks_ascii buf then looks_latin1 buf \<and> \<not> looks_utf8 buf else True)
   \<and> (if looks_latin1 buf then looks_extended buf else True)"
proof -
  have "looks_ascii buf \<Longrightarrow> looks_latin1 buf" "looks_latin1 buf \<Longrightarrow> looks_extended buf"
    by (induction buf) (auto split: if_splits)
  moreover have "\<not> looks_ascii buf" if "looks_utf8 buf"
  proof -
    from that obtain cs t c where c: "buf = concat cs @ t" "chunk c" "1 < length c" "c \<in> set cs"
      unfolding looks_utf8_iff list_ex_iff list_all_iff by blast
    from c(2,3) obtain k b ds where "c = b # ds" "lead k b" by (auto simp: chunk_def)
    then have "b \<in> set (concat cs)" "text_char b \<noteq> T" using c(4) lead_not_text by (auto intro: bexI [of _ c])
    then have "b \<in> set buf" "text_char b \<noteq> T" using c(1) by simp_all
    then show ?thesis by (auto simp: looks_ascii_iff)
  qed
  ultimately show ?thesis by auto
qed

section \<open>The byte order mark\<close>

text \<open>
  The marks are FE FF for UTF-16BE and FF FE for UTF-16LE. On a big-endian machine the answers are these;
  on a little-endian one, where \<^verbatim>\<open>*(uint16_t*)buf\<close> swaps the bytes, they are exchanged. The tests for UTF-32 after
  them name the wrong order on a little-endian machine too.
\<close>

lemma unicode_BOM_big_endian:
  "unicode_BOM True [0xFE, 0xFF] = Some ''UTF-16BE''" "unicode_BOM True [0xFF, 0xFE] = Some ''UTF-16LE''"
  "unicode_BOM True [0xEF, 0xBB, 0xBF] = Some ''UTF-8''" "unicode_BOM False [0xEF, 0xBB, 0xBF] = Some ''UTF-8''"
  by code_simp+

lemma unicode_BOM_little_endian:
  "unicode_BOM False [0xFE, 0xFF] = Some ''UTF-16LE''" "unicode_BOM False [0xFF, 0xFE] = Some ''UTF-16BE''"
  by code_simp+

text \<open>The version of a PDF file is reported as the codes of the digits.\<close>

lemma pdf_ver_digits: "pdf_ver [0x25, 0x50, 0x44, 0x46, 0x2D, 0x31, 0x2E, 0x34] = Some (0x31, 0x34)"
  by code_simp

end
