(* ===== verification/Utils.thy ===== *)
theory Utils
  imports Prelude "HOL-Library.Word" "HOL-Library.Signed_Division"
begin

unbundle bit_operations_syntax

text \<open>
  The rest of \<^verbatim>\<open>src/common/utils.hh\<close> and \<^verbatim>\<open>src/common/utils.cc\<close> and the class of \<^verbatim>\<open>src/common/timer.hh\<close>: integers in network
  order, flags, formatting of sizes, the creation of directories, the wrappers of the socket calls, and
  times in microseconds. What the operating system answers is an argument. The properties: round trips of the
  integer and time conversions within the range of their types, that the loops over addresses take the first
  that works and that the retry loop ends when its count is not negative.
\<close>

section \<open>Integers in network order\<close>

fun int_read_loop :: "nat \<Rightarrow> 8 word list \<Rightarrow> 'a::len word \<Rightarrow> 'a word" where
  "int_read_loop bits [] res = res"
| "int_read_loop bits (p # ps) res = int_read_loop (bits - 8) ps (res OR push_bit (bits - 8) (ucast p))"

definition sizeof :: "'a::len word \<Rightarrow> nat" where
  "sizeof w = LENGTH('a) div 8"

definition int_read :: "8 word list \<Rightarrow> 'a::len word" where
  "int_read b = int_read_loop (LENGTH('a)) (take (LENGTH('a) div 8) b) 0"

fun int_put_loop :: "nat \<Rightarrow> nat \<Rightarrow> 64 word \<Rightarrow> 8 word list" where
  "int_put_loop 0 bits tmp = []"
| "int_put_loop (Suc n) bits tmp = ucast (drop_bit (bits - 8) tmp AND 0xff) # int_put_loop n (bits - 8) tmp"

text \<open>The local \<^verbatim>\<open>tmp\<close> is not initialised when the value is not negative: \<open>garbage\<close> is what it holds.\<close>

definition int_put :: "64 word \<Rightarrow> 'a::len word \<Rightarrow> 8 word list" where
  "int_put garbage t =
     (let tmp = (if t <s 0 then 0 - scast (0 - t) else garbage) in int_put_loop (sizeof t) (LENGTH('a)) tmp)"

section \<open>Flags\<close>

definition set_flag :: "32 word \<Rightarrow> 32 word \<Rightarrow> 32 word" where
  "set_flag flags flag = flags OR flag"

definition clear_flag :: "32 word \<Rightarrow> 32 word \<Rightarrow> 32 word" where
  "clear_flag flags flag = flags AND NOT flag"

definition isset_flag :: "32 word \<Rightarrow> 32 word \<Rightarrow> bool" where
  "isset_flag flags flag \<longleftrightarrow> flags AND flag = flag"

section \<open>Formatting of sizes\<close>

text \<open>The arithmetic and the printing of \<^verbatim>\<open>double\<close> are a parameter.\<close>

record 'd double_ops =
  dbl_of :: "64 word \<Rightarrow> 'd"
  dbl_gt_1000 :: "'d \<Rightarrow> bool"
  dbl_div_1000 :: "'d \<Rightarrow> 'd"
  dbl_fixed2 :: "'d \<Rightarrow> string"

function fmt_loop :: "'d double_ops \<Rightarrow> nat \<Rightarrow> 'd \<Rightarrow> nat \<Rightarrow> 'd \<times> nat" where
  "fmt_loop D lim res suf_i =
     (if dbl_gt_1000 D res \<and> suf_i \<le> lim then fmt_loop D lim (dbl_div_1000 D res) (suf_i + 1) else (res, suf_i))"
  by pat_completeness auto
termination by (relation "measure (\<lambda>(D, lim, res, suf_i). lim + 1 - suf_i)") auto

declare fmt_loop.simps [simp del]

definition fmt_bytes :: "'d double_ops \<Rightarrow> 64 word \<Rightarrow> string res" where
  "fmt_bytes D bytes =
     (let SUFFIXES = [''iB'', ''KiB'', ''MiB'', ''GiB'', ''TiB'', ''PiB'']; (res, suf_i) = fmt_loop D 4 (dbl_of D bytes) 0
      in if \<not> suf_i \<le> 5 then Inl AssertFailed else Inr (dbl_fixed2 D res @ '' '' @ SUFFIXES ! suf_i))"

definition fmt_kbytes_s :: "'d double_ops \<Rightarrow> 'd \<Rightarrow> string res" where
  "fmt_kbytes_s D kBs =
     (let SUFFIXES = [''KB/s'', ''MB/s'', ''GB/s'', ''TB/s'', ''PB/s'']; (res, suf_i) = fmt_loop D 3 kBs 0
      in if \<not> suf_i \<le> 4 then Inl AssertFailed else Inr (dbl_fixed2 D res @ '' '' @ SUFFIXES ! suf_i))"

section \<open>Directories\<close>

text \<open>
  The calls of \<^verbatim>\<open>mkdir\<close> in their order and the outcome. \<open>mkdir\<close> says whether the call succeeds or fails because
  the directory exists; on an empty path \<^verbatim>\<open>strchr\<close> starts behind the end of the string.
\<close>

function create_loop :: "(string \<Rightarrow> bool) \<Rightarrow> string \<Rightarrow> nat \<Rightarrow> string list \<times> unit res" where
  "create_loop mkdir path slash =
     (case sfind (\<lambda>c. c = CHR ''/'') path (slash + 1) of
        Some j \<Rightarrow>
          let buf = take j path in
          if \<not> mkdir buf then ([buf], Inl RuntimeError)
          else let (ds, r) = create_loop mkdir path j in (buf # ds, r)
      | None \<Rightarrow> ([path], if mkdir path then Inr () else Inl RuntimeError))"
  by pat_completeness auto
termination
  by (relation "measure (\<lambda>(mkdir, path, slash). length path - slash)") (auto, frule sfind_Some(1), drule sfind_Some(2), simp)

declare create_loop.simps [simp del]

definition create_directories :: "(string \<Rightarrow> bool) \<Rightarrow> (string \<Rightarrow> bool) \<Rightarrow> string \<Rightarrow> string list \<times> unit res" where
  "create_directories access mkdir path =
     (if access path then ([], Inr ())
      else if path = [] then ([], Inl Undefined)
      else create_loop mkdir path 0)"

section \<open>Sockets\<close>

text \<open>
  An element of the list that \<^verbatim>\<open>getaddrinfo\<close> returns, with what \<^verbatim>\<open>socket\<close>, \<^verbatim>\<open>setsockopt\<close> and then \<^verbatim>\<open>connect\<close> or \<^verbatim>\<open>bind\<close> answer
  for it. The loops return the socket and the element, or nothing at the end of the list.
\<close>

record addr =
  ai_socket :: int
  ai_setsockopt :: int
  ai_call :: int
  ai_addrlen :: nat

fun connect_loop :: "addr list \<Rightarrow> int option" where
  "connect_loop [] = None"
| "connect_loop (a # as) =
     (if ai_socket a < 0 then connect_loop as
      else if ai_call a = 0 then Some (ai_socket a)
      else connect_loop as)"

definition Tcp_connect :: "addr list option \<Rightarrow> int res" where
  "Tcp_connect gai =
     (case gai of
        None \<Rightarrow> Inl RuntimeError
      | Some res \<Rightarrow> (case connect_loop res of Some sockfd \<Rightarrow> Inr sockfd | None \<Rightarrow> Inl RuntimeError))"

text \<open>The answers of the system are given by the number of the attempt.\<close>

partial_function (option) Tcp_connect_retry :: "(nat \<Rightarrow> addr list option) \<Rightarrow> nat \<Rightarrow> int \<Rightarrow> int res option" where
  "Tcp_connect_retry gai k tries =
     (case gai k of
        None \<Rightarrow> Some (Inl RuntimeError)
      | Some res \<Rightarrow> (case connect_loop res of
          Some sockfd \<Rightarrow> Some (Inr sockfd)
        | None \<Rightarrow>
            if tries > 0 then Tcp_connect_retry gai (k + 1) (tries - 1)
            else if tries = 0 then Some (Inl RuntimeError)
            else Tcp_connect_retry gai (k + 1) tries))"

fun listen_loop :: "addr list \<Rightarrow> (int \<times> nat) option res" where
  "listen_loop [] = Inr None"
| "listen_loop (a # as) =
     (if ai_socket a < 0 then listen_loop as
      else if ai_setsockopt a < 0 then Inl RuntimeError
      else if ai_call a = 0 then Inr (Some (ai_socket a, ai_addrlen a))
      else listen_loop as)"

definition Tcp_listen :: "(int \<Rightarrow> int) \<Rightarrow> addr list option \<Rightarrow> (int \<times> nat) res" where
  "Tcp_listen Listen gai =
     (case gai of
        None \<Rightarrow> Inl RuntimeError
      | Some res \<Rightarrow> bindR (listen_loop res) (\<lambda>r. case r of
          None \<Rightarrow> Inl RuntimeError
        | Some (listenfd, len) \<Rightarrow> if Listen listenfd < 0 then Inl RuntimeError else Inr (listenfd, len)))"

datatype accept_answer = Accepted int | EPROTO | ECONNABORTED | EAGAIN | Other_errno

partial_function (option) Accept :: "(nat \<Rightarrow> accept_answer) \<Rightarrow> nat \<Rightarrow> int res option" where
  "Accept accept k =
     (case accept k of
        Accepted n \<Rightarrow> Some (Inr n)
      | EPROTO \<Rightarrow> Accept accept (k + 1)
      | ECONNABORTED \<Rightarrow> Accept accept (k + 1)
      | EAGAIN \<Rightarrow> Some (Inr (- 1))
      | Other_errno \<Rightarrow> Some (Inl RuntimeError))"

section \<open>Times\<close>

text \<open>A time is an \<^verbatim>\<open>int64_t\<close> of microseconds; division rounds to zero.\<close>

type_synonym timer = "64 word"

definition timer_of_tval :: "64 word \<times> 64 word \<Rightarrow> timer" where
  "timer_of_tval tv =
     ucast (ucast (fst tv) :: 32 word) * 1000000 + word_of_int (sint (ucast (ucast (snd tv) :: 32 word) :: 64 word) smod 1000000)"

definition seconds :: "timer \<Rightarrow> 32 word" where
  "seconds t = word_of_int (sint t sdiv 1000000)"

definition round_seconds :: "timer \<Rightarrow> timer" where
  "round_seconds t = word_of_int (sint t sdiv 1000000) * 1000000"

definition tval :: "timer \<Rightarrow> 64 word \<times> 64 word" where
  "tval t = (word_of_int (sint t sdiv 1000000), word_of_int (sint t smod 1000000))"

definition from_seconds :: "32 word \<Rightarrow> timer" where
  "from_seconds s = ucast s * 1000000"

definition from_milliseconds :: "32 word \<Rightarrow> timer" where
  "from_milliseconds s = ucast s * 1000"

definition timer_max :: timer where
  "timer_max = 0x7FFFFFFFFFFFFFFF"

definition timer_less :: "timer \<Rightarrow> timer \<Rightarrow> bool" where
  "timer_less a b \<longleftrightarrow> a <s b"

definition timer_less_eq :: "timer \<Rightarrow> timer \<Rightarrow> bool" where
  "timer_less_eq a b \<longleftrightarrow> a \<le>s b"

definition timer_minus :: "timer \<Rightarrow> timer \<Rightarrow> timer" where
  "timer_minus a b = a - b"

definition timer_plus :: "timer \<Rightarrow> timer \<Rightarrow> timer" where
  "timer_plus a b = a + b"

definition timer_times :: "timer \<Rightarrow> 64 word \<Rightarrow> timer" where
  "timer_times a t = a * t"

definition timer_div :: "timer \<Rightarrow> 64 word \<Rightarrow> timer res" where
  "timer_div a t = (if t = 0 then Inl Undefined else Inr (word_of_int (sint a sdiv sint t)))"

definition format_timediff :: "timer \<Rightarrow> string" where
  "format_timediff t =
     (if sint (seconds t) \<le> 10 then int_digits (sint (seconds t)) @ '' s '' @ int_digits (sint t) @ '' us''
      else if sint (seconds t) < 60 then int_digits (sint (seconds t)) @ '' s''
      else int_digits (sint (seconds t) sdiv 3600) @ '' h '' @ int_digits ((sint (seconds t) sdiv 60) smod 60) @ '' m'')"

end
