(* ===== verification/Utils_Props.thy ===== *)
theory Utils_Props
  imports Utils
begin

text \<open>
  Lemmas and properties of the functions of \<^verbatim>\<open>utils.hh\<close>, \<^verbatim>\<open>utils.cc\<close> and \<^verbatim>\<open>timer.hh\<close>.
\<close>

section \<open>Integers in network order\<close>

lemma bit_int_read_loop:
  fixes res :: "'a::len word"
  shows "bits = 8 * length bs \<Longrightarrow> bit (int_read_loop bits bs res) k \<longleftrightarrow>
     k < LENGTH('a) \<and> (bit res k \<or> k < bits \<and> bit (bs ! (length bs - 1 - k div 8)) (k mod 8))"
proof (induction bits bs res rule: int_read_loop.induct)
  case (1 bits res)
  then show ?case by (auto dest: bit_imp_le_length)
next
  case (2 bits p ps res)
  let ?m = "8 * length ps"
  have m: "bits - 8 = ?m" using "2.prems" by simp
  have IH: "bit (int_read_loop bits (p # ps) res) k \<longleftrightarrow> k < LENGTH('a) \<and>
      (bit (res OR push_bit ?m (ucast p)) k \<or> k < ?m \<and> bit (ps ! (length ps - 1 - k div 8)) (k mod 8))"
    using "2.IH" m by simp
  have low: "(p # ps) ! (length (p # ps) - 1 - k div 8) = ps ! (length ps - 1 - k div 8)" if "k < ?m"
  proof -
    have "k div 8 < length ps" using that by (simp add: less_mult_imp_div_less mult.commute)
    then have "length (p # ps) - 1 - k div 8 = Suc (length ps - 1 - k div 8)" by simp
    then show ?thesis by simp
  qed
  consider "k < ?m" | "?m \<le> k" "k < ?m + 8" | "?m + 8 \<le> k" by linarith
  then show ?case
  proof cases
    case 1
    then show ?thesis using low "2.prems" unfolding IH by (auto simp: bit_simps)
  next
    case 2
    then have "k div 8 = length ps" "k mod 8 = k - ?m" by (auto simp: div_nat_eqI modulo_nat_def)
    then show ?thesis using 2 "2.prems" unfolding IH by (auto simp: bit_simps)
  next
    case 3
    then have "\<not> bit p (k - ?m)" using bit_imp_le_length [of p "k - ?m"] by auto
    then show ?thesis using 3 "2.prems" unfolding IH by (auto simp: bit_simps)
  qed
qed

lemma length_int_put_loop [simp]: "length (int_put_loop n bits tmp) = n"
  by (induction n bits tmp rule: int_put_loop.induct) simp_all

lemma nth_int_put_loop:
  "bits = 8 * n \<Longrightarrow> i < n \<Longrightarrow> int_put_loop n bits tmp ! i = ucast (drop_bit (8 * (n - 1 - i)) tmp AND 0xff)"
proof (induction n arbitrary: bits i)
  case (Suc n)
  then show ?case by (cases i) simp_all
qed simp

lemma bit_byte: "bit (0xff :: int) j \<longleftrightarrow> j < 8"
proof -
  have "(0xff :: int) = mask 8" by (simp add: mask_eq_exp_minus_1)
  then show ?thesis by (simp only: bit_mask_iff) (simp add: possible_bit_def)
qed

lemma int_read_put_loop:
  assumes "LENGTH('a::len) = 8 * n" "n \<le> 8"
  shows "(int_read (int_put_loop n (LENGTH('a)) tmp) :: 'a word) = ucast tmp"
proof (rule bit_word_eqI)
  fix k assume k: "k < LENGTH('a)"
  let ?bs = "int_put_loop n (LENGTH('a)) tmp"
  have i: "n - 1 - k div 8 < n" "8 * (n - 1 - (n - 1 - k div 8)) = 8 * (k div 8)" using k assms(1) by auto
  have "bit (?bs ! (n - 1 - k div 8)) (k mod 8) = bit tmp k"
    using nth_int_put_loop [OF assms(1) i(1), of tmp] i(2) mod_less_divisor [of 8 k] less_trans [of "k mod 8" 8 64]
    by (simp add: bit_simps bit_byte)
  then show "bit (int_read ?bs :: 'a word) k = bit (ucast tmp :: 'a word) k"
    using k assms bit_int_read_loop [of "LENGTH('a)" ?bs "0 :: 'a word" k]
    by (simp add: int_read_def bit_simps)
qed

lemma ucast_minus_scast:
  assumes "LENGTH('a::len) \<le> 64"
  shows "(ucast (- (scast (- t) :: 64 word)) :: 'a word) = t"
proof -
  have 1: "(ucast (- w) :: 'a word) = - ucast w" for w :: "64 word"
  proof (transfer fixing:)
    fix k :: int
    have "take_bit (LENGTH('a)) (- take_bit 64 k) = take_bit (LENGTH('a)) (take_bit 64 (- take_bit 64 k))"
      using assms by (simp add: min_def)
    also have "\<dots> = take_bit (LENGTH('a)) (- k)" using assms by (simp add: take_bit_minus min_def)
    finally show "take_bit (LENGTH('a)) (take_bit (LENGTH(64)) (- k)) = take_bit (LENGTH('a)) (- take_bit (LENGTH(64)) k)"
      using assms by (simp add: min_def)
  qed
  have 2: "(ucast (scast u :: 64 word) :: 'a word) = u" for u :: "'a word"
  proof (rule bit_word_eqI)
    fix k assume "k < LENGTH('a)"
    then show "bit (ucast (scast u :: 64 word) :: 'a word) k = bit u k"
      using assms by (cases "k = LENGTH('a) - Suc 0") (auto simp: bit_simps min_def)
  qed
  show ?thesis unfolding 1 2 by simp
qed

section \<open>Properties\<close>

text \<open>A negative integer of 8, 16, 32 or 64 bits that \<^verbatim>\<open>int_put\<close> writes in network order is read back by \<^verbatim>\<open>int_read\<close>.\<close>

theorem int_put_read_negative:
  fixes t :: "'a::len word"
  assumes "LENGTH('a) \<in> {8, 16, 32, 64}" "t <s 0"
  shows "int_read (int_put garbage t) = t"
proof -
  obtain n where n: "LENGTH('a) = 8 * n" "n \<le> 8" using assms(1) by (auto intro: that [of 1] that [of 2] that [of 4] that [of 8])
  have "int_put garbage t = int_put_loop n (LENGTH('a)) (- scast (- t))"
    using assms(2) n by (simp add: int_put_def sizeof_def)
  then show ?thesis using int_read_put_loop [OF n] ucast_minus_scast [of t] n by simp
qed

theorem int_put_read_negative_witness:
  "int_read (int_put 0 (- 2 :: 32 word)) = (- 2 :: 32 word) \<and> int_put 0 (- 2 :: 32 word) = [0xFF, 0xFF, 0xFF, 0xFE]"
  using int_put_read_negative [of "- 2 :: 32 word" 0] by simp code_simp

text \<open>A value that is not negative is not read back: what is written is what \<^verbatim>\<open>tmp\<close> happens to hold.\<close>

lemma int_put_not_negative: "int_read (int_put 0xAB (5 :: 32 word)) = (0xAB :: 32 word)"
  by code_simp

section \<open>Flags\<close>

text \<open>A flag is set after \<^verbatim>\<open>set_flag\<close> and, unless it is empty, not set after \<^verbatim>\<open>clear_flag\<close>; both keep every flag that
  has no bit in common with it, and clearing takes back the setting of a flag of which no bit was set.\<close>

theorem flag_laws:
  "isset_flag (set_flag f x) x \<and> (isset_flag (clear_flag f x) x \<longleftrightarrow> x = 0)
   \<and> (x AND y = 0 \<longrightarrow> isset_flag (set_flag f x) y = isset_flag f y \<and> isset_flag (clear_flag f x) y = isset_flag f y)
   \<and> (f AND x = 0 \<longrightarrow> clear_flag (set_flag f x) x = f)"
proof (intro conjI impI)
  show "isset_flag (set_flag f x) x"
    unfolding isset_flag_def set_flag_def by (rule bit_word_eqI) (auto simp: bit_simps)
  have "clear_flag f x AND x = 0"
    unfolding clear_flag_def by (rule bit_word_eqI) (auto simp: bit_simps)
  then show "isset_flag (clear_flag f x) x \<longleftrightarrow> x = 0" by (auto simp: isset_flag_def)
next
  assume "x AND y = 0"
  then have d: "bit x k \<Longrightarrow> \<not> bit y k" for k by (metis bit_0_eq bit_and_iff bot_apply bot_bool_def)
  have "(f OR x) AND y = f AND y" "(f AND NOT x) AND y = f AND y"
    by (rule bit_word_eqI, use d in \<open>auto simp: bit_simps\<close>)+
  then show "isset_flag (set_flag f x) y = isset_flag f y" "isset_flag (clear_flag f x) y = isset_flag f y"
    by (simp_all add: isset_flag_def set_flag_def clear_flag_def)
next
  assume "f AND x = 0"
  then have d: "bit f k \<Longrightarrow> \<not> bit x k" for k by (metis bit_0_eq bit_and_iff bot_apply bot_bool_def)
  show "clear_flag (set_flag f x) x = f"
    unfolding set_flag_def clear_flag_def by (rule bit_word_eqI) (use d in \<open>auto simp: bit_simps\<close>)
qed

theorem flag_laws_witness:
  "isset_flag (set_flag 4 3) 4 \<and> clear_flag (set_flag 4 3) 3 = 4"
  using flag_laws [of 4 3 4] by (simp add: isset_flag_def)

section \<open>Sizes\<close>

lemma fmt_loop_bound: "suf_i \<le> lim + 1 \<Longrightarrow> snd (fmt_loop D lim res suf_i) \<le> lim + 1"
proof (induction D lim res suf_i rule: fmt_loop.induct)
  case (1 D lim res suf_i)
  then show ?case by (subst fmt_loop.simps) auto
qed

text \<open>Formatting a size never fails its assertion, whatever the arithmetic on \<^verbatim>\<open>double\<close>, and prints one of the units.\<close>

theorem fmt_sizes_total:
  "(\<exists>d u. fmt_bytes D bytes = Inr (d @ '' '' @ u) \<and> u \<in> {''iB'', ''KiB'', ''MiB'', ''GiB'', ''TiB'', ''PiB''})
   \<and> (\<exists>d u. fmt_kbytes_s D k = Inr (d @ '' '' @ u) \<and> u \<in> {''KB/s'', ''MB/s'', ''GB/s'', ''TB/s'', ''PB/s''})"
proof
  obtain d i where r: "fmt_loop D 4 (dbl_of D bytes) 0 = (d, i)" by fastforce
  then have "i \<le> 5" using fmt_loop_bound [of 0 4 D "dbl_of D bytes"] by simp
  moreover have "[''iB'', ''KiB'', ''MiB'', ''GiB'', ''TiB'', ''PiB''] ! i \<in> set [''iB'', ''KiB'', ''MiB'', ''GiB'', ''TiB'', ''PiB'']"
    using \<open>i \<le> 5\<close> by (intro nth_mem) simp
  ultimately show "\<exists>d u. fmt_bytes D bytes = Inr (d @ '' '' @ u) \<and> u \<in> {''iB'', ''KiB'', ''MiB'', ''GiB'', ''TiB'', ''PiB''}"
    using r unfolding fmt_bytes_def Let_def by auto
next
  obtain d i where r: "fmt_loop D 3 k 0 = (d, i)" by fastforce
  then have "i \<le> 4" using fmt_loop_bound [of 0 3 D k] by simp
  moreover have "[''KB/s'', ''MB/s'', ''GB/s'', ''TB/s'', ''PB/s''] ! i \<in> set [''KB/s'', ''MB/s'', ''GB/s'', ''TB/s'', ''PB/s'']"
    using \<open>i \<le> 4\<close> by (intro nth_mem) simp
  ultimately show "\<exists>d u. fmt_kbytes_s D k = Inr (d @ '' '' @ u) \<and> u \<in> {''KB/s'', ''MB/s'', ''GB/s'', ''TB/s'', ''PB/s''}"
    using r unfolding fmt_kbytes_s_def Let_def by auto
qed

section \<open>Directories\<close>

lemma sfind_next:
  assumes "sfind P s pos = Some j"
  shows "filter (\<lambda>i. P (s ! i)) [pos..<length s] = j # filter (\<lambda>i. P (s ! i)) [Suc j..<length s]"
proof -
  note j = sfind_Some [OF assms]
  have "[pos..<length s] = [pos..<j] @ j # [Suc j..<length s]"
    using j(1,2) by (metis upt_add_eq_append le_add_diff_inverse less_imp_le_nat upt_conv_Cons)
  moreover have "filter (\<lambda>i. P (s ! i)) [pos..<j] = []" using j(4) by (simp add: filter_empty_conv)
  ultimately show ?thesis using j(3) by simp
qed

text \<open>The directories above a path, from the top, and the path itself; they are created in this order up to the
  first that fails.\<close>

definition ancestors :: "string \<Rightarrow> nat \<Rightarrow> string list" where
  "ancestors path k = map (\<lambda>j. take j path) (filter (\<lambda>j. path ! j = CHR ''/'') [Suc k..<length path]) @ [path]"

fun mkdirs :: "(string \<Rightarrow> bool) \<Rightarrow> string list \<Rightarrow> string list \<times> unit res" where
  "mkdirs mkdir [] = ([], Inr ())"
| "mkdirs mkdir (d # ds) = (if mkdir d then (d # fst (mkdirs mkdir ds), snd (mkdirs mkdir ds)) else ([d], Inl RuntimeError))"

lemma nth_in_drop: "pos \<le> j \<Longrightarrow> j < length s \<Longrightarrow> s ! j \<in> set (drop pos s)"
  using nth_mem [of "j - pos" "drop pos s"] by simp

lemma create_loop_mkdirs: "create_loop mkdir path slash = mkdirs mkdir (ancestors path slash)"
proof (induction mkdir path slash rule: create_loop.induct)
  case (1 mkdir path slash)
  show ?case
  proof (cases "sfind (\<lambda>c. c = CHR ''/'') path (slash + 1)")
    case None
    then have "filter (\<lambda>j. path ! j = CHR ''/'') [Suc slash..<length path] = []"
      using nth_in_drop [of "slash + 1" _ path] by (auto simp: sfind_None filter_empty_conv)
    with None show ?thesis by (subst create_loop.simps) (simp add: ancestors_def)
  next
    case (Some j)
    have "ancestors path slash = take j path # ancestors path j"
      using sfind_next [OF Some] by (simp add: ancestors_def)
    with Some 1 [OF Some refl] show ?thesis
      by (subst create_loop.simps) (auto simp: Let_def split: prod.split)
  qed
qed

text \<open>C33. \<^verbatim>\<open>create_directories\<close> creates the directories above the path from the top and then the path, and stops with an
  error at the first that can neither be created nor exists; nothing is created when the path is accessible.\<close>

theorem create_directories_order:
  assumes "path \<noteq> []"
  shows "create_directories access mkdir path = (if access path then ([], Inr ()) else mkdirs mkdir (ancestors path 0))"
  using assms by (simp add: create_directories_def create_loop_mkdirs)

theorem create_directories_order_witness:
  "create_directories (\<lambda>_. False) (\<lambda>_. True) ''/var/db'' = ([''/var'', ''/var/db''], Inr ())"
proof -
  have "mkdirs (\<lambda>_. True) (ancestors ''/var/db'' 0) = ([''/var'', ''/var/db''], Inr ())" by code_simp
  then show ?thesis using create_directories_order [of "''/var/db''" "\<lambda>_. False" "\<lambda>_. True"] by simp
qed

section \<open>Sockets\<close>

lemma connect_loop_find:
  "connect_loop as = map_option ai_socket (List.find (\<lambda>a. 0 \<le> ai_socket a \<and> ai_call a = 0) as)"
  by (induction as) auto

definition settled :: "addr list option \<Rightarrow> bool" where
  "settled g \<longleftrightarrow> (case g of None \<Rightarrow> True | Some as \<Rightarrow> connect_loop as \<noteq> None)"

lemma retry_result:
  "Tcp_connect_retry gai k (int n) =
     Some (case List.find (\<lambda>i. settled (gai i)) [k..<k + n + 1] of None \<Rightarrow> Inl RuntimeError | Some i \<Rightarrow> Tcp_connect (gai i))"
proof (induction n arbitrary: k)
  case 0
  then show ?case by (subst Tcp_connect_retry.simps) (auto simp: settled_def Tcp_connect_def split: option.splits)
next
  case (Suc n)
  have "[k..<k + Suc n + 1] = k # [k + 1..<k + 1 + n + 1]" by (simp add: upt_conv_Cons)
  then show ?case using Suc.IH [of "k + 1"]
    by (subst Tcp_connect_retry.simps) (auto simp: settled_def Tcp_connect_def split: option.splits)
qed

text \<open>C32. With a count of tries that is not negative the retry loop ends, and its result is determined by the first
  attempt, among as many as the count and one more, at which an address accepts the connection or the name
  cannot be resolved; without such an attempt it throws.\<close>

theorem connect_retry_ends:
  assumes "0 \<le> tries"
  shows "Tcp_connect_retry gai 0 tries = Some (case List.find (\<lambda>i. settled (gai i)) [0..<nat tries + 1] of
     None \<Rightarrow> Inl RuntimeError | Some i \<Rightarrow> Tcp_connect (gai i))"
  using retry_result [of gai 0 "nat tries"] assms by simp

definition third_time :: "nat \<Rightarrow> addr list option" where
  "third_time k = Some [\<lparr>ai_socket = 7, ai_setsockopt = 0, ai_call = (if k < 2 then -1 else 0), ai_addrlen = 16\<rparr>]"

theorem connect_retry_ends_witness:
  "Tcp_connect_retry third_time 0 3 = Some (Inr 7) \<and> Tcp_connect_retry third_time 0 1 = Some (Inl RuntimeError)"
proof -
  have "(case List.find (\<lambda>i. settled (third_time i)) [0..<nat 3 + 1] of None \<Rightarrow> Inl RuntimeError | Some i \<Rightarrow> Tcp_connect (third_time i)) = Inr 7"
    "(case List.find (\<lambda>i. settled (third_time i)) [0..<nat 1 + 1] of None \<Rightarrow> Inl RuntimeError | Some i \<Rightarrow> Tcp_connect (third_time i)) = Inl RuntimeError"
    by code_simp+
  then show ?thesis using connect_retry_ends [of 3 third_time] connect_retry_ends [of 1 third_time] by simp
qed

lemma Accept_result:
  assumes "accept (k + n) \<notin> {EPROTO, ECONNABORTED}" "\<forall>i<n. accept (k + i) \<in> {EPROTO, ECONNABORTED}"
  shows "Accept accept k = Some (case accept (k + n) of Accepted fd \<Rightarrow> Inr fd | EAGAIN \<Rightarrow> Inr (- 1) | _ \<Rightarrow> Inl RuntimeError)"
  using assms
proof (induction n arbitrary: k)
  case 0
  then show ?case by (subst Accept.simps) (auto split: accept_answer.splits)
next
  case (Suc n)
  have "Accept accept k = Accept accept (k + 1)"
    using Suc.prems(2) by (subst Accept.simps) (auto dest: spec [of _ 0])
  moreover have "\<forall>i<n. accept (k + 1 + i) \<in> {EPROTO, ECONNABORTED}" using Suc.prems(2) by auto
  ultimately show ?case using Suc.IH [of "k + 1"] Suc.prems(1) by simp
qed

text \<open>\<^verbatim>\<open>Accept\<close> tries again while the peer gave up, and returns at the first other answer: the new descriptor, -1 when
  there is nothing to accept, or an exception.\<close>

theorem Accept_first_answer:
  assumes "accept n \<notin> {EPROTO, ECONNABORTED}" "\<forall>i<n. accept i \<in> {EPROTO, ECONNABORTED}"
  shows "Accept accept 0 = Some (case accept n of Accepted fd \<Rightarrow> Inr fd | EAGAIN \<Rightarrow> Inr (- 1) | _ \<Rightarrow> Inl RuntimeError)"
  using Accept_result [of accept 0 n] assms by simp

theorem Accept_first_answer_witness:
  "Accept (\<lambda>k. if k < 2 then ECONNABORTED else Accepted 9) 0 = Some (Inr 9)"
  using Accept_first_answer [of "\<lambda>k. if k < 2 then ECONNABORTED else Accepted 9" 2] by simp

section \<open>Times\<close>

lemma sdiv_nonneg: "0 \<le> a \<Longrightarrow> a sdiv 1000000 = a div 1000000" "0 \<le> a \<Longrightarrow> a smod 1000000 = a mod (1000000::int)"
  by (simp_all add: signed_divide_int_def signed_modulo_int_def minus_div_mult_eq_mod [symmetric] sgn_if)

lemma ucast_low:
  fixes n :: int
  assumes "0 \<le> n" "n < 2 ^ 32"
  shows "(ucast (ucast (word_of_int n :: 64 word) :: 32 word) :: 64 word) = word_of_int n"
proof -
  have "uint (ucast (ucast (word_of_int n :: 64 word) :: 32 word) :: 64 word) = n"
    using assms by (simp add: unsigned_ucast_eq unsigned_of_int take_bit_int_eq_self min_def)
  then show ?thesis by (metis word_of_int_uint)
qed

text \<open>A time that is not negative and has fewer than 2^32 seconds is the time of its \<^verbatim>\<open>timeval\<close>.\<close>

theorem timer_tval_roundtrip:
  assumes "0 \<le> sint t" "sint t div 1000000 < 2 ^ 32"
  shows "timer_of_tval (tval t) = t"
proof -
  let ?s = "sint t div 1000000" and ?u = "sint t mod 1000000"
  have u: "0 \<le> ?u" "?u < 1000000" by simp_all
  have s: "0 \<le> ?s" using assms(1) by (simp add: pos_imp_zdiv_nonneg_iff)
  have "sint (word_of_int ?u :: 64 word) = ?u" using u by (simp add: signed_of_int signed_take_bit_int_eq_self)
  moreover have "timer_of_tval (tval t) = word_of_int ?s * 1000000 + word_of_int (sint (word_of_int ?u :: 64 word) smod 1000000)"
    using assms u s ucast_low [of ?s] ucast_low [of ?u]
    unfolding timer_of_tval_def tval_def fst_conv snd_conv sdiv_nonneg [OF assms(1)] by simp
  ultimately have "timer_of_tval (tval t) = word_of_int ?s * 1000000 + word_of_int ?u" using u sdiv_nonneg(2) [of ?u] by simp
  also have "\<dots> = word_of_int (?s * 1000000 + ?u)" by (simp only: of_int_add of_int_mult of_int_numeral)
  also have "\<dots> = word_of_int (sint t)" by (simp only: div_mult_mod_eq)
  finally show ?thesis by simp
qed

theorem timer_tval_roundtrip_witness: "timer_of_tval (tval 1234567890123456) = (1234567890123456 :: 64 word)"
proof -
  have "sint (1234567890123456 :: 64 word) = 1234567890123456" by simp
  then show ?thesis using timer_tval_roundtrip [of 1234567890123456] by simp
qed

text \<open>A negative time is another one after the round trip, as the comment on the class warns.\<close>

lemma timer_tval_negative: "timer_of_tval (tval (- 1000000)) = 4294967295000000"
  by code_simp

end
