(* ===== verification/Url_classifier.thy ===== *)
theory Url_classifier
  imports Url "HOL-Library.Multiset" "HOL-Library.List_Lexorder" "HOL-Library.Char_ord"
begin

text \<open>
  The class \<^verbatim>\<open>Url_classifier\<close> of \<^verbatim>\<open>src/crawler/Url_classifier.hh\<close> and \<^verbatim>\<open>src/crawler/Url_classifier.cc\<close>, which
  queues URLs by host. \<^verbatim>\<open>top_q\<close> is a \<^verbatim>\<open>std::priority_queue\<close> over a deque: \<^verbatim>\<open>push\<close> appends and calls \<^verbatim>\<open>push_heap\<close>,
  \<^verbatim>\<open>pop\<close> calls \<^verbatim>\<open>pop_heap\<close> and removes the last element, \<^verbatim>\<open>top\<close> is the front. The standard leaves open which
  of several largest elements is at the front, and the index of \<^verbatim>\<open>multi_index_container\<close> which of several
  elements with a key is found, so these three functions are a parameter. The table is the sequenced index: a
  replaced element stays where it is and an inserted one goes to the end. The properties: no URL is
  lost or duplicated by any sequence of operations, a queue holds one host, and a consumer that peeks
  and pops is served everything that waits, host by host.
\<close>

section \<open>The state\<close>

record table_elmt_t =
  te_host :: string
  te_queue :: "url list"
  te_n :: nat

record url_classifier =
  top_q :: "url list"
  table :: "table_elmt_t list"

record cl_lib =
  push_heap :: "url list \<Rightarrow> url list"
  pop_heap :: "url list \<Rightarrow> url list"
  find_host :: "string \<Rightarrow> table_elmt_t list \<Rightarrow> nat option"

definition Compare_hostname :: "url \<Rightarrow> url \<Rightarrow> bool" where
  "Compare_hostname left right \<longleftrightarrow> m_host left < m_host right"

definition pq_push :: "cl_lib \<Rightarrow> url \<Rightarrow> url list \<Rightarrow> url list" where
  "pq_push L u c = push_heap L (c @ [u])"

definition pq_pop :: "cl_lib \<Rightarrow> url list \<Rightarrow> url list" where
  "pq_pop L c = butlast (pop_heap L c)"

definition table_elmt :: "nat \<Rightarrow> table_elmt_t" where
  "table_elmt nn = \<lparr>te_host = [], te_queue = [], te_n = nn\<rparr>"

definition cl_new :: url_classifier where
  "cl_new = \<lparr>top_q = [], table = []\<rparr>"

definition cl_new_n :: "nat \<Rightarrow> url_classifier" where
  "cl_new_n N = \<lparr>top_q = [], table = map table_elmt [0..<N]\<rparr>"

text \<open>The position of an element in the sequence; the index on \<^verbatim>\<open>n\<close> is unique.\<close>

fun index_of :: "('a \<Rightarrow> bool) \<Rightarrow> 'a list \<Rightarrow> nat option" where
  "index_of P [] = None"
| "index_of P (x # xs) = (if P x then Some 0 else map_option Suc (index_of P xs))"

definition find_n :: "nat \<Rightarrow> table_elmt_t list \<Rightarrow> nat option" where
  "find_n num t = index_of (\<lambda>e. te_n e = num) t"

section \<open>The operations\<close>

definition cl_empty :: "url_classifier \<Rightarrow> bool" where
  "cl_empty c = (if top_q c \<noteq> [] then False else list_all (\<lambda>e. te_queue e = []) (table c))"

definition q_len :: "url_classifier \<Rightarrow> nat \<Rightarrow> nat res" where
  "q_len c num = (case find_n num (table c) of Some i \<Rightarrow> Inr (length (te_queue (table c ! i))) | None \<Rightarrow> Inl RuntimeError)"

definition q_len_top :: "url_classifier \<Rightarrow> nat" where
  "q_len_top c = length (top_q c)"

definition cl_size :: "url_classifier \<Rightarrow> nat" where
  "cl_size c = fold (\<lambda>e sum. sum + length (te_queue e)) (table c) 0 + length (top_q c)"

definition cl_empty_n :: "url_classifier \<Rightarrow> nat \<Rightarrow> bool res" where
  "cl_empty_n c num = (case find_n num (table c) of Some i \<Rightarrow> Inr (te_queue (table c ! i) = []) | None \<Rightarrow> Inl RuntimeError)"

definition empty_top :: "url_classifier \<Rightarrow> bool" where
  "empty_top c \<longleftrightarrow> top_q c = []"

definition enqueue :: "url \<Rightarrow> table_elmt_t \<Rightarrow> table_elmt_t" where
  "enqueue u e = e\<lparr>te_queue := te_queue e @ [u]\<rparr>"

definition cl_push :: "cl_lib \<Rightarrow> url \<Rightarrow> url_classifier \<Rightarrow> url_classifier" where
  "cl_push L u c =
     (case find_host L (m_host u) (table c) of
        Some i \<Rightarrow> c\<lparr>table := (table c)[i := enqueue u (table c ! i)]\<rparr>
      | None \<Rightarrow> (case index_of (\<lambda>e. te_queue e = []) (table c) of
          Some j \<Rightarrow> c\<lparr>table := (table c)[j := (enqueue u (table c ! j))\<lparr>te_host := m_host u\<rparr>]\<rparr>
        | None \<Rightarrow> c\<lparr>top_q := pq_push L u (top_q c)\<rparr>))"

definition cl_pop :: "nat \<Rightarrow> url_classifier \<Rightarrow> url_classifier res" where
  "cl_pop num c =
     (case find_n num (table c) of
        Some i \<Rightarrow>
          if te_queue (table c ! i) = [] \<and> top_q c = [] then Inl RuntimeError
          else if te_queue (table c ! i) = [] then Inl RuntimeError
          else Inr (c\<lparr>table := (table c)[i := (table c ! i)\<lparr>te_queue := tl (te_queue (table c ! i))\<rparr>]\<rparr>)
      | None \<Rightarrow> Inl RuntimeError)"

text \<open>
  The loop that moves the URLs of a host from \<^verbatim>\<open>top_q\<close> to a queue. It ends because every turn
  removes an element; the bound is the length of \<^verbatim>\<open>top_q\<close>.
\<close>

fun drain :: "nat \<Rightarrow> cl_lib \<Rightarrow> string \<Rightarrow> url list \<Rightarrow> url list \<Rightarrow> url list \<times> url list" where
  "drain 0 L h q tq = (q, tq)"
| "drain (Suc k) L h q tq =
     (if tq \<noteq> [] \<and> m_host (hd tq) = h then drain k L h (q @ [hd tq]) (pq_pop L tq) else (q, tq))"

definition refill :: "cl_lib \<Rightarrow> table_elmt_t \<Rightarrow> url list \<Rightarrow> table_elmt_t \<times> url list" where
  "refill L t tq =
     (let h = m_host (hd tq); (q, tq') = drain (length tq) L h (te_queue t) tq
      in (t\<lparr>te_host := h, te_queue := q\<rparr>, tq'))"

definition peek :: "cl_lib \<Rightarrow> nat \<Rightarrow> url_classifier \<Rightarrow> (url \<times> url_classifier) res" where
  "peek L num c =
     (case find_n num (table c) of
        Some i \<Rightarrow>
          if te_queue (table c ! i) = [] \<and> top_q c = [] then Inl RuntimeError
          else if te_queue (table c ! i) = [] then
            let (t, tq) = refill L (table c ! i) (top_q c) in
            Inr (hd (te_queue t), \<lparr>top_q = tq, table = (table c)[i := t]\<rparr>)
          else Inr (hd (te_queue (table c ! i)), c)
      | None \<Rightarrow>
          if top_q c \<noteq> [] then
            let (t, tq) = refill L (table_elmt num) (top_q c) in
            Inr (hd (te_queue t), \<lparr>top_q = tq, table = table c @ [t]\<rparr>)
          else Inl RuntimeError)"

text \<open>\<^verbatim>\<open>operator<<\<close> goes through the index on \<^verbatim>\<open>n\<close>, that is by increasing number.\<close>

definition cl_print :: "url_classifier \<Rightarrow> string" where
  "cl_print c =
     ''-------------'' @ [CHR 0x0A] @ ''Classifier dump:'' @ [CHR 0x0A]
     @ concat (map (\<lambda>i. ''queue '' @ nat_digits (te_n i) @ '':'' @ [CHR 0x0A]
         @ concat (map (\<lambda>u. [CHR 0x09] @ url_get u @ [CHR 0x0A]) (te_queue i))) (sort_key te_n (table c)))
     @ ''-------------'' @ [CHR 0x0A]"

section \<open>The library\<close>

text \<open>The heap order of the standard: no element compares greater than its parent.\<close>

definition heap_ok :: "url list \<Rightarrow> bool" where
  "heap_ok c \<longleftrightarrow> (\<forall>i. 0 < i \<and> i < length c \<longrightarrow> \<not> Compare_hostname (c ! ((i - 1) div 2)) (c ! i))"

locale classifier_lib =
  fixes L :: cl_lib
  assumes push_heap_mset: "mset (push_heap L c) = mset c"
    and push_heap_heap: "heap_ok c \<Longrightarrow> heap_ok (push_heap L (c @ [u]))"
    and pop_heap_mset: "mset (pop_heap L c) = mset c"
    and pop_heap_last: "c \<noteq> [] \<Longrightarrow> heap_ok c \<Longrightarrow> last (pop_heap L c) = hd c"
    and pop_heap_heap: "heap_ok c \<Longrightarrow> heap_ok (butlast (pop_heap L c))"
    and find_host_None: "find_host L h t = None \<longleftrightarrow> (\<forall>e \<in> set t. te_host e \<noteq> h)"
    and find_host_Some: "find_host L h t = Some i \<Longrightarrow> i < length t \<and> te_host (t ! i) = h"

text \<open>
  A concrete library: the heap is kept in decreasing order of the host, which has the heap order,
  and the first element with a key is found.
\<close>

definition sorted_lib :: cl_lib where
  "sorted_lib = \<lparr>push_heap = (\<lambda>c. rev (sort_key m_host c)),
     pop_heap = (\<lambda>c. case c of [] \<Rightarrow> [] | u # c \<Rightarrow> rev (sort_key m_host c) @ [u]),
     find_host = (\<lambda>h. index_of (\<lambda>e. te_host e = h))\<rparr>"

end
