(* ===== verification/Classifier_Props.thy ===== *)
theory Classifier_Props
  imports Url_classifier
begin

text \<open>
  Lemmas and properties of \<^verbatim>\<open>Url_classifier\<close>: the specification of a classifier is the multiset of the URLs
  it holds, \<open>contents\<close>; \<open>cl_inv\<close> is its invariant. The lemmas on the operations are proved for every library
  that satisfies \<open>classifier_lib\<close>.
\<close>

section \<open>Positions and sums\<close>

lemma index_of_Some: "index_of P xs = Some i \<Longrightarrow> i < length xs \<and> P (xs ! i)"
  by (induction xs arbitrary: i) (auto split: if_splits)

lemma index_of_None: "index_of P xs = None \<longleftrightarrow> (\<forall>x\<in>set xs. \<not> P x)"
  by (induction xs) auto

lemma index_of_distinct:
  "distinct (map f xs) \<Longrightarrow> i < length xs \<Longrightarrow> index_of (\<lambda>x. f x = f (xs ! i)) xs = Some i"
proof (induction xs arbitrary: i)
  case (Cons x xs)
  then show ?case by (cases i) (auto simp: image_iff)
qed simp

lemma sum_list_update_plus:
  fixes f :: "'a \<Rightarrow> 'b multiset"
  assumes "i < length xs"
  shows "sum_list (map f (xs[i := y])) + f (xs ! i) = sum_list (map f xs) + f y"
  using assms
proof (induction xs arbitrary: i)
  case (Cons x xs)
  then show ?case by (cases i) (simp_all add: ac_simps)
qed simp

lemma find_n_Some: "find_n num t = Some i \<Longrightarrow> i < length t \<and> te_n (t ! i) = num"
  using index_of_Some unfolding find_n_def by fastforce

lemma find_n_None: "find_n num t = None \<longleftrightarrow> num \<notin> te_n ` set t"
  by (auto simp: find_n_def index_of_None)

lemma find_n_at: "distinct (map te_n t) \<Longrightarrow> i < length t \<Longrightarrow> te_n (t ! i) = num \<Longrightarrow> find_n num t = Some i"
  using index_of_distinct [of te_n t i] by (simp add: find_n_def)

section \<open>The heap\<close>

lemma heap_top:
  assumes "heap_ok c" "i < length c"
  shows "m_host (c ! i) \<le> m_host (hd c)"
  using assms(2)
proof (induction i rule: less_induct)
  case (less i)
  show ?case
  proof (cases "i = 0")
    case True
    then show ?thesis using less.prems by (simp add: hd_conv_nth)
  next
    case False
    let ?p = "(i - 1) div 2"
    have "?p < i" using False by simp
    with less have "m_host (c ! ?p) \<le> m_host (hd c)" by simp
    moreover have "m_host (c ! i) \<le> m_host (c ! ?p)"
      using assms(1) less.prems False by (auto simp: heap_ok_def Compare_hostname_def)
    ultimately show ?thesis by simp
  qed
qed

lemma heap_top_set: "heap_ok c \<Longrightarrow> u \<in> set c \<Longrightarrow> m_host u \<le> m_host (hd c)"
  using heap_top by (metis in_set_conv_nth)

lemma heap_Nil [simp]: "heap_ok []"
  by (simp add: heap_ok_def)

lemma sorted_heap: "sorted (map m_host c) \<Longrightarrow> heap_ok (rev c)"
  by (auto simp: heap_ok_def Compare_hostname_def rev_nth sorted_iff_nth_mono not_less)

lemma mset_filter_True: "(\<And>x. x \<in># M \<Longrightarrow> P x) \<Longrightarrow> filter_mset P M = M"
  by (induction M) auto

lemma mset_filter_False: "(\<And>x. x \<in># M \<Longrightarrow> \<not> P x) \<Longrightarrow> filter_mset P M = {#}"
  by (induction M) auto

context classifier_lib
begin

lemma pop_mset: "c \<noteq> [] \<Longrightarrow> heap_ok c \<Longrightarrow> mset c = add_mset (hd c) (mset (pq_pop L c))"
proof -
  assume c: "c \<noteq> []" "heap_ok c"
  have ne: "pop_heap L c \<noteq> []" using pop_heap_mset [of c] c by auto
  then have "pop_heap L c = pq_pop L c @ [hd c]"
    using pop_heap_last [OF c] append_butlast_last_id [OF ne] by (simp add: pq_pop_def)
  then have "mset (pop_heap L c) = mset (pq_pop L c @ [hd c])" by simp
  then show ?thesis by (simp add: pop_heap_mset)
qed

lemma pop_heap_ok: "heap_ok c \<Longrightarrow> heap_ok (pq_pop L c)"
  by (simp add: pq_pop_def pop_heap_heap)

lemma drain_spec:
  assumes "heap_ok c" "length c \<le> k" "\<forall>u\<in>set c. m_host u \<le> h"
  shows "\<exists>g c'. drain k L h q c = (q @ g, c') \<and> heap_ok c' \<and> mset g = filter_mset (\<lambda>u. m_host u = h) (mset c)
    \<and> mset c' = filter_mset (\<lambda>u. m_host u \<noteq> h) (mset c)"
  using assms
proof (induction k arbitrary: q c)
  case (Suc k)
  show ?case
  proof (cases "c \<noteq> [] \<and> m_host (hd c) = h")
    case True
    then have m: "mset c = add_mset (hd c) (mset (pq_pop L c))" using pop_mset Suc.prems(1) by simp
    have len: "length (pq_pop L c) \<le> k"
      using arg_cong [where f = size, OF m] Suc.prems(2) by (simp only: size_mset size_add_mset)
    have "set (pq_pop L c) \<subseteq> set c" using arg_cong [where f = set_mset, OF m] by auto
    then have "\<forall>u\<in>set (pq_pop L c). m_host u \<le> h" using Suc.prems(3) by blast
    from Suc.IH [OF pop_heap_ok [OF Suc.prems(1)] len this, of "q @ [hd c]"] obtain g c' where
      g: "drain k L h (q @ [hd c]) (pq_pop L c) = (q @ hd c # g, c')" "heap_ok c'"
        "mset g = filter_mset (\<lambda>u. m_host u = h) (mset (pq_pop L c))"
        "mset c' = filter_mset (\<lambda>u. m_host u \<noteq> h) (mset (pq_pop L c))" by auto
    have "drain (Suc k) L h q c = (q @ hd c # g, c')" using True g(1) by simp
    moreover have "mset (hd c # g) = filter_mset (\<lambda>u. m_host u = h) (mset c)"
      unfolding m using True g(3) by simp
    moreover have "mset c' = filter_mset (\<lambda>u. m_host u \<noteq> h) (mset c)" unfolding m using True g(4) by simp
    ultimately show ?thesis using g(2) by blast
  next
    case False
    have ne: "m_host u \<noteq> h" if "u \<in> set c" for u
    proof
      assume h: "m_host u = h"
      have "c \<noteq> []" using that by auto
      then have "m_host (hd c) \<le> h" using Suc.prems(3) by simp
      moreover have "h \<le> m_host (hd c)" using heap_top_set [OF Suc.prems(1) that] h by simp
      ultimately show False using False \<open>c \<noteq> []\<close> by simp
    qed
    have "drain (Suc k) L h q c = (q @ [], c)" using False by auto
    moreover have "filter_mset (\<lambda>u. m_host u = h) (mset c) = {#}" using ne by (intro mset_filter_False) simp
    moreover have "filter_mset (\<lambda>u. m_host u \<noteq> h) (mset c) = mset c" using ne by (intro mset_filter_True) simp
    ultimately show ?thesis using Suc.prems(1) by (metis mset.simps(1))
  qed
qed auto

lemma refill_spec:
  assumes "heap_ok c" "c \<noteq> []" "te_queue t = []"
  obtains t' c' where "refill L t c = (t', c')" "heap_ok c'" "te_host t' = m_host (hd c)" "te_n t' = te_n t"
    "te_queue t' \<noteq> []" "mset (te_queue t') = filter_mset (\<lambda>u. m_host u = te_host t') (mset c)"
    "mset c' = filter_mset (\<lambda>u. m_host u \<noteq> te_host t') (mset c)"
proof -
  let ?h = "m_host (hd c)"
  have "\<forall>u\<in>set c. m_host u \<le> ?h" using heap_top_set [OF assms(1)] by blast
  from drain_spec [OF assms(1) order_refl this, of "[]"] obtain g c' where
    g: "drain (length c) L ?h [] c = (g, c')" "heap_ok c'" "mset g = filter_mset (\<lambda>u. m_host u = ?h) (mset c)"
      "mset c' = filter_mset (\<lambda>u. m_host u \<noteq> ?h) (mset c)" by auto
  have "hd c \<in># mset g" unfolding g(3) using assms(2) by simp
  then have "g \<noteq> []" by auto
  show ?thesis
    by (rule that [where t' = "t\<lparr>te_host := ?h, te_queue := g\<rparr>" and c' = c'])
      (use g \<open>g \<noteq> []\<close> assms(3) in \<open>simp_all add: refill_def Let_def\<close>)
qed

end

section \<open>Contents and invariant\<close>

definition contents :: "url_classifier \<Rightarrow> url multiset" where
  "contents c = mset (top_q c) + sum_list (map (\<lambda>e. mset (te_queue e)) (table c))"

definition elmt_ok :: "table_elmt_t \<Rightarrow> bool" where
  "elmt_ok e \<longleftrightarrow> (\<forall>u \<in> set (te_queue e). m_host u = te_host e)"

definition cl_inv :: "url_classifier \<Rightarrow> bool" where
  "cl_inv c \<longleftrightarrow> heap_ok (top_q c) \<and> distinct (map te_n (table c)) \<and> (\<forall>e \<in> set (table c). elmt_ok e)"

text \<open>The URLs that wait in queue \<open>num\<close>.\<close>

definition waiting :: "nat \<Rightarrow> url_classifier \<Rightarrow> url list" where
  "waiting num c = (case find_n num (table c) of Some i \<Rightarrow> te_queue (table c ! i) | None \<Rightarrow> [])"

lemma cl_inv_new: "cl_inv (cl_new_n N)" "contents (cl_new_n N) = {#}"
  by (simp_all add: cl_inv_def cl_new_n_def contents_def elmt_ok_def table_elmt_def comp_def)

lemma contents_update:
  assumes "i < length (table c)"
  shows "contents (c\<lparr>table := (table c)[i := e]\<rparr>) + mset (te_queue (table c ! i)) = contents c + mset (te_queue e)"
  using sum_list_update_plus [OF assms, of "\<lambda>e. mset (te_queue e)" e] by (simp add: contents_def ac_simps)

lemma cl_inv_update:
  assumes "cl_inv c" "i < length (table c)" "te_n e = te_n (table c ! i)" "elmt_ok e"
  shows "cl_inv (c\<lparr>table := (table c)[i := e]\<rparr>)"
proof -
  have "map te_n ((table c)[i := e]) = map te_n (table c)"
    using assms(2,3) by (simp add: map_update list_update_same_conv)
  then show ?thesis using assms set_update_subset_insert [of "table c" i e]
    by (auto simp: cl_inv_def simp del: map_update)
qed

lemma elmt_at: "cl_inv c \<Longrightarrow> i < length (table c) \<Longrightarrow> elmt_ok (table c ! i)"
  by (simp add: cl_inv_def)

lemma cl_pop_spec:
  assumes "cl_inv c"
  shows "if waiting num c = [] then cl_pop num c = Inl RuntimeError
    else \<exists>c'. cl_pop num c = Inr c' \<and> cl_inv c' \<and> contents c = add_mset (hd (waiting num c)) (contents c')
      \<and> waiting num c' = tl (waiting num c) \<and> top_q c' = top_q c"
proof (cases "find_n num (table c)")
  case None
  then show ?thesis by (simp add: waiting_def cl_pop_def)
next
  case (Some i)
  note i = find_n_Some [OF Some]
  let ?e = "(table c ! i)\<lparr>te_queue := tl (te_queue (table c ! i))\<rparr>" and ?q = "te_queue (table c ! i)"
  show ?thesis
  proof (cases "?q = []")
    case True
    then show ?thesis using Some by (simp add: waiting_def cl_pop_def)
  next
    case False
    have q: "mset ?q = add_mset (hd ?q) (mset (tl ?q))" using False by (cases ?q) simp_all
    have "elmt_ok ?e" using elmt_at [OF assms, of i] i False by (auto simp: elmt_ok_def dest: list.set_sel(2))
    then have inv: "cl_inv (c\<lparr>table := (table c)[i := ?e]\<rparr>)" using assms i by (intro cl_inv_update) simp_all
    have "contents (c\<lparr>table := (table c)[i := ?e]\<rparr>) + mset ?q = contents c + mset (tl ?q)"
      using contents_update [of i c ?e] i by simp
    then have "add_mset (hd ?q) (contents (c\<lparr>table := (table c)[i := ?e]\<rparr>)) = contents c" unfolding q by simp
    moreover have "find_n num ((table c)[i := ?e]) = Some i"
      using inv i by (intro find_n_at) (simp_all add: cl_inv_def)
    ultimately show ?thesis using Some False i inv by (simp add: waiting_def cl_pop_def)
  qed
qed

context classifier_lib
begin

lemma cl_push_spec:
  assumes "cl_inv c"
  shows "cl_inv (cl_push L u c) \<and> contents (cl_push L u c) = add_mset u (contents c)"
proof (cases "find_host L (m_host u) (table c)")
  case (Some i)
  note i = find_host_Some [OF Some]
  have "elmt_ok (enqueue u (table c ! i))"
    using elmt_at [OF assms, of i] i by (auto simp: elmt_ok_def enqueue_def)
  then show ?thesis
    using cl_inv_update [OF assms, of i "enqueue u (table c ! i)"] contents_update [of i c "enqueue u (table c ! i)"] i Some
    by (simp add: cl_push_def enqueue_def)
next
  case None
  show ?thesis
  proof (cases "index_of (\<lambda>e. te_queue e = []) (table c)")
    case (Some j)
    note j = index_of_Some [OF Some]
    let ?e = "(enqueue u (table c ! j))\<lparr>te_host := m_host u\<rparr>"
    have "elmt_ok ?e" using j by (simp add: elmt_ok_def enqueue_def)
    then show ?thesis
      using cl_inv_update [OF assms, of j ?e] contents_update [of j c ?e] j Some None
      by (simp add: cl_push_def enqueue_def)
  next
    case 2: None
    then show ?thesis using None assms push_heap_heap [of "top_q c" u]
      by (simp add: cl_push_def pq_push_def cl_inv_def contents_def push_heap_mset)
  qed
qed

lemma peek_spec:
  assumes "cl_inv c"
  shows "if waiting num c = [] \<and> top_q c = [] then peek L num c = Inl RuntimeError
    else \<exists>c'. peek L num c = Inr (hd (waiting num c'), c') \<and> cl_inv c' \<and> contents c' = contents c
      \<and> waiting num c' \<noteq> []
      \<and> (if waiting num c \<noteq> [] then c' = c
         else mset (waiting num c') = filter_mset (\<lambda>u. m_host u = m_host (hd (top_q c))) (mset (top_q c))
           \<and> mset (top_q c') = filter_mset (\<lambda>u. m_host u \<noteq> m_host (hd (top_q c))) (mset (top_q c)))"
proof (cases "waiting num c = [] \<and> top_q c \<noteq> []")
  case False
  then show ?thesis using assms
    by (auto simp: waiting_def peek_def split: option.splits)
next
  case True
  have h: "heap_ok (top_q c)" using assms by (simp add: cl_inv_def)
  have part: "mset (top_q c) = filter_mset P (mset (top_q c)) + filter_mset (\<lambda>u. \<not> P u) (mset (top_q c))" for P
    by (rule multiset_partition)
  show ?thesis
  proof (cases "find_n num (table c)")
    case None
    from refill_spec [OF h conjunct2 [OF True], of "table_elmt num"] obtain t q where
      t: "refill L (table_elmt num) (top_q c) = (t, q)" "heap_ok q" "te_host t = m_host (hd (top_q c))" "te_n t = num"
        "te_queue t \<noteq> []" "mset (te_queue t) = filter_mset (\<lambda>u. m_host u = te_host t) (mset (top_q c))"
        "mset q = filter_mset (\<lambda>u. m_host u \<noteq> te_host t) (mset (top_q c))" by (auto simp: table_elmt_def)
    let ?c = "\<lparr>top_q = q, table = table c @ [t]\<rparr>"
    have "elmt_ok t" using t(6) by (auto simp: elmt_ok_def dest!: arg_cong [of _ _ set_mset])
    then have inv: "cl_inv ?c" using assms None t by (auto simp: cl_inv_def find_n_None)
    then have "find_n num (table ?c) = Some (length (table c))"
      using t by (intro find_n_at) (simp_all add: cl_inv_def)
    moreover have "contents ?c = contents c"
      using part [of "\<lambda>u. m_host u = te_host t"] t(6,7) by (simp add: contents_def)
    ultimately show ?thesis using True None t inv by (simp add: waiting_def peek_def)
  next
    case (Some i)
    note i = find_n_Some [OF Some]
    have e: "te_queue (table c ! i) = []" using True Some by (simp add: waiting_def)
    from refill_spec [OF h conjunct2 [OF True] e] obtain t q where
      t: "refill L (table c ! i) (top_q c) = (t, q)" "heap_ok q" "te_host t = m_host (hd (top_q c))" "te_n t = te_n (table c ! i)"
        "te_queue t \<noteq> []" "mset (te_queue t) = filter_mset (\<lambda>u. m_host u = te_host t) (mset (top_q c))"
        "mset q = filter_mset (\<lambda>u. m_host u \<noteq> te_host t) (mset (top_q c))" by auto
    let ?c = "\<lparr>top_q = q, table = (table c)[i := t]\<rparr>"
    have "elmt_ok t" using t(6) by (auto simp: elmt_ok_def dest!: arg_cong [of _ _ set_mset])
    then have inv: "cl_inv ?c" using cl_inv_update [OF assms, of i t] i t by (simp add: cl_inv_def)
    then have "find_n num (table ?c) = Some i" using t i by (intro find_n_at) (simp_all add: cl_inv_def)
    moreover have "contents ?c = contents c"
      using part [of "\<lambda>u. m_host u = te_host t"] t(6,7) contents_update [of i c t] i e
      by (simp add: contents_def ac_simps)
    ultimately show ?thesis using True Some t inv e i by (simp add: waiting_def peek_def)
  qed
qed

end

interpretation sorted_lib: classifier_lib sorted_lib
proof
  show "find_host sorted_lib h t = Some i \<Longrightarrow> i < length t \<and> te_host (t ! i) = h" for h t i
    using index_of_Some [of "\<lambda>e. te_host e = h" t i] by (simp add: sorted_lib_def)
qed (auto simp: sorted_lib_def index_of_None sorted_heap split: list.split)

section \<open>Sequences of operations\<close>

text \<open>
  A client calls the operations in any order. A call that throws leaves the object as it was; the
  second component lists the URLs taken out by \<^verbatim>\<open>pop\<close>.
\<close>

datatype cl_op = Push url | Peek nat | Pop nat

fun cl_step :: "cl_lib \<Rightarrow> cl_op \<Rightarrow> url_classifier \<times> url list \<Rightarrow> url_classifier \<times> url list" where
  "cl_step L (Push u) (c, out) = (cl_push L u c, out)"
| "cl_step L (Peek n) (c, out) = (case peek L n c of Inl _ \<Rightarrow> (c, out) | Inr (u, c') \<Rightarrow> (c', out))"
| "cl_step L (Pop n) (c, out) = (case cl_pop n c of Inl _ \<Rightarrow> (c, out) | Inr c' \<Rightarrow> (c', out @ [hd (waiting n c)]))"

fun pushed :: "cl_op \<Rightarrow> url multiset" where
  "pushed (Push u) = {#u#}"
| "pushed (Peek n) = {#}"
| "pushed (Pop n) = {#}"

definition cl_run :: "cl_lib \<Rightarrow> cl_op list \<Rightarrow> url_classifier \<times> url list \<Rightarrow> url_classifier \<times> url list" where
  "cl_run L ops s = fold (cl_step L) ops s"

text \<open>A consumer that peeks and pops one queue until \<^verbatim>\<open>peek\<close> throws.\<close>

fun serve :: "nat \<Rightarrow> cl_lib \<Rightarrow> nat \<Rightarrow> url_classifier \<Rightarrow> (url list \<times> url_classifier) option" where
  "serve 0 L n c = None"
| "serve (Suc k) L n c =
     (case peek L n c of
        Inl _ \<Rightarrow> Some ([], c)
      | Inr (u, c') \<Rightarrow> (case cl_pop n c' of
          Inl _ \<Rightarrow> None
        | Inr c'' \<Rightarrow> map_option (\<lambda>(us, d). (u # us, d)) (serve k L n c'')))"

lemma fold_size_add: "fold (\<lambda>e sum. sum + length (te_queue e)) t (k::nat) = k + size (sum_list (map (\<lambda>e. mset (te_queue e)) t))"
  by (induction t arbitrary: k) simp_all

lemma waiting_size: "cl_inv c \<Longrightarrow> length (waiting n c) + length (top_q c) \<le> size (contents c)"
proof (cases "find_n n (table c)")
  case (Some i)
  then have "table c ! i \<in> set (table c)" using find_n_Some by force
  then have "mset (te_queue (table c ! i)) \<subseteq># sum_list (map (\<lambda>e. mset (te_queue e)) (table c))"
    by (simp add: sum_list_map_remove1)
  then show ?thesis using Some size_mset_mono by (fastforce simp: waiting_def contents_def)
qed (simp add: waiting_def contents_def)

abbreviation host_ge :: "url \<Rightarrow> url \<Rightarrow> bool" where
  "host_ge u v \<equiv> m_host v \<le> m_host u"

lemma waiting_host: "cl_inv c \<Longrightarrow> u \<in> set (waiting n c) \<Longrightarrow> m_host u = m_host (hd (waiting n c))"
proof (cases "find_n n (table c)")
  case (Some i)
  assume c: "cl_inv c" "u \<in> set (waiting n c)"
  then have "\<forall>v\<in>set (waiting n c). m_host v = te_host (table c ! i)"
    using Some elmt_at [OF c(1)] find_n_Some [OF Some] by (simp add: waiting_def elmt_ok_def)
  moreover have "hd (waiting n c) \<in> set (waiting n c)" using c(2) by (cases "waiting n c") auto
  ultimately show ?thesis using c(2) by simp
qed (simp add: waiting_def)

context classifier_lib
begin

lemma cl_run_spec:
  "cl_inv c \<Longrightarrow> cl_run L ops (c, out) = (c', out') \<Longrightarrow>
     cl_inv c' \<and> mset out' + contents c' = mset out + contents c + sum_list (map pushed ops)"
proof (induction ops arbitrary: c out)
  case (Cons x ops)
  obtain d out1 where d: "cl_step L x (c, out) = (d, out1)" by fastforce
  have "cl_inv d \<and> mset out1 + contents d = mset out + contents c + pushed x"
  proof (cases x)
    case (Push u)
    then show ?thesis using d cl_push_spec [OF Cons.prems(1), of u] by auto
  next
    case (Peek n)
    then show ?thesis using d Cons.prems(1) peek_spec [OF Cons.prems(1), of n]
      by (cases "waiting n c = [] \<and> top_q c = []") auto
  next
    case (Pop n)
    then show ?thesis using d Cons.prems(1) cl_pop_spec [OF Cons.prems(1), of n]
      by (cases "waiting n c = []") auto
  qed
  moreover have "cl_run L ops (d, out1) = (c', out')" using Cons.prems(2) d by (simp add: cl_run_def)
  ultimately show ?case using Cons.IH [of d out1] by (simp add: ac_simps)
qed (simp add: cl_run_def)

lemma serve_pop:
  assumes "cl_inv c" "waiting n c \<noteq> []" "peek L n c0 = Inr (hd (waiting n c), c)"
    and "\<And>d. cl_inv d \<Longrightarrow> length (waiting n d) + length (top_q d) < k \<Longrightarrow>
       \<exists>vs e. serve k L n d = Some (waiting n d @ vs, e) \<and> mset vs = mset (top_q d) \<and> sorted_wrt host_ge vs
         \<and> waiting n e = [] \<and> top_q e = [] \<and> contents d = mset (waiting n d @ vs) + contents e"
    and "length (waiting n c) + length (top_q c) < Suc k"
  shows "\<exists>vs e. serve (Suc k) L n c0 = Some (waiting n c @ vs, e) \<and> mset vs = mset (top_q c) \<and> sorted_wrt host_ge vs
    \<and> waiting n e = [] \<and> top_q e = [] \<and> contents c = mset (waiting n c @ vs) + contents e"
proof -
  from cl_pop_spec [OF assms(1), of n] assms(2) obtain d where
    d: "cl_pop n c = Inr d" "cl_inv d" "contents c = add_mset (hd (waiting n c)) (contents d)"
      "waiting n d = tl (waiting n c)" "top_q d = top_q c" by auto
  have w: "waiting n c = hd (waiting n c) # waiting n d" using assms(2) d(4) by simp
  have "length (waiting n d) + length (top_q d) < k" using assms(5) d(5) arg_cong [OF w, of length] by simp
  from assms(4) [OF d(2) this] obtain vs e where
    e: "serve k L n d = Some (waiting n d @ vs, e)" "mset vs = mset (top_q d)" "sorted_wrt host_ge vs"
      "waiting n e = []" "top_q e = []" "contents d = mset (waiting n d @ vs) + contents e" by blast
  have "serve (Suc k) L n c0 = Some (waiting n c @ vs, e)" using assms(3) d(1) e(1) w by (metis (no_types, lifting)
      append_Cons case_prod_conv option.simps(9) serve.simps(2) sum.case(2))
  moreover have "contents c = mset (waiting n c @ vs) + contents e" using arg_cong [where f = mset, OF w] d(3) e(6) by simp
  ultimately show ?thesis using e d(5) by auto
qed

lemma serve_spec:
  assumes "cl_inv c" "length (waiting n c) + length (top_q c) < k"
  shows "\<exists>vs e. serve k L n c = Some (waiting n c @ vs, e) \<and> mset vs = mset (top_q c) \<and> sorted_wrt host_ge vs
    \<and> waiting n e = [] \<and> top_q e = [] \<and> contents c = mset (waiting n c @ vs) + contents e"
  using assms
proof (induction k arbitrary: c)
  case (Suc k)
  consider "waiting n c = []" "top_q c = []" | "waiting n c \<noteq> []" | "waiting n c = []" "top_q c \<noteq> []" by blast
  then show ?case
  proof cases
    case 1
    then show ?thesis using peek_spec [OF Suc.prems(1), of n] by simp
  next
    case 2
    from peek_spec [OF Suc.prems(1), of n] 2 have "peek L n c = Inr (hd (waiting n c), c)" by auto
    from serve_pop [OF Suc.prems(1) 2 this Suc.IH Suc.prems(2)] show ?thesis .
  next
    case 3
    let ?h = "m_host (hd (top_q c))"
    from peek_spec [OF Suc.prems(1), of n] 3 obtain c' where
      c': "peek L n c = Inr (hd (waiting n c'), c')" "cl_inv c'" "contents c' = contents c" "waiting n c' \<noteq> []"
        "mset (waiting n c') = filter_mset (\<lambda>u. m_host u = ?h) (mset (top_q c))"
        "mset (top_q c') = filter_mset (\<lambda>u. m_host u \<noteq> ?h) (mset (top_q c))" by auto
    have tq: "mset (waiting n c') + mset (top_q c') = mset (top_q c)"
      unfolding c'(5,6) by (rule multiset_partition [symmetric])
    from arg_cong [where f = size, OF tq] have "length (waiting n c') + length (top_q c') < Suc k"
      using Suc.prems(2) 3 by simp
    from serve_pop [OF c'(2,4,1) Suc.IH this] obtain vs e where
      e: "serve (Suc k) L n c = Some (waiting n c' @ vs, e)" "mset vs = mset (top_q c')" "sorted_wrt host_ge vs"
        "waiting n e = []" "top_q e = []" "contents c' = mset (waiting n c' @ vs) + contents e" by blast
    have hw: "m_host u = ?h" if "u \<in> set (waiting n c')" for u
      using that arg_cong [where f = set_mset, OF c'(5)] by auto
    have hv: "m_host u \<le> ?h" if "u \<in> set vs" for u
    proof -
      have "u \<in> set (top_q c)" using that arg_cong [where f = set_mset, OF e(2)] arg_cong [where f = set_mset, OF c'(6)] by auto
      then show ?thesis using heap_top_set Suc.prems(1) by (simp add: cl_inv_def)
    qed
    have "sorted_wrt host_ge (waiting n c')" using hw by (auto simp: sorted_wrt_iff_nth_less)
    then have "sorted_wrt host_ge (waiting n c' @ vs)" using e(3) hw hv by (simp add: sorted_wrt_append)
    then show ?thesis using e tq c'(3) 3 by (intro exI [of _ "waiting n c' @ vs"] exI [of _ e]) simp
  qed
qed simp

end

section \<open>Properties\<close>

text \<open>C26. No sequence of calls loses or duplicates a URL: after any calls on a new classifier, the URLs that
  were pushed are the ones taken out by \<^verbatim>\<open>pop\<close> together with the ones still held, and every queue
  holds URLs of its host only.\<close>

theorem classifier_conserves:
  assumes "classifier_lib L" "cl_run L ops (cl_new_n N, []) = (c, out)"
  shows "mset out + contents c = sum_list (map pushed ops) \<and> cl_inv c"
  using classifier_lib.cl_run_spec [OF assms(1) cl_inv_new(1) assms(2)] by (simp add: cl_inv_new)

definition host_url :: "string \<Rightarrow> string \<Rightarrow> url" where
  "host_url h p = url_init\<lparr>m_scheme := ''http'', m_has_authority := True, m_host := h, m_query := p\<rparr>"

theorem classifier_conserves_witness:
  "let (c, out) = cl_run sorted_lib [Push (host_url ''a'' ''1''), Push (host_url ''b'' ''2''), Peek 0, Pop 0, Peek 0] (cl_new_n 1, [])
   in mset out + contents c = {#host_url ''a'' ''1'', host_url ''b'' ''2''#} \<and> cl_inv c \<and> out = [host_url ''a'' ''1'']"
proof -
  let ?ops = "[Push (host_url ''a'' ''1''), Push (host_url ''b'' ''2''), Peek 0, Pop 0, Peek 0]"
  obtain c out where r: "cl_run sorted_lib ?ops (cl_new_n 1, []) = (c, out)" by fastforce
  have "snd (cl_run sorted_lib ?ops (cl_new_n 1, [])) = [host_url ''a'' ''1'']" by code_simp
  with r show ?thesis using classifier_conserves [OF sorted_lib.classifier_lib_axioms r] by simp
qed

text \<open>C27. A consumer that peeks and pops one queue is served: it terminates, with everything that waited in its
  queue and then everything in \<^verbatim>\<open>top_q\<close>, by decreasing host, so all URLs of a host in a row.\<close>

theorem classifier_serves:
  assumes "classifier_lib L" "cl_inv c" "cl_size c < k"
  shows "\<exists>vs e. serve k L n c = Some (waiting n c @ vs, e) \<and> mset vs = mset (top_q c)
    \<and> sorted_wrt (\<lambda>u v. m_host v \<le> m_host u) vs \<and> waiting n e = [] \<and> top_q e = []"
proof -
  have "cl_size c = size (contents c)" by (simp add: cl_size_def fold_size_add contents_def)
  then have "length (waiting n c) + length (top_q c) < k" using waiting_size [OF assms(2), of n] assms(3) by simp
  from classifier_lib.serve_spec [OF assms(1,2) this] show ?thesis by blast
qed

theorem classifier_serves_witness:
  "let c = cl_push sorted_lib (host_url ''a'' ''1'') (cl_push sorted_lib (host_url ''b'' ''2'') cl_new) in
   \<exists>vs e. serve 3 sorted_lib 7 c = Some (waiting 7 c @ vs, e) \<and> mset vs = mset (top_q c) \<and> length (top_q c) = 2"
proof -
  let ?c = "cl_push sorted_lib (host_url ''a'' ''1'') (cl_push sorted_lib (host_url ''b'' ''2'') cl_new)"
  have "cl_new = cl_new_n 0" by (simp add: cl_new_def cl_new_n_def)
  then have "cl_inv ?c" using sorted_lib.cl_push_spec cl_inv_new by metis
  moreover have "cl_size ?c < 3" "length (top_q ?c) = 2" by code_simp+
  ultimately show ?thesis using classifier_serves [OF sorted_lib.classifier_lib_axioms, of ?c 3 7] by (simp add: Let_def) blast
qed

text \<open>\<^verbatim>\<open>size\<close> counts the URLs held, and \<^verbatim>\<open>empty\<close> says that there are none.\<close>

theorem classifier_size_empty:
  "cl_size c = size (contents c) \<and> (cl_empty c \<longleftrightarrow> cl_size c = 0)"
proof -
  have "cl_size c = size (contents c)" by (simp add: cl_size_def fold_size_add contents_def)
  moreover have "sum_list (map (\<lambda>e. mset (te_queue e)) t) = {#} \<longleftrightarrow> list_all (\<lambda>e. te_queue e = []) t" for t
    by (induction t) auto
  ultimately show ?thesis by (auto simp: cl_empty_def contents_def)
qed

text \<open>C40. The errors: on a classifier that satisfies the invariant \<^verbatim>\<open>peek\<close> throws exactly when its queue and
  \<^verbatim>\<open>top_q\<close> are empty, and \<^verbatim>\<open>pop\<close> exactly when its queue is empty; after a \<^verbatim>\<open>peek\<close> that returns, \<^verbatim>\<open>pop\<close> of the
  same queue succeeds and removes the URL that was returned.\<close>

theorem classifier_errors:
  assumes "classifier_lib L" "cl_inv c"
  shows "(peek L n c = Inl RuntimeError \<longleftrightarrow> waiting n c = [] \<and> top_q c = [])
    \<and> (cl_pop n c = Inl RuntimeError \<longleftrightarrow> waiting n c = [])
    \<and> (case peek L n c of Inl _ \<Rightarrow> True
       | Inr (u, c') \<Rightarrow> (case cl_pop n c' of Inl _ \<Rightarrow> False | Inr d \<Rightarrow> contents c = add_mset u (contents d)))"
proof -
  have "case cl_pop n c' of Inl _ \<Rightarrow> False | Inr d \<Rightarrow> contents c = add_mset (hd (waiting n c')) (contents d)"
    if "cl_inv c'" "waiting n c' \<noteq> []" "contents c' = contents c" for c'
    using cl_pop_spec [OF that(1), of n] that(2,3) by auto
  then show ?thesis
    using classifier_lib.peek_spec [OF assms, of n] cl_pop_spec [OF assms(2), of n]
    by (auto split: if_splits sum.splits)
qed

theorem classifier_errors_witness:
  "peek sorted_lib 0 (cl_new_n 1) = Inl RuntimeError \<and> cl_pop 0 (cl_new_n 1) = Inl RuntimeError"
proof -
  have "waiting 0 (cl_new_n 1) = [] \<and> top_q (cl_new_n 1) = []" by code_simp
  then show ?thesis using classifier_errors [OF sorted_lib.classifier_lib_axioms cl_inv_new(1), of 0 1] by simp
qed

section \<open>Two queues for one host\<close>

text \<open>
  The diagram in \<^verbatim>\<open>Url_classifier.hh\<close> gives every host one queue and \<^verbatim>\<open>top_q\<close> the hosts without one. A URL
  pushed while another one of its host is in \<^verbatim>\<open>top_q\<close> takes an empty queue for the host, and the next
  empty queue is then filled from \<^verbatim>\<open>top_q\<close> with the same host.
\<close>

lemma classifier_host_in_two_queues:
  "map (\<lambda>e. (te_host e, length (te_queue e))) (table (fst (cl_run sorted_lib
     [Push (host_url ''a'' ''1''), Push (host_url ''b'' ''2''), Push (host_url ''c'' ''3''), Pop 0, Push (host_url ''c'' ''4''),
      Pop 1, Peek 1] (cl_new_n 2, [])))) = [(''c'', 1), (''c'', 1)]"
  by code_simp

end
