(* ===== verification/Lines.thy ===== *)
theory Lines
  imports Prelude
begin

text \<open>
  The loop that \<^verbatim>\<open>parse_http_headers\<close> of \<^verbatim>\<open>src/common/utils.cc\<close> and the two input handlers of \<^verbatim>\<open>src/crawler/crawler.cc\<close> share: two
  indices, \<^verbatim>\<open>tortoise\<close> at the start of a line and \<^verbatim>\<open>hare\<close> at its separator, go over a buffer, and a line of more than one
  character is handed to the body. \<open>scan_lines_fold\<close> says that this is a fold over the pieces between separators.
\<close>

definition line_sep :: "char \<Rightarrow> bool" where
  "line_sep c \<longleftrightarrow> c = CHR 0x0A \<or> c = CHR 0x0D"

text \<open>The body works on a state and may throw; the loop returns the last value of \<^verbatim>\<open>tortoise\<close>.\<close>

function scan_lines :: "(string \<Rightarrow> 's \<Rightarrow> 's res) \<Rightarrow> string \<Rightarrow> nat \<Rightarrow> 's \<Rightarrow> (nat \<times> 's) res" where
  "scan_lines body buff tortoise st =
     (case sfind line_sep buff tortoise of
        None \<Rightarrow> Inr (tortoise, st)
      | Some hare \<Rightarrow>
          bindR (if hare > tortoise + 1 then body (substr buff tortoise (hare - tortoise)) st else Inr st) (\<lambda>st.
            scan_lines body buff (hare + 1) st))"
  by pat_completeness auto
termination
  by (relation "measure (\<lambda>(body, buff, tortoise, st). length buff - tortoise)")
    (auto, (frule sfind_Some(1), drule sfind_Some(2), simp)+)

declare scan_lines.simps [simp del]

text \<open>The pieces between separators; the last one is not terminated.\<close>

fun pieces :: "string \<Rightarrow> string list" where
  "pieces [] = [[]]"
| "pieces (c # cs) = (if line_sep c then [] # pieces cs else case pieces cs of p # ps \<Rightarrow> (c # p) # ps | [] \<Rightarrow> [[c]])"

fun foldR :: "('a \<Rightarrow> 's \<Rightarrow> 's res) \<Rightarrow> 'a list \<Rightarrow> 's \<Rightarrow> 's res" where
  "foldR f [] st = Inr st"
| "foldR f (x # xs) st = bindR (f x st) (foldR f xs)"

lemma pieces_nonempty [simp]: "pieces s \<noteq> []"
  by (cases s) (auto split: list.split)

lemma pieces_Cons [simp]:
  "pieces (c # cs) = (if line_sep c then [] # pieces cs else (c # hd (pieces cs)) # tl (pieces cs))"
  using pieces_nonempty [of cs] by (auto split: list.split simp del: pieces_nonempty)

declare pieces.simps(2) [simp del]

lemma pieces_no_sep: "\<forall>c\<in>set s. \<not> line_sep c \<Longrightarrow> pieces s = [s]"
  by (induction s) auto

lemma pieces_append: "\<forall>c\<in>set a. \<not> line_sep c \<Longrightarrow> line_sep d \<Longrightarrow> pieces (a @ d # b) = a # pieces b"
  by (induction a) auto

lemma length_last_pieces: "length (last (pieces s)) \<le> length s"
proof (induction s)
  case (Cons c s)
  then show ?case by (cases "pieces s") auto
qed simp

lemma last_pieces_drop: "last (pieces s) = drop (length s - length (last (pieces s))) s"
proof (induction s)
  case (Cons c s)
  show ?case
  proof (cases "line_sep c")
    case True
    then show ?thesis using Cons length_last_pieces [of s] by (simp add: Suc_diff_le)
  next
    case False
    show ?thesis
    proof (cases "tl (pieces s) = []")
      case True
      then have "pieces s = [hd (pieces s)]" by (metis list.collapse pieces_nonempty)
      moreover from this Cons have "hd (pieces s) = drop (length s - length (hd (pieces s))) s" by (metis last_ConsL)
      moreover have "length (hd (pieces s)) = length s"
        using \<open>pieces s = [hd (pieces s)]\<close>
      proof (induction s)
        case (Cons a s)
        then show ?case by (cases "line_sep a") (auto split: if_splits, metis list.collapse pieces_nonempty)
      qed simp
      ultimately show ?thesis using False by simp
    next
      case t: False
      then have "last (pieces (c # s)) = last (pieces s)" using False by (simp add: last_tl)
      then show ?thesis using Cons length_last_pieces [of s] by (simp add: Suc_diff_le)
    qed
  qed
qed simp

lemma scan_lines_fold:
  "scan_lines body buff tortoise st =
     bindR (foldR body (filter (\<lambda>l. 1 < length l) (butlast (pieces (drop tortoise buff)))) st) (\<lambda>st.
       Inr (if sfind line_sep buff tortoise = None then tortoise
            else length buff - length (last (pieces (drop tortoise buff))), st))"
proof (induction body buff tortoise st rule: scan_lines.induct)
  case (1 body buff tortoise st)
  show ?case
  proof (cases "sfind line_sep buff tortoise")
    case None
    then have "pieces (drop tortoise buff) = [drop tortoise buff]" by (intro pieces_no_sep) (simp add: sfind_None)
    then show ?thesis using None by (subst scan_lines.simps) simp
  next
    case (Some hare)
    note h = sfind_Some [OF Some]
    let ?l = "substr buff tortoise (hare - tortoise)"
    have l: "length ?l = hare - tortoise" using h by (simp add: substr_def)
    have d: "drop tortoise buff = ?l @ buff ! hare # drop (Suc hare) buff"
    proof -
      have "drop tortoise buff = ?l @ drop (hare - tortoise) (drop tortoise buff)" by (simp only: substr_def append_take_drop_id)
      also have "drop (hare - tortoise) (drop tortoise buff) = buff ! hare # drop (Suc hare) buff"
        using h by (simp add: Cons_nth_drop_Suc)
      finally show ?thesis .
    qed
    have "\<forall>c\<in>set ?l. \<not> line_sep c" using h(4) l
      by (auto simp: in_set_conv_nth substr_def)
    then have p: "pieces (drop tortoise buff) = ?l # pieces (drop (Suc hare) buff)"
      unfolding d using h(3) by (rule pieces_append)
    have last: "sfind line_sep buff (Suc hare) = None \<Longrightarrow> Suc hare = length buff - length (last (pieces (drop (Suc hare) buff)))"
      using pieces_no_sep [of "drop (Suc hare) buff"] h(2) by (simp add: sfind_None)
    have l1: "1 < length ?l \<longleftrightarrow> hare > tortoise + 1" using l by auto
    show ?thesis
    proof (cases "hare > tortoise + 1")
      case True
      then show ?thesis using Some "1.IH" [OF Some] p l1 last
        by (subst scan_lines.simps) (cases "body ?l st"; simp)
    next
      case False
      then show ?thesis using Some "1.IH" [OF Some, of st] p l1 last
        by (subst scan_lines.simps) simp
    qed
  qed
qed

end
