(* ===== verification/Http.thy ===== *)
theory Http
  imports Boost Lines
begin

text \<open>
  \<^verbatim>\<open>parse_http_headers\<close> of \<^verbatim>\<open>src/common/utils.cc\<close>. The enumeration \<^verbatim>\<open>content_type_t\<close> comes from a header that is not part of the
  sources, so its values are a parameter. The properties: the result is a fold over the terminated lines of
  the header block, every well-formed line is entered in the map under its name, and what the test for
  XHTML does to the types that are tested after it.
\<close>

section \<open>Content types\<close>

record ctypes =
  ct_UNSET :: int
  ct_UNRECOGNIZED :: int
  ct_TEXT_HTML :: int
  ct_TEXT_PLAIN :: int
  ct_XHTML :: int
  ct_APPLICATION_PDF :: int
  ct_RSS_XML :: int
  ct_ATOM_XML :: int
  ct_EMPTY :: int

text \<open>\<^verbatim>\<open>s.find(pat)\<close>: the position of the first occurrence.\<close>

fun str_find :: "string \<Rightarrow> string \<Rightarrow> nat option" where
  "str_find pat [] = (if pat = [] then Some 0 else None)"
| "str_find pat (c # s) = (if prefix pat (c # s) then Some 0 else map_option Suc (str_find pat s))"

definition classify :: "ctypes \<Rightarrow> string \<Rightarrow> int" where
  "classify C value =
     (if str_find ''text/html'' value \<noteq> None then ct_TEXT_HTML C
      else if str_find ''text/plain'' value \<noteq> None then ct_TEXT_PLAIN C
      else if str_find ''application/xhtml+xml'' value \<noteq> Some 0 then ct_XHTML C
      else if str_find ''application/pdf'' value \<noteq> None then ct_APPLICATION_PDF C
      else if str_find ''application/rss+xml'' value \<noteq> None then ct_RSS_XML C
      else if str_find ''application/atom+xml'' value \<noteq> None then ct_ATOM_XML C
      else ct_UNRECOGNIZED C)"

section \<open>The patterns\<close>

definition separators :: string where
  "separators = ''()<>@,;'' @ [CHR 0x5C] @ '':'' @ [CHR 0x22] @ ''/[]?={}'' @ [CHR 0x09]"

definition HEADER_RE :: regex where
  "HEADER_RE = Seq (Grp 1 (Plus (Cls (\<lambda>c. c \<notin> set separators)))) (Seq (Lit '':'') (Grp 2 (Plus (Cls (\<lambda>_. True)))))"

definition CHARSET_RE :: regex where
  "CHARSET_RE = Seq (Lit ''charset='') (Grp 1 (Plus (Cls (\<lambda>c. \<not> iscntrl c \<and> c \<notin> set separators))))"

text \<open>The pattern ignores the case of the name.\<close>

definition CONTENT_TYPE_RE :: regex where
  "CONTENT_TYPE_RE = foldr (\<lambda>c r. Seq (Cls (\<lambda>x. tolower x = tolower c)) r) ''Content-Type'' Eps"

section \<open>The parser\<close>

record http_headers =
  hd_content_type :: int
  hd_charset :: string
  hd_map :: "string \<rightharpoonup> string"

definition parse_header :: "boost \<Rightarrow> ctypes \<Rightarrow> string \<Rightarrow> http_headers \<Rightarrow> http_headers" where
  "parse_header B C header h =
     (case regex_match B HEADER_RE header of
        None \<Rightarrow> h
      | Some m \<Rightarrow> (case (m 1, m 2) of
          (Some name, Some value) \<Rightarrow>
            let h = (if regex_match B CONTENT_TYPE_RE name \<noteq> None then
                       let h = h\<lparr>hd_content_type := classify C value\<rparr> in
                       (case regex_search B CHARSET_RE value of
                          Some (_, _, _, sm) \<Rightarrow> h\<lparr>hd_charset := (case sm 1 of Some s \<Rightarrow> s | None \<Rightarrow> [])\<rparr>
                        | None \<Rightarrow> h)
                     else h)
            in h\<lparr>hd_map := (hd_map h)(name \<mapsto> value)\<rparr>
        | _ \<Rightarrow> h))"

text \<open>The caller passes the variables that the function assigns, so it starts from their values.\<close>

definition parse_http_headers :: "boost \<Rightarrow> ctypes \<Rightarrow> string \<Rightarrow> http_headers \<Rightarrow> http_headers res" where
  "parse_http_headers B C headers h =
     bindR (scan_lines (\<lambda>header h. Inr (parse_header B C header h)) headers 0 h) (\<lambda>(tortoise, h). Inr h)"

section \<open>The split of a header line\<close>

definition name_char :: "char \<Rightarrow> bool" where
  "name_char c \<longleftrightarrow> c \<notin> set separators"

lemma colon_separator [simp]: "\<not> name_char CHR '':''"
  by (simp add: name_char_def separators_def)

text \<open>The name is what precedes the first separator, which must be a colon; the value is all the rest.\<close>

definition header_parts :: "string \<Rightarrow> (string \<times> string) option" where
  "header_parts s =
     (let name = takeWhile name_char s in
      case dropWhile name_char s of
        c # value \<Rightarrow> if c = CHR '':'' \<and> name \<noteq> [] \<and> value \<noteq> [] then Some (name, value) else None
      | [] \<Rightarrow> None)"

lemma header_lang:
  assumes "s \<in> lang HEADER_RE"
  shows "\<exists>name value. header_parts s = Some (name, value)"
proof -
  from assms obtain a b where s: "s = a @ b" "a \<in> lang (Plus (Cls name_char))"
      "b \<in> lang (Seq (Lit '':'') (Grp 2 (Plus (Cls (\<lambda>_. True)))))"
    unfolding HEADER_RE_def name_char_def by auto
  from s(3) obtain v where b: "b = CHR '':'' # v" "v \<noteq> []"
    by (auto simp: Plus_def)
  from s(2) obtain c cs where a: "a = c # cs" "name_char c" "cs \<in> lang (Star (Cls name_char))"
    unfolding Plus_def lang_Seq_Cls by blast
  then have ok: "\<forall>x\<in>set a. name_char x" unfolding lang_Star_Cls by simp
  have "takeWhile name_char s = a" "dropWhile name_char s = CHR '':'' # v"
    unfolding s(1) b(1) using ok by (intro takeWhile_stop dropWhile_stop; simp)+
  then show ?thesis using a b by (simp add: header_parts_def)
qed

lemma header_match_Some:
  assumes "header_parts s = Some (name, value)"
  shows "\<exists>m. perl_match HEADER_RE s = Some m \<and> m 1 = Some name \<and> m 2 = Some value"
proof -
  from assms have p: "takeWhile name_char s = name" "dropWhile name_char s = CHR '':'' # value" "name \<noteq> []" "value \<noteq> []"
    by (auto simp: header_parts_def Let_def split: list.splits if_splits)
  obtain c cs where s: "s = c # cs" "name_char c" using p(1,3) by (cases s) (auto split: if_splits)
  from matches_Star_Cls [of name_char cs Map.empty] obtain ms where
    "matches (Star (Cls name_char)) cs Map.empty = (Map.empty, dropWhile name_char cs) # ms" by blast
  then have "matches (Plus (Cls name_char)) s Map.empty = (Map.empty, CHR '':'' # value) # ms"
    using s p(2) by (simp add: Plus_def)
  from matches_Grp [OF this, of 1] obtain ms1 where
    1: "matches (Grp 1 (Plus (Cls name_char))) s Map.empty = ([1 \<mapsto> name], CHR '':'' # value) # ms1"
    using take_length_takeWhile [of s name_char] p by auto
  obtain d ds where v: "value = d # ds" using p(4) by (cases "value") auto
  from matches_Star_Cls [of "\<lambda>_. True" ds "[1 \<mapsto> name]"] obtain ms2 where
    "matches (Star (Cls (\<lambda>_. True))) ds [1 \<mapsto> name] = ([1 \<mapsto> name], []) # ms2" by auto
  then have "matches (Plus (Cls (\<lambda>_. True))) value [1 \<mapsto> name] = ([1 \<mapsto> name], []) # ms2"
    using v by (simp add: Plus_def)
  from matches_Grp [OF this, of 2] have
    "first_full (Grp 2 (Plus (Cls (\<lambda>_. True)))) value [1 \<mapsto> name] = Some ([1 \<mapsto> name, 2 \<mapsto> value])"
    by (auto simp: first_full_def)
  then have "first_full (Seq (Lit '':'') (Grp 2 (Plus (Cls (\<lambda>_. True))))) (CHR '':'' # value) [1 \<mapsto> name] = Some ([1 \<mapsto> name, 2 \<mapsto> value])"
    by (intro first_full_Seq [of _ _ _ "[1 \<mapsto> name]" "value" "[]"]) (simp_all add: matches_Lit_single)
  then have "perl_match HEADER_RE s = Some ([1 \<mapsto> name, 2 \<mapsto> value])"
    unfolding perl_match_first_full HEADER_RE_def name_char_def [symmetric] by (intro first_full_Seq [OF 1])
  then show ?thesis by auto
qed

lemma header_match_None: "header_parts s = None \<Longrightarrow> perl_match HEADER_RE s = None"
  using header_lang [of s] perl_match_iff_lang [of HEADER_RE s] by force

lemma content_type_match: "perl_match CONTENT_TYPE_RE s \<noteq> None \<longleftrightarrow> map tolower s = ''content-type''"
proof -
  have "s \<in> lang (foldr (\<lambda>c r. Seq (Cls (\<lambda>x. tolower x = tolower c)) r) cs Eps) \<longleftrightarrow> map tolower s = map tolower cs" for cs
  proof (induction cs arbitrary: s)
    case (Cons c cs)
    then show ?case unfolding foldr.simps comp_apply lang_Seq_Cls by (cases s) simp_all
  qed simp
  from this [of "''Content-Type''"] have "s \<in> lang CONTENT_TYPE_RE \<longleftrightarrow> map tolower s = map tolower ''Content-Type''"
    unfolding CONTENT_TYPE_RE_def .
  moreover have "map tolower ''Content-Type'' = ''content-type''" by code_simp
  ultimately show ?thesis using perl_match_iff_lang [of CONTENT_TYPE_RE s] by (simp only: not_None_eq)
qed

section \<open>Properties\<close>

text \<open>The effect of one line, without the patterns.\<close>

definition header_effect :: "ctypes \<Rightarrow> string \<Rightarrow> http_headers \<Rightarrow> http_headers" where
  "header_effect C line h =
     (case header_parts line of
        None \<Rightarrow> h
      | Some (name, value) \<Rightarrow>
          (if map tolower name = ''content-type'' then
             h\<lparr>hd_map := (hd_map h)(name \<mapsto> value), hd_content_type := classify C value,
               hd_charset := (case perl_search CHARSET_RE value of
                   Some (_, _, _, sm) \<Rightarrow> (case sm 1 of Some s \<Rightarrow> s | None \<Rightarrow> []) | None \<Rightarrow> hd_charset h)\<rparr>
           else h\<lparr>hd_map := (hd_map h)(name \<mapsto> value)\<rparr>))"

context boost_lib
begin

lemma parse_header_effect: "parse_header B C line h = header_effect C line h"
proof (cases "header_parts line")
  case None
  then show ?thesis by (simp add: parse_header_def regex_match_perl header_match_None header_effect_def)
next
  case (Some p)
  obtain name val where p: "p = (name, val)" by (cases p)
  from header_match_Some [OF Some [unfolded p]] obtain m where
    m: "perl_match HEADER_RE line = Some m" "m 1 = Some name" "m 2 = Some val" by blast
  have ct: "(\<exists>y. perl_match CONTENT_TYPE_RE name = Some y) \<longleftrightarrow> map tolower name = ''content-type''"
    using content_type_match [of name] by simp
  show ?thesis
    using Some p m ct unfolding parse_header_def header_effect_def regex_match_perl regex_search_perl
    by (simp add: Let_def split: option.split)
qed

end

lemma foldR_Inr: "foldR (\<lambda>x st. Inr (f x st)) xs st = Inr (fold f xs st)"
  by (induction xs arbitrary: st) simp_all

text \<open>C29. Parsing never fails and is a fold over the terminated lines of more than one character: a line whose first
  separator is a colon after a name is entered under that name, a later line overriding an earlier one, and a
  content type line sets the type by its value and the charset if it has one.\<close>

theorem parse_http_headers_fold:
  assumes "boost_lib B"
  shows "parse_http_headers B C headers h = Inr (fold (header_effect C) (filter (\<lambda>l. 1 < length l) (butlast (pieces headers))) h)"
  by (simp add: parse_http_headers_def scan_lines_fold boost_lib.parse_header_effect [OF assms] foldR_Inr)

definition sample_types :: ctypes where
  "sample_types = \<lparr>ct_UNSET = 0, ct_UNRECOGNIZED = 1, ct_TEXT_HTML = 2, ct_TEXT_PLAIN = 3, ct_XHTML = 4,
     ct_APPLICATION_PDF = 5, ct_RSS_XML = 6, ct_ATOM_XML = 7, ct_EMPTY = 8\<rparr>"

definition no_headers :: http_headers where
  "no_headers = \<lparr>hd_content_type = 0, hd_charset = [], hd_map = Map.empty\<rparr>"

theorem parse_http_headers_fold_witness:
  "map_sum id (\<lambda>h. (hd_content_type h, hd_charset h)) (parse_http_headers boost_ref sample_types
     (''Content-Type: text/html; charset=utf-8'' @ [CHR 0x0D, CHR 0x0A]) no_headers) = Inr (2, ''utf-8'')"
proof -
  have "(\<lambda>h. (hd_content_type h, hd_charset h)) (fold (header_effect sample_types) (filter (\<lambda>l. 1 < length l)
      (butlast (pieces (''Content-Type: text/html; charset=utf-8'' @ [CHR 0x0D, CHR 0x0A])))) no_headers) = (2, ''utf-8'')"
    by code_simp
  then show ?thesis unfolding parse_http_headers_fold [OF ref.boost_lib_axioms] map_sum.simps by (rule arg_cong)
qed

text \<open>The test for XHTML takes the position of the text as a truth value. Every value that does not name HTML or plain
  text is XHTML unless it starts with the text itself, so no PDF, RSS or Atom document and nothing
  unrecognised is reported for the values a server sends, which start with a space.\<close>

theorem classify_xhtml:
  "classify C (CHR '' '' # value) = (if str_find ''text/html'' (CHR '' '' # value) \<noteq> None then ct_TEXT_HTML C
     else if str_find ''text/plain'' (CHR '' '' # value) \<noteq> None then ct_TEXT_PLAIN C else ct_XHTML C)"
  by (simp add: classify_def)

lemma xhtml_not_recognised: "classify sample_types ''application/xhtml+xml'' = ct_UNRECOGNIZED sample_types"
  "classify sample_types '' application/pdf'' = ct_XHTML sample_types"
  by code_simp+

end
