(* ===== verification/Doc.thy ===== *)
theory Doc
  imports Url Http
begin

text \<open>
  The struct \<^verbatim>\<open>Doc\<close> of \<^verbatim>\<open>src/common/Doc.hh\<close> and \<^verbatim>\<open>src/common/Doc.cc\<close>: a crawled document and how it is stored in and loaded from
  the database. The database is a service: its operations are a parameter, and the locale \<open>mongo_db\<close> states what
  the program relies on. The property: what is saved under a new URL is what is loaded for that URL.
\<close>

section \<open>Documents of the database\<close>

datatype bval = BStr string | BInt int | BLong int | BBin string

type_synonym bson = "(string \<times> bval) list"

text \<open>
  \<open>db_query db ns u\<close> are the documents of the collection \<open>ns\<close> whose field \<^verbatim>\<open>url\<close> is \<open>u\<close>; \<open>db_update db ns u b\<close> is the
  \<^verbatim>\<open>update\<close> with the query on \<open>u\<close>, the operator \<^verbatim>\<open>$set\<close> on the fields \<open>b\<close>, and the flag to insert.
\<close>

record 'db mongo =
  db_query :: "'db \<Rightarrow> string \<Rightarrow> string \<Rightarrow> bson list"
  db_update :: "'db \<Rightarrow> string \<Rightarrow> string \<Rightarrow> bson \<Rightarrow> 'db"
  db_index :: "'db \<Rightarrow> string \<Rightarrow> 'db"

section \<open>The document\<close>

record doc =
  doc_url :: url
  doc_eff_url :: url
  doc_http_code :: int
  doc_curl_code :: int
  doc_curl_error :: string
  doc_modified :: int
  doc_crawled :: int
  doc_content :: string
  doc_headers :: string
  doc_etag :: string
  doc_content_type :: int
  doc_charset :: string
  doc_flags :: nat
  doc_title :: string
  doc_rss2 :: string
  doc_rss :: string
  doc_atom :: string

definition doc_init :: "ctypes \<Rightarrow> doc" where
  "doc_init C = \<lparr>doc_url = url_init, doc_eff_url = url_init, doc_http_code = 0, doc_curl_code = -1, doc_curl_error = [],
     doc_modified = -1, doc_crawled = -1, doc_content = [], doc_headers = [], doc_etag = [],
     doc_content_type = ct_UNSET C, doc_charset = [], doc_flags = 0, doc_title = [], doc_rss2 = [], doc_rss = [], doc_atom = []\<rparr>"

text \<open>A field that is appended under a condition.\<close>

definition field :: "bool \<Rightarrow> string \<Rightarrow> bval \<Rightarrow> bson" where
  "field c f v = (if c then [(f, v)] else [])"

definition doc_fields :: "ctypes \<Rightarrow> doc \<Rightarrow> bson" where
  "doc_fields C d =
     [(''url'', BStr (url_get (doc_url d)))]
     @ field (\<not> url_empty (doc_eff_url d)) ''eff_url'' (BStr (url_get (doc_eff_url d)))
     @ field (doc_http_code d \<noteq> 0) ''http_code'' (BInt (doc_http_code d))
     @ field (doc_curl_code d \<noteq> -1) ''curl_code'' (BInt (doc_curl_code d))
     @ field (doc_curl_error d \<noteq> []) ''curl_error'' (BStr (doc_curl_error d))
     @ field (doc_modified d \<noteq> -1) ''modified'' (BLong (doc_modified d))
     @ field (doc_crawled d \<noteq> -1) ''crawled'' (BLong (doc_crawled d))
     @ field (doc_content d \<noteq> []) ''content'' (BBin (doc_content d))
     @ field (doc_headers d \<noteq> []) ''headers'' (BStr (doc_headers d))
     @ field (doc_etag d \<noteq> []) ''etag'' (BStr (doc_etag d))
     @ field (doc_content_type d \<noteq> ct_UNSET C) ''content_type'' (BInt (doc_content_type d))
     @ field (doc_charset d \<noteq> []) ''charset'' (BStr (doc_charset d))
     @ field (doc_flags d \<noteq> 0) ''flags'' (BInt (int (doc_flags d)))
     @ field (doc_title d \<noteq> []) ''title'' (BStr (doc_title d))
     @ field (doc_rss2 d \<noteq> []) ''rss2'' (BStr (doc_rss2 d))
     @ field (doc_rss d \<noteq> []) ''rss'' (BStr (doc_rss d))
     @ field (doc_atom d \<noteq> []) ''atom'' (BStr (doc_atom d))"

definition doc_save :: "boost \<Rightarrow> 'db mongo \<Rightarrow> ctypes \<Rightarrow> string \<Rightarrow> doc \<Rightarrow> 'db \<Rightarrow> (doc \<times> 'db) res" where
  "doc_save B M C ns d db =
     (if url_empty (doc_url d) then Inl RuntimeError
      else bindR (url_normalize B (doc_url d)) (\<lambda>u.
        let d = d\<lparr>doc_url := u\<rparr>; db = db_index M db ns in
        Inr (d, db_update M db ns (url_get (doc_url d)) (doc_fields C d))))"

text \<open>
  The reads of a field: a field that is not there leaves the member as it is, and \<^verbatim>\<open>Val\<close>, \<^verbatim>\<open>Int\<close> and \<^verbatim>\<open>binData\<close> throw on
  another type. A string is read through the pointer that \<^verbatim>\<open>valuestr\<close> returns, up to its first NUL.
  \<^verbatim>\<open>numberLong\<close> is 0 for what is no number. \<^verbatim>\<open>bitset<6>\<close> keeps the six lowest bits.
\<close>

definition c_str :: "string \<Rightarrow> string" where
  "c_str s = takeWhile (\<lambda>c. c \<noteq> CHR 0x00) s"

definition read_str :: "string \<Rightarrow> bson \<Rightarrow> string \<Rightarrow> string res" where
  "read_str f b old = (case map_of b f of None \<Rightarrow> Inr old | Some (BStr s) \<Rightarrow> Inr (c_str s) | Some _ \<Rightarrow> Inl MongoError)"

definition read_int :: "string \<Rightarrow> bson \<Rightarrow> int \<Rightarrow> int res" where
  "read_int f b old = (case map_of b f of None \<Rightarrow> Inr old | Some (BInt i) \<Rightarrow> Inr i | Some _ \<Rightarrow> Inl MongoError)"

definition read_long :: "string \<Rightarrow> bson \<Rightarrow> int \<Rightarrow> int" where
  "read_long f b old = (case map_of b f of None \<Rightarrow> old | Some (BInt i) \<Rightarrow> i | Some (BLong i) \<Rightarrow> i | Some _ \<Rightarrow> 0)"

definition read_bin :: "string \<Rightarrow> bson \<Rightarrow> string \<Rightarrow> string res" where
  "read_bin f b old = (case map_of b f of None \<Rightarrow> Inr old | Some (BBin s) \<Rightarrow> Inr s | Some _ \<Rightarrow> Inl MongoError)"

definition read_flags :: "bson \<Rightarrow> nat \<Rightarrow> nat res" where
  "read_flags b old = (case map_of b ''flags'' of None \<Rightarrow> Inr old | Some (BInt i) \<Rightarrow> Inr (nat (i mod 64)) | Some _ \<Rightarrow> Inl MongoError)"

definition read_eff_url :: "boost \<Rightarrow> bson \<Rightarrow> url \<Rightarrow> url res" where
  "read_eff_url B b old =
     (case map_of b ''eff_url'' of None \<Rightarrow> Inr old | Some (BStr s) \<Rightarrow> url_of B (c_str s) | Some _ \<Rightarrow> Inl MongoError)"

definition load_fields :: "boost \<Rightarrow> bson \<Rightarrow> doc \<Rightarrow> doc res" where
  "load_fields B b d =
     bindR (read_eff_url B b (doc_eff_url d)) (\<lambda>v. let d = d\<lparr>doc_eff_url := v\<rparr> in
     bindR (read_int ''http_code'' b (doc_http_code d)) (\<lambda>v. let d = d\<lparr>doc_http_code := v\<rparr> in
     bindR (read_int ''curl_code'' b (doc_curl_code d)) (\<lambda>v. let d = d\<lparr>doc_curl_code := v\<rparr> in
     bindR (read_str ''curl_error'' b (doc_curl_error d)) (\<lambda>v. let d = d\<lparr>doc_curl_error := v\<rparr>;
       d = d\<lparr>doc_modified := read_long ''modified'' b (doc_modified d)\<rparr>;
       d = d\<lparr>doc_crawled := read_long ''crawled'' b (doc_crawled d)\<rparr> in
     bindR (read_bin ''content'' b (doc_content d)) (\<lambda>v. let d = d\<lparr>doc_content := v\<rparr> in
     bindR (read_str ''headers'' b (doc_headers d)) (\<lambda>v. let d = d\<lparr>doc_headers := v\<rparr> in
     bindR (read_str ''etag'' b (doc_etag d)) (\<lambda>v. let d = d\<lparr>doc_etag := v\<rparr> in
     bindR (read_int ''content_type'' b (doc_content_type d)) (\<lambda>v. let d = d\<lparr>doc_content_type := v\<rparr> in
     bindR (read_str ''charset'' b (doc_charset d)) (\<lambda>v. let d = d\<lparr>doc_charset := v\<rparr> in
     bindR (read_flags b (doc_flags d)) (\<lambda>v. let d = d\<lparr>doc_flags := v\<rparr> in
     bindR (read_str ''title'' b (doc_title d)) (\<lambda>v. let d = d\<lparr>doc_title := v\<rparr> in
     bindR (read_str ''rss2'' b (doc_rss2 d)) (\<lambda>v. let d = d\<lparr>doc_rss2 := v\<rparr> in
     bindR (read_str ''rss'' b (doc_rss d)) (\<lambda>v. let d = d\<lparr>doc_rss := v\<rparr> in
     bindR (read_str ''atom'' b (doc_atom d)) (\<lambda>v. Inr (d\<lparr>doc_atom := v\<rparr>)))))))))))))))"

fun load_loop :: "boost \<Rightarrow> bson list \<Rightarrow> bool \<Rightarrow> doc \<Rightarrow> doc res" where
  "load_loop B [] gotone d = Inr d"
| "load_loop B (b # bs) gotone d =
     bindR (load_fields B b d) (\<lambda>d. if gotone then Inl AssertFailed else load_loop B bs True d)"

text \<open>The function returns \<^verbatim>\<open>false\<close> whether a document was found or not.\<close>

definition load_url :: "boost \<Rightarrow> 'db mongo \<Rightarrow> 'db \<Rightarrow> string \<Rightarrow> url \<Rightarrow> doc \<Rightarrow> (bool \<times> doc) res" where
  "load_url B M db ns u d =
     bindR (url_normalize B u) (\<lambda>v.
     bindR (load_loop B (db_query M db ns (url_get v)) False (d\<lparr>doc_url := v\<rparr>)) (\<lambda>d. Inr (False, d)))"

section \<open>The database\<close>

locale mongo_db =
  fixes M :: "'db mongo"
  assumes query_index: "db_query M (db_index M db ns) ns' u = db_query M db ns' u"
    and query_insert: "db_query M db ns u = [] \<Longrightarrow>
      \<exists>d. db_query M (db_update M db ns u b) ns u = [d] \<and> (\<forall>f. f \<noteq> ''_id'' \<longrightarrow> map_of d f = map_of (b @ [(''url'', BStr u)]) f)"
    and query_set: "db_query M db ns u = [d] \<Longrightarrow>
      \<exists>e. db_query M (db_update M db ns u b) ns u = [e] \<and> (\<forall>f. map_of e f = map_of (b @ d) f)"
    and query_other: "(ns, u) \<noteq> (ns', u') \<Longrightarrow> map_of b ''url'' = Some (BStr u) \<Longrightarrow>
      db_query M (db_update M db ns u b) ns' u' = db_query M db ns' u'"

text \<open>A database in memory: one document for a collection and a URL.\<close>

definition memory_db :: "((string \<times> string) \<Rightarrow> bson option) mongo" where
  "memory_db = \<lparr>
     db_query = (\<lambda>db ns u. case db (ns, u) of None \<Rightarrow> [] | Some d \<Rightarrow> [d]),
     db_update = (\<lambda>db ns u b. db((ns, u) \<mapsto> (case db (ns, u) of None \<Rightarrow> b @ [(''url'', BStr u)] | Some d \<Rightarrow> b @ d))),
     db_index = (\<lambda>db ns. db)\<rparr>"

interpretation memory: mongo_db memory_db
  by unfold_locales (auto simp: memory_db_def split: option.splits)

section \<open>Properties\<close>

lemma map_of_field: "map_of (field c f v @ b) g = (if c \<and> g = f then Some v else map_of b g)"
  by (simp add: field_def)

lemma map_of_last_field: "map_of (field c f v) g = (if c \<and> g = f then Some v else None)"
  by (simp add: field_def)

lemma load_fields_cong:
  assumes "\<And>f. f \<noteq> ''_id'' \<Longrightarrow> map_of b f = map_of b' f"
  shows "load_fields B b d = load_fields B b' d"
proof -
  have 1: "read_str f b = read_str f b'" "read_int f b = read_int f b'" "read_long f b = read_long f b'" "read_bin f b = read_bin f b'"
    if "f \<noteq> ''_id''" for f
    using assms [OF that] by (simp_all add: fun_eq_iff read_str_def read_int_def read_long_def read_bin_def)
  have 2: "read_flags b = read_flags b'" "read_eff_url B b = read_eff_url B b'"
    using assms [of "''flags''"] assms [of "''eff_url''"] by (simp_all add: fun_eq_iff read_flags_def read_eff_url_def)
  show ?thesis unfolding load_fields_def 2 by (simp add: 1)
qed

text \<open>
  A document that can be stored: its effective URL is empty or reads back, its flags fit the set, and its strings other
  than the content have no NUL.
\<close>

definition doc_storable :: "boost \<Rightarrow> doc \<Rightarrow> bool" where
  "doc_storable B d \<longleftrightarrow> doc_flags d < 64
     \<and> list_all (\<lambda>s. CHR 0x00 \<notin> set s)
          [doc_curl_error d, doc_headers d, doc_etag d, doc_charset d, doc_title d, doc_rss2 d, doc_rss d, doc_atom d]
     \<and> (if url_empty (doc_eff_url d) then doc_eff_url d = url_init
          else url_of B (c_str (url_get (doc_eff_url d))) = Inr (doc_eff_url d))"

lemma c_str_id: "CHR 0x00 \<notin> set s \<Longrightarrow> c_str s = s"
  by (simp add: c_str_def takeWhile_eq_all_conv) metis

lemmas doc_reads = read_str_def read_int_def read_long_def read_bin_def read_flags_def read_eff_url_def

lemma doc_fields_lookup:
  "map_of (doc_fields C d) ''eff_url'' = (if \<not> url_empty (doc_eff_url d) then Some (BStr (url_get (doc_eff_url d))) else None)"
  "map_of (doc_fields C d) ''http_code'' = (if doc_http_code d \<noteq> 0 then Some (BInt (doc_http_code d)) else None)"
  "map_of (doc_fields C d) ''curl_code'' = (if doc_curl_code d \<noteq> -1 then Some (BInt (doc_curl_code d)) else None)"
  "map_of (doc_fields C d) ''curl_error'' = (if doc_curl_error d \<noteq> [] then Some (BStr (doc_curl_error d)) else None)"
  "map_of (doc_fields C d) ''modified'' = (if doc_modified d \<noteq> -1 then Some (BLong (doc_modified d)) else None)"
  "map_of (doc_fields C d) ''crawled'' = (if doc_crawled d \<noteq> -1 then Some (BLong (doc_crawled d)) else None)"
  "map_of (doc_fields C d) ''content'' = (if doc_content d \<noteq> [] then Some (BBin (doc_content d)) else None)"
  "map_of (doc_fields C d) ''headers'' = (if doc_headers d \<noteq> [] then Some (BStr (doc_headers d)) else None)"
  "map_of (doc_fields C d) ''etag'' = (if doc_etag d \<noteq> [] then Some (BStr (doc_etag d)) else None)"
  "map_of (doc_fields C d) ''content_type'' = (if doc_content_type d \<noteq> ct_UNSET C then Some (BInt (doc_content_type d)) else None)"
  "map_of (doc_fields C d) ''charset'' = (if doc_charset d \<noteq> [] then Some (BStr (doc_charset d)) else None)"
  "map_of (doc_fields C d) ''flags'' = (if doc_flags d \<noteq> 0 then Some (BInt (int (doc_flags d))) else None)"
  "map_of (doc_fields C d) ''title'' = (if doc_title d \<noteq> [] then Some (BStr (doc_title d)) else None)"
  "map_of (doc_fields C d) ''rss2'' = (if doc_rss2 d \<noteq> [] then Some (BStr (doc_rss2 d)) else None)"
  "map_of (doc_fields C d) ''rss'' = (if doc_rss d \<noteq> [] then Some (BStr (doc_rss d)) else None)"
  "map_of (doc_fields C d) ''atom'' = (if doc_atom d \<noteq> [] then Some (BStr (doc_atom d)) else None)"
  by (simp_all add: doc_fields_def map_of_field map_of_last_field del: map_of_append)

lemma read_field:
  "map_of b f = (if t \<noteq> [] then Some (BStr t) else None) \<Longrightarrow> CHR 0x00 \<notin> set t \<Longrightarrow> read_str f b [] = Inr t"
  "map_of b f = (if t \<noteq> [] then Some (BBin t) else None) \<Longrightarrow> read_bin f b [] = Inr t"
  "map_of b f = (if i \<noteq> k then Some (BInt i) else None) \<Longrightarrow> read_int f b k = Inr i"
  "map_of b f = (if i \<noteq> k then Some (BLong i) else None) \<Longrightarrow> read_long f b k = i"
  "map_of b ''flags'' = (if n \<noteq> 0 then Some (BInt (int n)) else None) \<Longrightarrow> n < 64 \<Longrightarrow> read_flags b 0 = Inr n"
  by (auto simp: doc_reads c_str_id)

lemma load_saved_fields:
  assumes "doc_storable B d"
  shows "load_fields B (doc_fields C d) ((doc_init C)\<lparr>doc_url := doc_url d\<rparr>) = Inr d"
proof -
  have flags: "read_flags (doc_fields C d) 0 = Inr (doc_flags d)"
    using assms by (intro read_field(5)) (simp_all only: doc_fields_lookup doc_storable_def)
  have eff: "read_eff_url B (doc_fields C d) url_init = Inr (doc_eff_url d)"
    using assms by (simp add: read_eff_url_def doc_fields_lookup doc_storable_def split: if_splits)
  have nul: "CHR 0x00 \<notin> set (doc_curl_error d)" "CHR 0x00 \<notin> set (doc_headers d)" "CHR 0x00 \<notin> set (doc_etag d)"
    "CHR 0x00 \<notin> set (doc_charset d)" "CHR 0x00 \<notin> set (doc_title d)" "CHR 0x00 \<notin> set (doc_rss2 d)"
    "CHR 0x00 \<notin> set (doc_rss d)" "CHR 0x00 \<notin> set (doc_atom d)"
    using assms by (simp_all add: doc_storable_def)
  show ?thesis
    unfolding load_fields_def
    by (simp add: doc_init_def nul flags eff doc_fields_lookup read_field(3) [OF doc_fields_lookup(2)]
        read_field(3) [OF doc_fields_lookup(3)] read_field(1) [OF doc_fields_lookup(4)]
        read_field(4) [OF doc_fields_lookup(5)] read_field(4) [OF doc_fields_lookup(6)] read_field(2) [OF doc_fields_lookup(7)]
        read_field(1) [OF doc_fields_lookup(8)] read_field(1) [OF doc_fields_lookup(9)] read_field(3) [OF doc_fields_lookup(10)]
        read_field(1) [OF doc_fields_lookup(11)] read_field(1) [OF doc_fields_lookup(13)] read_field(1) [OF doc_fields_lookup(14)]
        read_field(1) [OF doc_fields_lookup(15)] read_field(1) [OF doc_fields_lookup(16)])
qed

text \<open>C28. A document that is saved under a URL of which there is none yet is the one that \<^verbatim>\<open>load_url\<close> fills a new \<^verbatim>\<open>Doc\<close> with for
  that URL, when its strings other than the content have no NUL, its effective URL is empty or reads back from its string, and
  its flags fit in six bits. The content may be any bytes.\<close>

theorem doc_save_load:
  assumes "mongo_db M" "doc_storable B d" "doc_save B M C ns d db = Inr (d', db')"
    and "db_query M db ns (url_get (doc_url d')) = []"
  shows "\<exists>found. load_url B M db' ns (doc_url d) (doc_init C) = Inr (found, d')"
proof -
  from assms(3) obtain v where v: "url_normalize B (doc_url d) = Inr v" "d' = d\<lparr>doc_url := v\<rparr>"
      "db' = db_update M (db_index M db ns) ns (url_get v) (doc_fields C d')"
    by (auto simp: doc_save_def Let_def bindR_eq_Inr split: if_splits)
  have "db_query M (db_index M db ns) ns (url_get v) = []"
    using assms(4) v(2) mongo_db.query_index [OF assms(1)] by simp
  from mongo_db.query_insert [OF assms(1) this] obtain b where
    b: "db_query M db' ns (url_get v) = [b]" "\<forall>f. f \<noteq> ''_id'' \<longrightarrow> map_of b f = map_of (doc_fields C d' @ [(''url'', BStr (url_get v))]) f"
    unfolding v(3) by blast
  have "doc_storable B d'" using assms(2) v(2) by (simp add: doc_storable_def)
  from load_saved_fields [OF this, of C] have "load_fields B (doc_fields C d') ((doc_init C)\<lparr>doc_url := v\<rparr>) = Inr d'"
    using v(2) by simp
  moreover have "map_of b f = map_of (doc_fields C d') f" if "f \<noteq> ''_id''" for f
    using b(2) that v(2) by (cases "f = ''url''") (auto simp: doc_fields_def map_add_def split: option.split)
  ultimately have "load_fields B b ((doc_init C)\<lparr>doc_url := v\<rparr>) = Inr d'"
    using load_fields_cong [of b "doc_fields C d'"] by simp
  then show ?thesis using b(1) v(1) by (auto simp: load_url_def)
qed

definition sample_doc :: doc where
  "sample_doc = (doc_init sample_types)\<lparr>doc_url := url_init\<lparr>m_scheme := ''http'', m_has_authority := True, m_host := ''a''\<rparr>,
     doc_http_code := 200, doc_content := ''x'', doc_flags := 5\<rparr>"

theorem doc_save_load_witness:
  "\<exists>d' db'. doc_save boost_ref memory_db sample_types ''ns'' sample_doc Map.empty = Inr (d', db')
     \<and> (\<exists>found. load_url boost_ref memory_db db' ''ns'' (doc_url sample_doc) (doc_init sample_types) = Inr (found, d')) \<and> doc_http_code d' = 200"
proof -
  have "map_sum id (\<lambda>_. ()) (url_normalize boost_ref (doc_url sample_doc)) = Inr ()" by code_simp
  then obtain v where v: "url_normalize boost_ref (doc_url sample_doc) = Inr v"
    by (cases "url_normalize boost_ref (doc_url sample_doc)") auto
  have e: "\<not> url_empty (doc_url sample_doc)" "doc_storable boost_ref sample_doc" by code_simp+
  define db' where "db' = db_update memory_db (db_index memory_db Map.empty ''ns'') ''ns'' (url_get v) (doc_fields sample_types (sample_doc\<lparr>doc_url := v\<rparr>))"
  have s: "doc_save boost_ref memory_db sample_types ''ns'' sample_doc Map.empty = Inr (sample_doc\<lparr>doc_url := v\<rparr>, db')"
    using v e(1) by (simp add: doc_save_def db'_def Let_def)
  have "db_query memory_db Map.empty ''ns'' (url_get v) = []" by (simp add: memory_db_def)
  with doc_save_load [OF memory.mongo_db_axioms e(2) s] have
    "\<exists>found. load_url boost_ref memory_db db' ''ns'' (doc_url sample_doc) (doc_init sample_types) = Inr (found, sample_doc\<lparr>doc_url := v\<rparr>)" by simp
  moreover have "doc_http_code (sample_doc\<lparr>doc_url := v\<rparr>) = 200" by (simp add: sample_doc_def)
  ultimately show ?thesis using s by blast
qed

text \<open>A string with a NUL comes back cut, and \<^verbatim>\<open>load_url\<close> does not tell a document that it found from none.\<close>

lemma read_str_cut: "map_of b f = Some (BStr (s @ CHR 0x00 # t)) \<Longrightarrow> CHR 0x00 \<notin> set s \<Longrightarrow> read_str f b old = Inr s"
  by (auto simp: read_str_def c_str_def takeWhile_append)

lemma load_url_False: "load_url B M db ns u d = Inr (found, d') \<Longrightarrow> \<not> found"
  by (auto simp: load_url_def bindR_eq_Inr)

text \<open>A document saved again keeps the fields that are not set any more, here the content.\<close>

lemma doc_save_keeps_content:
  assumes "db_query memory_db db ns u = [b]" "map_of b ''content'' = Some (BBin s)" "doc_content d = []"
  shows "\<exists>e. db_query memory_db (db_update memory_db db ns u (doc_fields C d)) ns u = [e] \<and> map_of e ''content'' = Some (BBin s)"
proof -
  have "map_of (doc_fields C d) ''content'' = None"
    using assms(3) by (simp add: doc_fields_lookup)
  then show ?thesis using memory.query_set [OF assms(1), of "doc_fields C d"] assms(2) by (auto simp: map_add_def)
qed

end
