(* ===== verification/Crawler.thy ===== *)
theory Crawler
  imports Robots Classifier_Props Doc Utils
begin

unbundle bit_operations_syntax

text \<open>
  The crawler of \<^verbatim>\<open>src/crawler/crawler.cc\<close>: the state machine of a connection (\<^verbatim>\<open>EasyHandle\<close>) that fetches \<^verbatim>\<open>robots.txt\<close>, then asks for
  the headers and then for the content of the URLs of its queue, the callbacks that curl makes, the global scheduler, and the
  reading of URLs and of commands. The libraries (boost, curl, the database, the containers) are a parameter of
  type \<open>cenv\<close>; what curl reports of a transfer is an argument of type \<open>transfer\<close>. The download statistics in floating point,
  the logging and the registration of events are left out.
\<close>

section \<open>Options of a transfer\<close>

datatype copt = CURLOPT_URL | CURLOPT_HEADERFUNCTION | CURLOPT_HEADERDATA | CURLOPT_WRITEFUNCTION | CURLOPT_WRITEDATA
  | CURLOPT_VERBOSE | CURLOPT_ERRORBUFFER | CURLOPT_PRIVATE | CURLOPT_NOPROGRESS | CURLOPT_PROGRESSFUNCTION
  | CURLOPT_PROGRESSDATA | CURLOPT_HTTPHEADER | CURLOPT_CONNECTTIMEOUT | CURLOPT_LOW_SPEED_TIME | CURLOPT_LOW_SPEED_LIMIT
  | CURLOPT_FOLLOWLOCATION | CURLOPT_MAXREDIRS | CURLOPT_REDIR_PROTOCOLS | CURLOPT_FILETIME | CURLOPT_NOBODY
  | CURLOPT_TIMECONDITION | CURLOPT_TIMEVALUE

text \<open>A value is a string, a number, one of the callbacks, the handle itself, a list of header lines or null.\<close>

datatype callback = Header_write_cb | Content_write_cb | Progress_cb

datatype cval = VStr string | VLong int | VFun callback | VThis | VBuffer | VSlist "string list" | VNull

definition LOW_SPEED_LIMIT :: int where
  "LOW_SPEED_LIMIT = 1024"

definition LOW_SPEED_TIME :: int where
  "LOW_SPEED_TIME = 60"

definition CONNECTTIMEOUT :: int where
  "CONNECTTIMEOUT = 60"

definition MAXREDIRS :: int where
  "MAXREDIRS = 5"

definition CONTENT_SIZE_LIMIT :: "64 word" where
  "CONTENT_SIZE_LIMIT = 1048576"

datatype curlm_code = CURLM_CALL_MULTI_PERFORM | CURLM_OK | CURLM_BAD_HANDLE | CURLM_BAD_EASY_HANDLE | CURLM_OUT_OF_MEMORY
  | CURLM_INTERNAL_ERROR | CURLM_BAD_SOCKET | CURLM_UNKNOWN_OPTION | CURLM_LAST | CURLM_other

text \<open>
  What \<^verbatim>\<open>curl_multi_add_handle\<close> answers: that the handle was added, or one of the errors that curl documents for a call that is given a
  multi handle and an easy handle. \<^verbatim>\<open>CURLM_BAD_SOCKET\<close> is documented for calls that are given a socket.
\<close>

datatype add_answer = Added | Not_added_perform | Not_added_handle | Not_added_easy | Not_added_memory | Not_added_internal | Not_added_other

definition add_code :: "add_answer \<Rightarrow> curlm_code" where
  "add_code a = (case a of Added \<Rightarrow> CURLM_OK | Not_added_perform \<Rightarrow> CURLM_CALL_MULTI_PERFORM | Not_added_handle \<Rightarrow> CURLM_BAD_HANDLE
     | Not_added_easy \<Rightarrow> CURLM_BAD_EASY_HANDLE | Not_added_memory \<Rightarrow> CURLM_OUT_OF_MEMORY
     | Not_added_internal \<Rightarrow> CURLM_INTERNAL_ERROR | Not_added_other \<Rightarrow> CURLM_other)"

section \<open>The state\<close>

datatype hstate = IDLE | ROBOTS | NEXT | HEAD | CONTENT

record easy_handle =
  eh_id :: nat
  eh_opts :: "(copt \<times> cval) list"
  eh_content_dl_bytes :: "64 word"
  eh_doc :: "doc option"
  eh_content_os :: string
  eh_headers_os :: string
  eh_robots :: "robots_entry option"
  eh_curl_error :: string
  eh_state :: hstate
  eh_headers :: "string list option"

definition easy_handle_init :: "nat \<Rightarrow> easy_handle" where
  "easy_handle_init i = \<lparr>eh_id = i, eh_opts = [], eh_content_dl_bytes = 0, eh_doc = None, eh_content_os = [], eh_headers_os = [],
     eh_robots = None, eh_curl_error = [], eh_state = IDLE, eh_headers = None\<rparr>"

record connection =
  cn_fd :: int
  cn_input_buff :: string
  cn_host :: string
  cn_serv :: string
  cn_num_urls :: nat

definition connection_init :: connection where
  "connection_init = \<lparr>cn_fd = -1, cn_input_buff = [], cn_host = [], cn_serv = [], cn_num_urls = 0\<rparr>"

text \<open>The information on a socket and the event it is registered for.\<close>

record sockinfo =
  si_sockfd :: int
  si_easy :: nat
  si_action :: int
  si_kind :: int
  si_evset :: bool

record 'db ginfo =
  g_db :: 'db
  g_namespace :: string
  g_interactive_buff :: string
  g_dl_bytes :: "64 word"
  g_dl_bytes_prev :: "64 word"
  g_prev_running :: int
  g_still_running :: int
  g_ndocs_saved :: nat
  g_classifier :: url_classifier
  g_easyHandles :: "easy_handle list"
  g_user_agent :: string
  g_connections :: "int \<rightharpoonup> connection"
  g_socks :: "int \<rightharpoonup> sockinfo"
  g_multi :: "nat list"
  g_timer :: "(int \<times> int) option"
  g_listen_sock :: int
  g_listen_addrlen :: nat
  g_quit :: bool
  g_sigint_cnt :: nat

definition ginfo_init :: "'db \<Rightarrow> string \<Rightarrow> nat \<Rightarrow> 'db ginfo" where
  "ginfo_init db ns par = \<lparr>g_db = db, g_namespace = ns, g_interactive_buff = [], g_dl_bytes = 0, g_dl_bytes_prev = 0,
     g_prev_running = 0, g_still_running = 0, g_ndocs_saved = 0, g_classifier = cl_new_n par,
     g_easyHandles = map easy_handle_init [0..<par],
     g_user_agent = ''mycelium web crawler - https://github.com/larroy/mycelium'',
     g_connections = Map.empty, g_socks = Map.empty, g_multi = [], g_timer = None, g_listen_sock = -1,
     g_listen_addrlen = 0, g_quit = False, g_sigint_cnt = 0\<rparr>"

text \<open>
  The libraries: for a handle, the answer of \<^verbatim>\<open>curl_multi_add_handle\<close>, the time since it was scheduled, and its rate as printed.
\<close>

record 'db cenv =
  en_boost :: boost
  en_lib :: cl_lib
  en_mongo :: "'db mongo"
  en_types :: ctypes
  en_setopt :: "copt \<Rightarrow> cval \<Rightarrow> bool"
  en_add_handle :: "nat \<Rightarrow> add_answer"
  en_timediff :: "nat \<Rightarrow> timer"
  en_kBs :: "nat \<Rightarrow> string"

text \<open>What curl and the clock report when a transfer has ended; \<open>tr_ctype\<close> is what the local
  \<^verbatim>\<open>ctype\<close> holds before it is assigned, \<open>tr_curl_error\<close> what curl left in the error buffer.\<close>

record transfer =
  tr_result :: int
  tr_eff_url :: string
  tr_http_code :: int
  tr_filetime :: int
  tr_time :: int
  tr_ctype :: int
  tr_curl_error :: string

section \<open>Callbacks\<close>

definition mcode_or_die :: "curlm_code \<Rightarrow> unit res" where
  "mcode_or_die code = (if code \<noteq> CURLM_OK then (if code = CURLM_BAD_SOCKET then Inr () else Inl Exited) else Inr ())"

definition sigint_handler :: "'db ginfo \<Rightarrow> 'db ginfo res" where
  "sigint_handler g =
     (let g = g\<lparr>g_quit := True, g_sigint_cnt := g_sigint_cnt g + 1\<rparr> in
      if g_sigint_cnt g > 3 then Inl Exited else Inr g)"

definition header_write_cb :: "string \<Rightarrow> easy_handle \<times> 'db ginfo \<Rightarrow> nat \<times> easy_handle \<times> 'db ginfo" where
  "header_write_cb buff hg =
     (let (h, g) = hg in
      (length buff, h\<lparr>eh_headers_os := eh_headers_os h @ buff\<rparr>, g\<lparr>g_dl_bytes := g_dl_bytes g + word_of_nat (length buff)\<rparr>))"

definition content_write_cb :: "string \<Rightarrow> easy_handle \<times> 'db ginfo \<Rightarrow> nat \<times> easy_handle \<times> 'db ginfo" where
  "content_write_cb buff hg =
     (let (h, g) = hg;
          h = h\<lparr>eh_content_dl_bytes := eh_content_dl_bytes h + word_of_nat (length buff)\<rparr>;
          g = g\<lparr>g_dl_bytes := g_dl_bytes g + word_of_nat (length buff)\<rparr>;
          h = h\<lparr>eh_content_os := eh_content_os h @ buff\<rparr>
      in (if eh_content_dl_bytes h > CONTENT_SIZE_LIMIT then 0 else length buff, h, g))"

text \<open>The events of a socket: \<^verbatim>\<open>CURL_POLL_IN\<close> is 1, \<^verbatim>\<open>CURL_POLL_OUT\<close> 2, \<^verbatim>\<open>CURL_POLL_REMOVE\<close> 4; \<^verbatim>\<open>EV_READ\<close> is 2, \<^verbatim>\<open>EV_WRITE\<close> 4, \<^verbatim>\<open>EV_PERSIST\<close> 16.\<close>

definition setsock :: "int \<Rightarrow> nat \<Rightarrow> int \<Rightarrow> sockinfo" where
  "setsock s e action =
     \<lparr>si_sockfd = s, si_easy = e, si_action = action,
      si_kind = (if action AND 1 \<noteq> 0 then 2 else 0) OR (if action AND 2 \<noteq> 0 then 4 else 0) OR 16, si_evset = True\<rparr>"

definition sock_cb :: "nat \<Rightarrow> int \<Rightarrow> int \<Rightarrow> 'db ginfo \<Rightarrow> 'db ginfo" where
  "sock_cb e s what g =
     (if what = 4 then g\<lparr>g_socks := (g_socks g)(s := None)\<rparr>
      else g\<lparr>g_socks := (g_socks g)(s \<mapsto> setsock s e what)\<rparr>)"

section \<open>Setting up a transfer\<close>

fun setopts :: "'db cenv \<Rightarrow> (copt \<times> cval) list \<Rightarrow> easy_handle \<Rightarrow> easy_handle res" where
  "setopts E [] h = Inr h"
| "setopts E ((opt, v) # os) h =
     (if en_setopt E opt v then setopts E os (h\<lparr>eh_opts := (opt, v) # eh_opts h\<rparr>) else Inl RuntimeError)"

text \<open>The handle is one of the multi handle when curl has answered that it was added.\<close>

definition multi_add_handle :: "'db cenv \<Rightarrow> easy_handle \<times> 'db ginfo \<Rightarrow> (easy_handle \<times> 'db ginfo) res" where
  "multi_add_handle E hg =
     (let (h, g) = hg in
      let a = en_add_handle E (eh_id h); g = (if a = Added then g\<lparr>g_multi := g_multi g @ [eh_id h]\<rparr> else g) in
      bindR (mcode_or_die (add_code a)) (\<lambda>_. Inr (h, g)))"

definition get_robots :: "'db cenv \<Rightarrow> url \<Rightarrow> easy_handle \<times> 'db ginfo \<Rightarrow> (easy_handle \<times> 'db ginfo) res" where
  "get_robots E u hg =
     (let (h, g) = hg in
      bindR (setopts E
        [(CURLOPT_URL, VStr (url_get u)), (CURLOPT_HEADERFUNCTION, VNull), (CURLOPT_HEADERDATA, VNull),
         (CURLOPT_WRITEFUNCTION, VFun Content_write_cb), (CURLOPT_WRITEDATA, VThis), (CURLOPT_VERBOSE, VLong 0)] h) (\<lambda>h.
      bindR (setopts E
        [(CURLOPT_ERRORBUFFER, VBuffer), (CURLOPT_PRIVATE, VThis), (CURLOPT_NOPROGRESS, VLong 0),
         (CURLOPT_PROGRESSFUNCTION, VFun Progress_cb), (CURLOPT_PROGRESSDATA, VThis), (CURLOPT_HTTPHEADER, VNull),
         (CURLOPT_CONNECTTIMEOUT, VLong CONNECTTIMEOUT), (CURLOPT_LOW_SPEED_TIME, VLong LOW_SPEED_TIME),
         (CURLOPT_LOW_SPEED_LIMIT, VLong LOW_SPEED_LIMIT), (CURLOPT_FOLLOWLOCATION, VLong 1),
         (CURLOPT_MAXREDIRS, VLong MAXREDIRS), (CURLOPT_REDIR_PROTOCOLS, VLong 3)] (h\<lparr>eh_curl_error := []\<rparr>)) (\<lambda>h.
      multi_add_handle E (h, g))))"

definition get_content :: "'db cenv \<Rightarrow> url \<Rightarrow> bool \<Rightarrow> easy_handle \<times> 'db ginfo \<Rightarrow> (easy_handle \<times> 'db ginfo) res" where
  "get_content E u preexisting hg =
     (let (h, g) = hg in
      bindR (setopts E
        [(CURLOPT_URL, VStr (url_get u)), (CURLOPT_HEADERFUNCTION, VFun Header_write_cb), (CURLOPT_HEADERDATA, VThis),
         (CURLOPT_WRITEFUNCTION, VFun Content_write_cb), (CURLOPT_WRITEDATA, VThis), (CURLOPT_VERBOSE, VLong 0)] h) (\<lambda>h.
      bindR (setopts E
        [(CURLOPT_ERRORBUFFER, VBuffer), (CURLOPT_PRIVATE, VThis), (CURLOPT_NOPROGRESS, VLong 0),
         (CURLOPT_PROGRESSFUNCTION, VFun Progress_cb), (CURLOPT_PROGRESSDATA, VThis), (CURLOPT_FILETIME, VLong 1),
         (CURLOPT_HTTPHEADER, VNull),
         (CURLOPT_CONNECTTIMEOUT, VLong CONNECTTIMEOUT), (CURLOPT_LOW_SPEED_TIME, VLong LOW_SPEED_TIME),
         (CURLOPT_LOW_SPEED_LIMIT, VLong LOW_SPEED_LIMIT), (CURLOPT_FOLLOWLOCATION, VLong 1),
         (CURLOPT_MAXREDIRS, VLong MAXREDIRS), (CURLOPT_REDIR_PROTOCOLS, VLong 3)] (h\<lparr>eh_curl_error := []\<rparr>)) (\<lambda>h.
      bindR (if preexisting then (case eh_doc h of
          None \<Rightarrow> Inl Undefined
        | Some d \<Rightarrow>
            if doc_etag d \<noteq> [] then
              let h = h\<lparr>eh_headers := Some [''If-None-Match: '' @ doc_etag d]\<rparr> in
              setopts E [(CURLOPT_HTTPHEADER, VSlist [''If-None-Match: '' @ doc_etag d])] h
            else if doc_modified d > 0 then
              setopts E [(CURLOPT_TIMECONDITION, VLong 1), (CURLOPT_TIMEVALUE, VLong (doc_modified d))] h
            else Inr h)
        else Inr h) (\<lambda>h.
      multi_add_handle E (h, g)))))"

definition get_head :: "'db cenv \<Rightarrow> url \<Rightarrow> easy_handle \<times> 'db ginfo \<Rightarrow> (easy_handle \<times> 'db ginfo) res" where
  "get_head E u hg =
     (let (h, g) = hg in
      bindR (setopts E
        [(CURLOPT_URL, VStr (url_get u)), (CURLOPT_HEADERFUNCTION, VFun Header_write_cb), (CURLOPT_HEADERDATA, VThis),
         (CURLOPT_NOBODY, VLong 1), (CURLOPT_VERBOSE, VLong 0)] h) (\<lambda>h.
      bindR (setopts E
        [(CURLOPT_ERRORBUFFER, VBuffer), (CURLOPT_PRIVATE, VThis), (CURLOPT_NOPROGRESS, VLong 0),
         (CURLOPT_PROGRESSFUNCTION, VFun Progress_cb), (CURLOPT_PROGRESSDATA, VThis), (CURLOPT_FILETIME, VLong 1),
         (CURLOPT_HTTPHEADER, VNull),
         (CURLOPT_CONNECTTIMEOUT, VLong CONNECTTIMEOUT), (CURLOPT_LOW_SPEED_TIME, VLong LOW_SPEED_TIME),
         (CURLOPT_LOW_SPEED_LIMIT, VLong LOW_SPEED_LIMIT), (CURLOPT_FOLLOWLOCATION, VLong 1),
         (CURLOPT_MAXREDIRS, VLong MAXREDIRS), (CURLOPT_REDIR_PROTOCOLS, VLong 3)] (h\<lparr>eh_curl_error := []\<rparr>)) (\<lambda>h.
      multi_add_handle E (h, g))))"

section \<open>The state machine of a handle\<close>

definition eh_reset :: "'db cenv \<Rightarrow> easy_handle \<Rightarrow> easy_handle" where
  "eh_reset E h = h\<lparr>eh_opts := [], eh_doc := Some (doc_init (en_types E)), eh_content_os := [], eh_headers_os := [],
     eh_content_dl_bytes := 0\<rparr>"

text \<open>The URL of \<^verbatim>\<open>robots.txt\<close>, made out of the URL of the document.\<close>

definition robots_url :: "boost \<Rightarrow> url \<Rightarrow> url \<Rightarrow> url res" where
  "robots_url B u d =
     bindR (set_scheme B ''http'' d) (\<lambda>d. bindR (set_host B (m_host u) d) (\<lambda>d. set_path ''robots.txt'' d))"

text \<open>The request that is made in a state, for the URL \<open>u\<close> and the document \<open>d\<close> of the handle.\<close>

definition start_transfer ::
  "'db cenv \<Rightarrow> url \<Rightarrow> bool \<Rightarrow> doc \<Rightarrow> easy_handle \<times> 'db ginfo \<Rightarrow> (easy_handle \<times> 'db ginfo) res" where
  "start_transfer E u preexisting d hg =
     (let (h, g) = hg in
      if eh_state h = IDLE \<or> eh_state h = ROBOTS then
        bindR (robots_url (en_boost E) u (doc_url d)) (\<lambda>ru.
          get_robots E ru (h\<lparr>eh_state := ROBOTS, eh_doc := Some (d\<lparr>doc_url := ru\<rparr>)\<rparr>, g))
      else if eh_state h = HEAD then get_head E u (h, g)
      else if eh_state h = CONTENT then get_content E u preexisting (h, g)
      else Inl RuntimeError)"

definition reschedule :: "'db cenv \<Rightarrow> easy_handle \<times> 'db ginfo \<Rightarrow> (easy_handle \<times> 'db ginfo) res" where
  "reschedule E hg =
     (let (h, g) = hg in
      bindR (if empty_top (g_classifier g) then cl_empty_n (g_classifier g) (eh_id h) else Inr False) (\<lambda>nothing.
      if nothing then Inr (h, g)
      else
        bindR (peek (en_lib E) (eh_id h) (g_classifier g)) (\<lambda>(front, cl).
        bindR (url_normalize (en_boost E) front) (\<lambda>u.
        bindR (load_url (en_boost E) (en_mongo E) (g_db g) (g_namespace g) u (doc_init (en_types E))) (\<lambda>(preexisting, d).
          let h = (eh_reset E h)\<lparr>eh_doc := Some d\<rparr>;
              h = (if preexisting then h\<lparr>eh_state := CONTENT\<rparr> else h)
          in start_transfer E u preexisting d (h, g\<lparr>g_classifier := cl\<rparr>))))))"

definition acceptable :: "ctypes \<Rightarrow> int \<Rightarrow> bool" where
  "acceptable C ctype \<longleftrightarrow> ctype > ct_UNRECOGNIZED C \<and> ctype < ct_EMPTY C"

text \<open>The handler of a finished transfer of \<^verbatim>\<open>robots.txt\<close>: the entry it leaves.\<close>

definition robots_done :: "'db cenv \<Rightarrow> transfer \<Rightarrow> int \<Rightarrow> string \<Rightarrow> robots_entry" where
  "robots_done E t http_code content =
     (if tr_result t = 0 \<and> http_code = 200 then
        (case yylex (en_boost E) True content robots_init of
           Inl _ \<Rightarrow> robots.extend (robots_clear robots_init) \<lparr>estate = EPARSE\<rparr>
         | Inr (res, r) \<Rightarrow>
             if res < 0 then robots.extend (robots_clear r) \<lparr>estate = EPARSE\<rparr>
             else robots.extend r \<lparr>estate = PRESENT\<rparr>)
      else entry_init NOT_AVAILABLE)"

definition robots_ok :: "robots_entry \<Rightarrow> string \<Rightarrow> string \<Rightarrow> bool res" where
  "robots_ok e user_agent p =
     (if tried_but_failed e then Inr True
      else if estate e = PRESENT then path_allowed (robots.truncate e) user_agent p
      else Inr False)"

text \<open>Saving the document, counting it, and taking the URL from the queue.\<close>

definition save_and_pop :: "'db cenv \<Rightarrow> doc \<Rightarrow> easy_handle \<times> 'db ginfo \<Rightarrow> (easy_handle \<times> 'db ginfo) res" where
  "save_and_pop E d hg =
     (let (h, g) = hg in
      bindR (doc_save (en_boost E) (en_mongo E) (en_types E) (g_namespace g) d (g_db g)) (\<lambda>(d, db).
      let g = g\<lparr>g_db := db, g_ndocs_saved := g_ndocs_saved g + 1\<rparr> in
      bindR (cl_pop (eh_id h) (g_classifier g)) (\<lambda>cl.
        Inr (h\<lparr>eh_doc := Some d, eh_state := NEXT\<rparr>, g\<lparr>g_classifier := cl\<rparr>))))"

text \<open>The actions of \<^verbatim>\<open>done\<close> by the state of the handle, up to the choice of the next URL.\<close>

definition done_state :: "'db cenv \<Rightarrow> transfer \<Rightarrow> doc \<Rightarrow> easy_handle \<times> 'db ginfo \<Rightarrow> (easy_handle \<times> 'db ginfo) res" where
  "done_state E t d hg =
     (let (h, g) = hg; B = en_boost E; C = en_types E in
      case eh_state h of
        IDLE \<Rightarrow> Inl RuntimeError
      | ROBOTS \<Rightarrow> Inr (h\<lparr>eh_robots := Some (robots_done E t (doc_http_code d) (eh_content_os h)),
            eh_doc := Some (d\<lparr>doc_content := []\<rparr>), eh_state := NEXT\<rparr>, g)
      | HEAD \<Rightarrow>
          if tr_result t = 0 \<and> doc_http_code d = 200 then
            let d = d\<lparr>doc_headers := eh_headers_os h\<rparr> in
            bindR (parse_http_headers B C (doc_headers d) \<lparr>hd_content_type = tr_ctype t, hd_charset = [], hd_map = Map.empty\<rparr>) (\<lambda>r.
            let d = d\<lparr>doc_content_type := hd_content_type r\<rparr> in
            if acceptable C (hd_content_type r) then Inr (h\<lparr>eh_doc := Some d, eh_state := CONTENT\<rparr>, g)
            else save_and_pop E (d\<lparr>doc_http_code := 406\<rparr>) (h, g))
          else save_and_pop E d (h, g)
      | CONTENT \<Rightarrow>
          if tr_result t = 0 \<and> doc_http_code d = 200 then
            let d = d\<lparr>doc_headers := eh_headers_os h, doc_content := eh_content_os h\<rparr> in
            bindR (parse_http_headers B C (doc_headers d) \<lparr>hd_content_type = tr_ctype t, hd_charset = [], hd_map = Map.empty\<rparr>) (\<lambda>r.
            save_and_pop E (d\<lparr>doc_content_type := hd_content_type r\<rparr>) (h, g))
          else save_and_pop E d (h, g)
      | NEXT \<Rightarrow> Inr (h\<lparr>eh_doc := Some d\<rparr>, g))"

lemma cl_empty_n_waiting: "cl_empty_n c n = Inr e \<Longrightarrow> e \<longleftrightarrow> waiting n c = []"
  by (auto simp: cl_empty_n_def waiting_def split: option.splits)

lemma peek_nonempty: "cl_empty_n c n = Inr False \<Longrightarrow> peek L n c = Inr (hd (waiting n c), c)"
  by (auto simp: cl_empty_n_def waiting_def peek_def split: option.splits)

lemma index_of_update: "index_of P xs = Some i \<Longrightarrow> P y \<Longrightarrow> index_of P (xs[i := y]) = Some i"
  by (induction xs arbitrary: i) (auto split: if_splits nat.splits)

lemma cl_pop_waiting: "cl_pop n c = Inr c' \<Longrightarrow> waiting n c \<noteq> [] \<and> waiting n c' = tl (waiting n c)"
  using find_n_Some [of n "table c"]
  by (auto simp: cl_pop_def waiting_def find_n_def index_of_update split: option.splits if_splits)

text \<open>
  The loop of \<^verbatim>\<open>done\<close> that looks for the next URL to retrieve. A turn of it says whether the loop goes on, after
  a URL that is not allowed; the loop ends because the queue of the handle gets shorter.
\<close>

definition next_turn :: "'db cenv \<Rightarrow> easy_handle \<times> 'db ginfo \<Rightarrow> (bool \<times> easy_handle \<times> 'db ginfo) res" where
  "next_turn E hg =
     (let (h, g) = hg in
      bindR (peek (en_lib E) (eh_id h) (g_classifier g)) (\<lambda>(front, cl).
      bindR (url_normalize (en_boost E) front) (\<lambda>u.
      case eh_doc h of None \<Rightarrow> Inl Undefined | Some d \<Rightarrow>
      bindR (load_url (en_boost E) (en_mongo E) (g_db g) (g_namespace g) u d) (\<lambda>(preexisting, d).
      let h = h\<lparr>eh_state := IDLE, eh_doc := Some d\<rparr>; g = g\<lparr>g_classifier := cl\<rparr> in
      if preexisting then Inr (False, h\<lparr>eh_state := CONTENT\<rparr>, g)
      else case eh_robots h of
        None \<Rightarrow> Inr (False, h\<lparr>eh_state := ROBOTS\<rparr>, g)
      | Some e \<Rightarrow>
          if m_host (doc_url d) \<noteq> m_host u then Inr (False, h\<lparr>eh_state := ROBOTS\<rparr>, g)
          else bindR (robots_ok e (g_user_agent g) (get_path u)) (\<lambda>ok.
            if ok then Inr (False, h\<lparr>eh_state := HEAD\<rparr>, g)
            else bindR (cl_pop (eh_id h) cl) (\<lambda>cl. Inr (True, h, g\<lparr>g_classifier := cl\<rparr>)))))))"

lemma next_turn_shorter:
  assumes "next_turn E (h, g) = Inr (True, h', g')" "cl_empty_n (g_classifier g) (eh_id h) = Inr False"
  shows "length (waiting (eh_id h') (g_classifier g')) < length (waiting (eh_id h) (g_classifier g))"
  using assms peek_nonempty [OF assms(2), of "en_lib E"]
  by (auto simp: next_turn_def Let_def bindR_eq_Inr split: option.splits if_splits dest!: cl_pop_waiting)

function next_loop :: "'db cenv \<Rightarrow> easy_handle \<times> 'db ginfo \<Rightarrow> (easy_handle \<times> 'db ginfo) res" where
  "next_loop E (h, g) =
     bindR (cl_empty_n (g_classifier g) (eh_id h)) (\<lambda>nothing.
       if nothing then Inr (h, g)
       else bindR (next_turn E (h, g)) (\<lambda>(again, h, g). if again then next_loop E (h, g) else Inr (h, g)))"
  by pat_completeness auto
termination
  by (relation "measure (\<lambda>(E, h, g). length (waiting (eh_id h) (g_classifier g)))") (auto dest: next_turn_shorter)

declare next_loop.simps [simp del]

definition handle_done :: "'db cenv \<Rightarrow> transfer \<Rightarrow> easy_handle \<times> 'db ginfo \<Rightarrow> (easy_handle \<times> 'db ginfo) res" where
  "handle_done E t hg =
     (let (h, g) = hg; B = en_boost E in
      bindR (url_of B (tr_eff_url t)) (\<lambda>eff_url.
      bindR (url_normalize B eff_url) (\<lambda>eff_url.
      case eh_doc h of None \<Rightarrow> Inl Undefined | Some d \<Rightarrow>
      bindR (url_neq B eff_url (doc_url d)) (\<lambda>ne.
      let d = (if ne then d\<lparr>doc_eff_url := eff_url\<rparr> else d);
          h = h\<lparr>eh_curl_error := tr_curl_error t\<rparr>;
          d = d\<lparr>doc_curl_code := tr_result t, doc_curl_error := eh_curl_error h, doc_http_code := tr_http_code t,
                doc_modified := tr_filetime t\<rparr>;
          h = h\<lparr>eh_headers := None\<rparr>;
          d = d\<lparr>doc_crawled := tr_time t\<rparr> in
      bindR (done_state E t d (h, g)) (\<lambda>(h, g).
      bindR (if eh_state h = NEXT then next_loop E (h\<lparr>eh_state := IDLE\<rparr>, g) else Inr (h, g)) (\<lambda>(h, g).
      reschedule E (h\<lparr>eh_doc := map_option (\<lambda>d. d\<lparr>doc_url := url_clear (doc_url d)\<rparr>) (eh_doc h)\<rparr>, g)))))))"

section \<open>The scheduler\<close>

definition on_handle ::
  "(easy_handle \<times> 'db ginfo \<Rightarrow> (easy_handle \<times> 'db ginfo) res) \<Rightarrow> nat \<Rightarrow> 'db ginfo \<Rightarrow> 'db ginfo res" where
  "on_handle f i g =
     (if i < length (g_easyHandles g)
      then bindR (f (g_easyHandles g ! i, g)) (\<lambda>(h, g). Inr (g\<lparr>g_easyHandles := (g_easyHandles g)[i := h]\<rparr>))
      else Inl Undefined)"

definition g_reschedule :: "'db cenv \<Rightarrow> 'db ginfo \<Rightarrow> 'db ginfo res" where
  "g_reschedule E g =
     foldR (\<lambda>i g. if eh_state (g_easyHandles g ! i) = IDLE then on_handle (reschedule E) i g else Inr g)
       [0..<length (g_easyHandles g)] g"

text \<open>A message of curl: a handle has finished its transfer, or something else.\<close>

datatype curl_msg = MSG_DONE nat transfer | MSG_other

fun run_msgs :: "'db cenv \<Rightarrow> curl_msg list \<Rightarrow> 'db ginfo \<Rightarrow> 'db ginfo res" where
  "run_msgs E [] g = Inr g"
| "run_msgs E (MSG_other # ms) g = run_msgs E ms g"
| "run_msgs E (MSG_DONE i t # ms) g =
     (if map_of (eh_opts (g_easyHandles g ! i)) CURLOPT_PRIVATE \<noteq> Some VThis then Inl RuntimeError
      else bindR (on_handle (handle_done E t) i (g\<lparr>g_multi := removeAll i (g_multi g)\<rparr>)) (run_msgs E ms))"

text \<open>The second component are the messages that curl still holds.\<close>

definition check_run_count :: "'db cenv \<Rightarrow> curl_msg list \<Rightarrow> 'db ginfo \<Rightarrow> ('db ginfo \<times> curl_msg list) res" where
  "check_run_count E msgs g =
     bindR (if g_prev_running g > g_still_running g
            then bindR (run_msgs E msgs g) (\<lambda>g. Inr (g, [])) else Inr (g, msgs)) (\<lambda>(g, msgs).
       Inr (g\<lparr>g_prev_running := g_still_running g\<rparr>, msgs))"

text \<open>The answers of \<^verbatim>\<open>curl_multi_socket_action\<close>, called until one is not \<^verbatim>\<open>CURLM_CALL_MULTI_PERFORM\<close>.\<close>

partial_function (option) socket_action :: "(nat \<Rightarrow> curlm_code \<times> int) \<Rightarrow> nat \<Rightarrow> (curlm_code \<times> int) option" where
  "socket_action answer k =
     (if fst (answer k) = CURLM_CALL_MULTI_PERFORM then socket_action answer (k + 1) else Some (answer k))"

definition timer_cb ::
  "'db cenv \<Rightarrow> (nat \<Rightarrow> curlm_code \<times> int) \<Rightarrow> curl_msg list \<Rightarrow> 'db ginfo \<Rightarrow> ('db ginfo \<times> curl_msg list) res option" where
  "timer_cb E answer msgs g =
     map_option (\<lambda>(rc, running).
       let g = g\<lparr>g_timer := None, g_still_running := running\<rparr> in
       bindR (mcode_or_die rc) (\<lambda>_. check_run_count E msgs g)) (socket_action answer 0)"

text \<open>The action that is passed to curl for the event of a socket: \<^verbatim>\<open>CURL_CSELECT_IN\<close> is 1, \<^verbatim>\<open>CURL_CSELECT_OUT\<close> is 2.\<close>

definition multi_cb_action :: "int \<Rightarrow> int" where
  "multi_cb_action kind = (if kind AND 2 \<noteq> 0 then 1 else 0) OR (if kind AND 4 \<noteq> 0 then 2 else 0)"

definition multi_cb ::
  "'db cenv \<Rightarrow> (int \<Rightarrow> nat \<Rightarrow> curlm_code \<times> int) \<Rightarrow> curl_msg list \<Rightarrow> int \<Rightarrow> 'db ginfo \<Rightarrow> ('db ginfo \<times> curl_msg list) res option" where
  "multi_cb E answer msgs kind g =
     map_option (\<lambda>(rc, running).
       let g = g\<lparr>g_still_running := running\<rparr> in
       bindR (mcode_or_die rc) (\<lambda>_.
         let g = (if g_still_running g \<le> 0 then g\<lparr>g_timer := None\<rparr> else g) in
         check_run_count E msgs g)) (socket_action (answer (multi_cb_action kind)) 0)"

definition multi_timer_cb :: "int \<Rightarrow> 'db ginfo \<Rightarrow> 'db ginfo" where
  "multi_timer_cb timeout_ms g = g\<lparr>g_timer := Some (timeout_ms sdiv 1000, (timeout_ms smod 1000) * 1000)\<rparr>"

text \<open>The flag says that the loop of events is to end. What is printed is left out.\<close>

definition scheduler_cb :: "'db cenv \<Rightarrow> 'db ginfo \<Rightarrow> (bool \<times> 'db ginfo) res" where
  "scheduler_cb E g = bindR (g_reschedule E g) (\<lambda>g. Inr (g_quit g, g\<lparr>g_dl_bytes_prev := g_dl_bytes g\<rparr>))"

section \<open>Reading URLs\<close>

text \<open>A line of the input of a connection, and the rest of it at the end of the input.\<close>

definition read_url :: "'db cenv \<Rightarrow> string \<Rightarrow> connection \<times> url_classifier \<Rightarrow> (connection \<times> url_classifier) res" where
  "read_url E line s =
     (let (cn, cl) = s in
      case url_of (en_boost E) line of
        Inl UrlParseError \<Rightarrow> Inr (cn, cl)
      | Inl x \<Rightarrow> Inl x
      | Inr u \<Rightarrow>
          if absolute u \<and> m_scheme u = ''http''
          then Inr (cn\<lparr>cn_num_urls := cn_num_urls cn + 1\<rparr>, cl_push (en_lib E) u cl)
          else Inr (cn, cl))"

definition flush_url :: "'db cenv \<Rightarrow> string \<Rightarrow> url_classifier \<Rightarrow> url_classifier res" where
  "flush_url E line cl =
     (case url_of (en_boost E) line of
        Inl UrlParseError \<Rightarrow> Inr cl
      | Inl x \<Rightarrow> Inl x
      | Inr u \<Rightarrow> Inr (cl_push (en_lib E) u cl))"

definition process_input_buff ::
  "'db cenv \<Rightarrow> bool \<Rightarrow> connection \<times> url_classifier \<Rightarrow> (connection \<times> url_classifier) res" where
  "process_input_buff E flush s =
     (let (cn, cl) = s; buff = cn_input_buff cn in
      if buff = [] then Inr (cn, cl)
      else bindR (scan_lines (read_url E) buff 0 (cn, cl)) (\<lambda>(tortoise, cn, cl).
        if flush \<and> tortoise < length buff then
          let line = drop tortoise buff in
          if line = [] then Inr (cn, cl)
          else bindR (flush_url E line cl) (\<lambda>cl. Inr (cn\<lparr>cn_input_buff := []\<rparr>, cl))
        else if tortoise < length buff then Inr (cn\<lparr>cn_input_buff := drop tortoise buff\<rparr>, cl)
        else Inr (cn\<lparr>cn_input_buff := []\<rparr>, cl)))"

text \<open>What \<^verbatim>\<open>read\<close> returns.\<close>

datatype read_result = Read_eof | Read_error | Read_data string

definition connection_read_cb :: "'db cenv \<Rightarrow> int \<Rightarrow> read_result \<Rightarrow> 'db ginfo \<Rightarrow> 'db ginfo res" where
  "connection_read_cb E fd r g =
     (case g_connections g fd of
        None \<Rightarrow> Inl Undefined
      | Some cn \<Rightarrow> (case r of
          Read_eof \<Rightarrow>
            bindR (process_input_buff E True (cn, g_classifier g)) (\<lambda>(cn, cl).
              Inr (g\<lparr>g_classifier := cl, g_connections := (g_connections g)(cn_fd cn := None)\<rparr>))
        | Read_error \<Rightarrow> Inl RuntimeError
        | Read_data b \<Rightarrow>
            bindR (process_input_buff E False (cn\<lparr>cn_input_buff := cn_input_buff cn @ b\<rparr>, g_classifier g)) (\<lambda>(cn, cl).
              Inr (g\<lparr>g_classifier := cl, g_connections := (g_connections g)(fd \<mapsto> cn)\<rparr>))))"

text \<open>
  \<^verbatim>\<open>accept\<close> is given what \<^verbatim>\<open>Accept\<close> returned, the length of the address, and what \<^verbatim>\<open>getnameinfo\<close> found; \<^verbatim>\<open>FD_SETSIZE\<close> is 1024. The
  answers are what it returns and whether it has closed the descriptor, which stays in \<^verbatim>\<open>m_fd\<close>.
\<close>

definition conn_accept :: "int \<Rightarrow> nat \<Rightarrow> (string \<times> string) option \<Rightarrow> 'db ginfo \<Rightarrow> (bool \<times> bool \<times> connection) res" where
  "conn_accept fd socklen name g =
     (let cn = connection_init\<lparr>cn_fd := fd\<rparr> in
      if socklen > g_listen_addrlen g then Inl RuntimeError
      else if fd < 0 then Inr (False, False, cn)
      else if fd > 1024 then Inr (False, True, cn)
      else case name of
        Some (host, serv) \<Rightarrow> Inr (True, False, cn\<lparr>cn_host := host, cn_serv := serv\<rparr>)
      | None \<Rightarrow> Inr (True, False, cn))"

text \<open>The destructor: \<^verbatim>\<open>close\<close> of a descriptor that is closed already fails, and \<^verbatim>\<open>err_sys\<close> throws.\<close>

definition conn_delete :: "bool \<Rightarrow> connection \<Rightarrow> unit res" where
  "conn_delete closed cn = (if cn_fd cn > 0 \<and> closed then Inl RuntimeError else Inr ())"

definition accept_cb ::
  "(nat \<Rightarrow> accept_answer) \<Rightarrow> nat \<Rightarrow> (string \<times> string) option \<Rightarrow> 'db ginfo \<Rightarrow> 'db ginfo res option" where
  "accept_cb accept socklen name g =
     map_option (\<lambda>r.
       bindR r (\<lambda>fd. bindR (conn_accept fd socklen name g) (\<lambda>(ok, closed, cn).
         if ok then Inr (g\<lparr>g_connections := (g_connections g)(cn_fd cn \<mapsto> cn)\<rparr>)
         else bindR (conn_delete closed cn) (\<lambda>_. Inr g)))) (Accept accept 0)"

definition g_listen :: "(int \<Rightarrow> int) \<Rightarrow> addr list option \<Rightarrow> 'db ginfo \<Rightarrow> 'db ginfo res" where
  "g_listen Listen gai g =
     bindR (Tcp_listen Listen gai) (\<lambda>(sock, len). Inr (g\<lparr>g_listen_sock := sock, g_listen_addrlen := len\<rparr>))"

section \<open>Commands\<close>

definition state_str :: "hstate \<Rightarrow> string" where
  "state_str st = (case st of IDLE \<Rightarrow> ''IDLE'' | ROBOTS \<Rightarrow> ''ROBOTS'' | NEXT \<Rightarrow> ''NEXT'' | HEAD \<Rightarrow> ''HEAD'' | CONTENT \<Rightarrow> ''CONTENT'')"

definition status :: "'db cenv \<Rightarrow> 'db ginfo \<Rightarrow> string" where
  "status E g = concat (map (\<lambda>h.
     (case eh_doc h of
        Some d \<Rightarrow>
          if eh_state h \<noteq> IDLE then
            ''handle '' @ nat_digits (eh_id h) @ '': '' @ state_str (eh_state h) @ '': '' @ format_timediff (en_timediff E (eh_id h))
            @ '': '' @ en_kBs E (eh_id h) @ '' KB/s down: '' @ nat_digits (unat (eh_content_dl_bytes h)) @ '' url: ''
            @ url_get (doc_url d) @ [CHR 0x0A]
          else ''handle '' @ nat_digits (eh_id h) @ '': '' @ state_str (eh_state h) @ '': NULL'' @ [CHR 0x0A]
      | None \<Rightarrow> ''handle '' @ nat_digits (eh_id h) @ '': '' @ state_str (eh_state h) @ '': NULL'' @ [CHR 0x0A])) (g_easyHandles g))"

text \<open>A command appends to what has been printed.\<close>

definition interactive_cmd :: "'db cenv \<Rightarrow> string \<Rightarrow> string \<times> 'db ginfo \<Rightarrow> (string \<times> 'db ginfo) res" where
  "interactive_cmd E cmd s =
     (let (out, g) = s; cl = g_classifier g in
      if cmd = ''qlen'' then
        bindR (foldR (\<lambda>i out. bindR (q_len cl i) (\<lambda>n.
            Inr (out @ ''child queue '' @ nat_digits i @ '' len: '' @ nat_digits n @ [CHR 0x0A])))
          [0..<length (g_easyHandles g)] (out @ ''Parent queue len: '' @ nat_digits (q_len_top cl) @ [CHR 0x0A])) (\<lambda>out.
        Inr (out @ [CHR 0x0A], g))
      else if cmd = ''dumpq'' then Inr (out @ cl_print cl @ [CHR 0x0A], g)
      else if cmd = ''quit'' then Inr (out, g\<lparr>g_quit := True\<rparr>)
      else if cmd = ''reschedule'' then bindR (g_reschedule E g) (\<lambda>g. Inr (out, g))
      else if cmd = ''status'' then Inr (out @ status E g, g)
      else if cmd = ''help'' \<or> cmd = ''h'' then
        Inr (out @ ''commands: qlen dumpq reschedule status help quit'' @ [CHR 0x0A], g)
      else Inr (out, g))"

definition interactive_process :: "'db cenv \<Rightarrow> bool \<Rightarrow> string \<times> 'db ginfo \<Rightarrow> (string \<times> 'db ginfo) res" where
  "interactive_process E flush s =
     (let (out, g) = s; buff = g_interactive_buff g in
      if buff = [] then Inr (out, g)
      else bindR (scan_lines (interactive_cmd E) buff 0 (out, g)) (\<lambda>(tortoise, s).
        bindR (if flush \<and> tortoise < length buff then interactive_cmd E (drop tortoise buff) s else Inr s) (\<lambda>(out, g).
          Inr (out, g\<lparr>g_interactive_buff := drop tortoise buff\<rparr>))))"

text \<open>At an error the event is removed: nothing is read any more.\<close>

definition on_read_interactive_cb :: "'db cenv \<Rightarrow> read_result \<Rightarrow> string \<times> 'db ginfo \<Rightarrow> (string \<times> 'db ginfo) res" where
  "on_read_interactive_cb E r s =
     (let (out, g) = s in
      case r of
        Read_eof \<Rightarrow> interactive_process E True (out, g)
      | Read_error \<Rightarrow> Inr (out, g)
      | Read_data b \<Rightarrow> interactive_process E False (out, g\<lparr>g_interactive_buff := g_interactive_buff g @ b\<rparr>))"

section \<open>The main program\<close>

definition PARALLEL_DEFAULT :: int where
  "PARALLEL_DEFAULT = 20"

definition MONGODB_NAMESPACE_DEFAULT :: string where
  "MONGODB_NAMESPACE_DEFAULT = ''mycelium.crawl''"

text \<open>\<^verbatim>\<open>atoi\<close>: 0 when there are no digits, undefined when the number does not fit.\<close>

definition atoi :: "string \<Rightarrow> int res" where
  "atoi s =
     (let t = dropWhile isspace s;
          neg = (t \<noteq> [] \<and> hd t = CHR ''-'');
          t = (if t \<noteq> [] \<and> (hd t = CHR ''-'' \<or> hd t = CHR ''+'') then tl t else t);
          ds = takeWhile isdigit t;
          v = (if neg then - int (decimal ds) else int (decimal ds))
      in if v < - (2 ^ 31) \<or> 2 ^ 31 \<le> v then Inl Undefined else Inr v)"

text \<open>The settings that \<^verbatim>\<open>main\<close> and the constructor of \<^verbatim>\<open>GlobalInfo\<close> read.\<close>

definition main_settings :: "(string \<rightharpoonup> string) \<Rightarrow> (nat \<times> string) res" where
  "main_settings getenv =
     bindR (case getenv ''MYCELIUM_CRAWLER_PARALLEL'' of Some s \<Rightarrow> atoi s | None \<Rightarrow> Inr PARALLEL_DEFAULT) (\<lambda>par.
       if par \<le> 0 then Inl RuntimeError
       else Inr (nat par, case getenv ''CRAWLER_PORT'' of Some s \<Rightarrow> s | None \<Rightarrow> ''1024''))"

definition db_settings :: "(string \<rightharpoonup> string) \<Rightarrow> string \<times> string" where
  "db_settings getenv =
     (case getenv ''MYCELIUM_DB_HOST'' of Some s \<Rightarrow> s | None \<Rightarrow> ''localhost'',
      case getenv ''MYCELIUM_DB_NS'' of Some s \<Rightarrow> s | None \<Rightarrow> MONGODB_NAMESPACE_DEFAULT)"

end
