(* ===== verification/Crawler_Handle.thy ===== *)
theory Crawler_Handle
  imports Crawler Url_Norm
begin

text \<open>
  The operations of a handle of the crawler. A handle works on the queue of its number: \<open>handle_inv\<close> says what it has asked curl for
  in each state, and under which entry of \<^verbatim>\<open>robots.txt\<close>. With the entry a history goes: the URL of the request that
  the entry was made of. \<open>verdict\<close> is what the entry says of a URL.
\<close>

section \<open>Queues of other handles\<close>

text \<open>A queue that is not empty keeps its first URL.\<close>

definition keeps :: "nat \<Rightarrow> url_classifier \<Rightarrow> url_classifier \<Rightarrow> bool" where
  "keeps n c c' \<longleftrightarrow> (waiting n c \<noteq> [] \<longrightarrow> waiting n c' \<noteq> [] \<and> hd (waiting n c') = hd (waiting n c))"

lemma keeps_refl [simp]: "keeps n c c"
  by (simp add: keeps_def)

lemma keeps_trans: "keeps n a b \<Longrightarrow> keeps n b c \<Longrightarrow> keeps n a c"
  by (auto simp: keeps_def)

lemma waiting_update:
  assumes "distinct (map te_n t)" "i < length t" "te_n e = te_n (t ! i)"
  shows "waiting n \<lparr>top_q = q, table = t[i := e]\<rparr> = (if n = te_n e then te_queue e else waiting n \<lparr>top_q = q', table = t\<rparr>)"
proof (cases "n = te_n e")
  case True
  have "map te_n (t[i := e]) = map te_n t" using assms(3) by (metis list_update_id map_update)
  then have "find_n n (t[i := e]) = Some i" using assms True by (intro find_n_at) simp_all
  then show ?thesis using True assms(2) by (simp add: waiting_def)
next
  case False
  have "index_of (\<lambda>e. te_n e = n) (t[i := e]) = index_of (\<lambda>e. te_n e = n) t" using assms(2,3) False
  proof (induction t arbitrary: i)
    case (Cons x t)
    then show ?case by (cases i) simp_all
  qed simp
  moreover have "t[i := e] ! j = t ! j" if "index_of (\<lambda>e. te_n e = n) t = Some j" for j
    using index_of_Some [OF that] False assms(3) by (metis nth_list_update_neq)
  ultimately show ?thesis using False by (simp add: waiting_def find_n_def split: option.split)
qed

lemma waiting_top [simp]: "waiting n (c\<lparr>top_q := q\<rparr>) = waiting n c"
  by (simp add: waiting_def split: option.split)

lemma waiting_at: "distinct (map te_n (table c)) \<Longrightarrow> i < length (table c) \<Longrightarrow> waiting (te_n (table c ! i)) c = te_queue (table c ! i)"
  using find_n_at [of "table c" i] by (simp add: waiting_def)

lemma waiting_table:
  assumes "cl_inv c" "i < length (table c)" "te_n e = te_n (table c ! i)"
  shows "waiting n (c\<lparr>table := (table c)[i := e]\<rparr>) = (if n = te_n e then te_queue e else waiting n c)"
  using waiting_update [of "table c" i e n "top_q c" "top_q c"] assms by (cases c) (simp add: cl_inv_def)

text \<open>A classifier has a queue for every handle.\<close>

definition has_queues :: "nat \<Rightarrow> url_classifier \<Rightarrow> bool" where
  "has_queues N c \<longleftrightarrow> (\<forall>i<N. find_n i (table c) \<noteq> None)"

lemma has_queues_set: "has_queues N c \<longleftrightarrow> {..<N} \<subseteq> te_n ` set (table c)"
  by (auto simp: has_queues_def find_n_None)

lemma te_n_update: "i < length t \<Longrightarrow> te_n e = te_n (t ! i) \<Longrightarrow> te_n ` set (t[i := e]) = te_n ` set t"
  by (metis list_update_id map_update set_map)

context classifier_lib
begin

lemma cl_push_waiting:
  assumes "cl_inv c"
  shows "(waiting n (cl_push L u c) = waiting n c \<or> waiting n (cl_push L u c) = waiting n c @ [u])
    \<and> te_n ` set (table (cl_push L u c)) = te_n ` set (table c)"
proof (cases "find_host L (m_host u) (table c)")
  case (Some i)
  note i = find_host_Some [OF Some]
  show ?thesis using Some i waiting_table [OF assms, of i "enqueue u (table c ! i)" n] waiting_at [of c i] assms
    by (auto simp: cl_push_def enqueue_def cl_inv_def te_n_update)
next
  case None
  show ?thesis
  proof (cases "index_of (\<lambda>e. te_queue e = []) (table c)")
    case (Some j)
    note j = index_of_Some [OF Some]
    show ?thesis using None Some j waiting_table [OF assms, of j "(enqueue u (table c ! j))\<lparr>te_host := m_host u\<rparr>" n] waiting_at [of c j] assms
      by (auto simp: cl_push_def enqueue_def cl_inv_def te_n_update)
  next
    case None2: None
    show ?thesis using None None2 by (simp add: cl_push_def)
  qed
qed

lemma cl_push_keeps: "cl_inv c \<Longrightarrow> keeps n c (cl_push L u c)"
  using cl_push_waiting [of c n u] by (auto simp: keeps_def)

lemma cl_push_queues: "cl_inv c \<Longrightarrow> has_queues N (cl_push L u c) \<longleftrightarrow> has_queues N c"
  using cl_push_waiting by (simp add: has_queues_set)

lemma peek_others:
  assumes "cl_inv c" "find_n num (table c) = Some i" "peek L num c = Inr (u, c')"
  shows "(n \<noteq> num \<longrightarrow> waiting n c' = waiting n c) \<and> te_n ` set (table c') = te_n ` set (table c)"
proof (cases "te_queue (table c ! i) = []")
  case True
  note i = find_n_Some [OF assms(2)]
  obtain t tq where r: "refill L (table c ! i) (top_q c) = (t, tq)" by fastforce
  then have t: "te_n t = te_n (table c ! i)" by (auto simp: refill_def Let_def split: prod.splits)
  have c': "c' = \<lparr>top_q = tq, table = (table c)[i := t]\<rparr>"
    using assms True r by (auto simp: peek_def split: if_splits)
  show ?thesis using waiting_update [of "table c" i t n tq "top_q c"] assms(1) i t
    unfolding c' by (cases c) (auto simp: cl_inv_def te_n_update)
next
  case False
  then show ?thesis using assms by (auto simp: peek_def split: if_splits)
qed

end

lemma cl_pop_others:
  assumes "cl_inv c" "cl_pop num c = Inr c'"
  shows "(n \<noteq> num \<longrightarrow> waiting n c' = waiting n c) \<and> te_n ` set (table c') = te_n ` set (table c)"
proof -
  obtain i where i: "find_n num (table c) = Some i" using assms(2) by (auto simp: cl_pop_def split: option.splits)
  note b = find_n_Some [OF i]
  have c': "c' = c\<lparr>table := (table c)[i := (table c ! i)\<lparr>te_queue := tl (te_queue (table c ! i))\<rparr>]\<rparr>"
    using assms(2) i by (auto simp: cl_pop_def split: if_splits)
  show ?thesis unfolding c' using b assms(1) by (auto simp: waiting_table te_n_update)
qed

section \<open>Requests\<close>

text \<open>The URL that a handle asks for, and whether it asks for the headers only.\<close>

definition request :: "easy_handle \<Rightarrow> string option" where
  "request h = (case map_of (eh_opts h) CURLOPT_URL of Some (VStr v) \<Rightarrow> Some v | _ \<Rightarrow> None)"

definition headers_only :: "easy_handle \<Rightarrow> bool" where
  "headers_only h \<longleftrightarrow> map_of (eh_opts h) CURLOPT_NOBODY = Some (VLong 1)"

text \<open>What the three functions that set up a transfer have in common.\<close>

definition sent :: "string \<Rightarrow> bool \<Rightarrow> easy_handle \<times> 'db ginfo \<Rightarrow> easy_handle \<times> 'db ginfo \<Rightarrow> bool" where
  "sent v nobody hg hg' \<longleftrightarrow>
     snd hg' = (snd hg)\<lparr>g_multi := g_multi (snd hg) @ [eh_id (fst hg)]\<rparr>
     \<and> eh_id (fst hg') = eh_id (fst hg) \<and> eh_state (fst hg') = eh_state (fst hg) \<and> eh_robots (fst hg') = eh_robots (fst hg)
     \<and> eh_doc (fst hg') = eh_doc (fst hg)
     \<and> request (fst hg') = Some v \<and> headers_only (fst hg') = nobody \<and> map_of (eh_opts (fst hg')) CURLOPT_PRIVATE = Some VThis"

lemma setopts_Inr: "setopts E os h = Inr h' \<Longrightarrow> h' = h\<lparr>eh_opts := rev os @ eh_opts h\<rparr>"
  by (induction E os h rule: setopts.induct) (auto split: if_splits)

lemma multi_add_Inr:
  "multi_add_handle E (h, g) = Inr hg' \<Longrightarrow> hg' = (h, g\<lparr>g_multi := g_multi g @ [eh_id h]\<rparr>)"
  by (cases "en_add_handle E (eh_id h)") (simp_all add: multi_add_handle_def add_code_def mcode_or_die_def Let_def)

lemma get_robots_sent:
  assumes "get_robots E u (h, g) = Inr hg'" "eh_opts h = []"
  shows "sent (url_get u) False (h, g) hg'"
  using assms by (auto simp: get_robots_def bindR_eq_Inr sent_def request_def headers_only_def simp del: setopts.simps
    dest!: setopts_Inr multi_add_Inr)

lemma get_head_sent:
  assumes "get_head E u (h, g) = Inr hg'" "eh_opts h = []"
  shows "sent (url_get u) True (h, g) hg'"
  using assms by (auto simp: get_head_def bindR_eq_Inr sent_def request_def headers_only_def simp del: setopts.simps
    dest!: setopts_Inr multi_add_Inr)

lemma get_content_sent:
  assumes "get_content E u False (h, g) = Inr hg'" "eh_opts h = []"
  shows "sent (url_get u) False (h, g) hg'"
  using assms by (auto simp: get_content_def bindR_eq_Inr sent_def request_def headers_only_def simp del: setopts.simps
    dest!: setopts_Inr multi_add_Inr)

section \<open>Entries\<close>

text \<open>The URLs of the classifier come from the parser.\<close>

definition sound_url :: "'db cenv \<Rightarrow> url \<Rightarrow> bool" where
  "sound_url E u \<longleftrightarrow> (boost_lib (en_boost E) \<longrightarrow> url_wf u)"

lemma url_of_sound: "url_of (en_boost E) s = Inr u \<Longrightarrow> sound_url E u"
  using boost_lib.url_assign_wf [of "en_boost E" s url_init u] by (auto simp: sound_url_def url_of_def)

definition sound_urls :: "'db cenv \<Rightarrow> url_classifier \<Rightarrow> bool" where
  "sound_urls E cl \<longleftrightarrow> (\<forall>u\<in>#contents cl. sound_url E u)"

lemma waiting_contents: "u \<in> set (waiting n c) \<Longrightarrow> u \<in># contents c"
proof (cases "find_n n (table c)")
  case (Some i)
  assume "u \<in> set (waiting n c)"
  then have "u \<in> set (te_queue (table c ! i))" "table c ! i \<in> set (table c)" using Some find_n_Some [OF Some] by (simp_all add: waiting_def)
  then show ?thesis by (auto simp: contents_def)
qed (simp add: waiting_def)

text \<open>The request for \<^verbatim>\<open>robots.txt\<close> on behalf of a URL with the given host.\<close>

definition robots_request :: "'db cenv \<Rightarrow> string \<Rightarrow> string option \<Rightarrow> bool" where
  "robots_request E host asked \<longleftrightarrow>
     (\<exists>w n d ru. m_host w = host \<and> sound_url E w \<and> url_normalize (en_boost E) w = Inr n \<and> url_normalize (en_boost E) n = Inr d
        \<and> robots_url (en_boost E) n d = Inr ru \<and> asked = Some (url_get ru))"

context boost_lib
begin

lemma normal_host:
  assumes "url_wf u" "m_host u \<noteq> []" "url_normalize B u = Inr v"
  shows "m_host v = norm_str (map tolower (m_host u))" "url_wf v"
proof -
  have "m_has_authority u" using assms(1,2) by (auto simp: url_wf_def)
  note r = url_normalize_result [OF assms(1) this]
  show "m_host v = norm_str (map tolower (m_host u))" "url_wf v" using r assms(2,3)
    by (auto simp: normalize_path_def reparsed_def norm_url_def lower_host_def)
qed

lemma robots_url_parts:
  assumes "robots_url B n d = Inr ru"
  shows "m_scheme ru = ''http''" "get_path ru = ''/robots.txt''" "escape (m_host n) URL_CHAR_AUTH = Inr (m_host ru)"
proof -
  obtain e where e: "escape (m_host n) URL_CHAR_AUTH = Inr e"
    and s: "set_path ''robots.txt'' (d\<lparr>m_scheme := map tolower ''http'', m_host := e, m_has_authority := True\<rparr>) = Inr ru"
    using assms by (auto simp: robots_url_def bindR_eq_Inr set_scheme_ok set_host_ok)
  have l: "map tolower ''http'' = ''http''" by code_simp
  have p: "escape ''robots.txt'' URL_CHAR_PATH = Inr ''robots.txt''"
    "path_get (set_absolute True (path_assign ''robots.txt'')) = ''/robots.txt''" by code_simp+
  have ru: "ru = d\<lparr>m_scheme := ''http'', m_host := e, m_has_authority := True, u_path := set_absolute True (path_assign ''robots.txt'')\<rparr>"
    using s unfolding set_path_def p(1) l by (simp add: has_authority_def Let_def eq_commute)
  show "m_scheme ru = ''http''" "get_path ru = ''/robots.txt''" "escape (m_host n) URL_CHAR_AUTH = Inr (m_host ru)"
    unfolding ru using e p(2) by (simp_all add: get_path_def)
qed

end

text \<open>Such a request is for \<^verbatim>\<open>robots.txt\<close> of the host that the normal forms of the URLs with that host have.\<close>

lemma robots_request_host:
  assumes "boost_lib (en_boost E)" "robots_request E (m_host f) asked" "url_wf f" "url_normalize (en_boost E) f = Inr u"
  shows "\<exists>ru. asked = Some (url_get ru) \<and> m_scheme ru = ''http'' \<and> get_path ru = ''/robots.txt''
    \<and> (m_host f \<noteq> [] \<longrightarrow> m_host ru = m_host u)"
proof -
  obtain w n d ru where w: "m_host w = m_host f" "url_wf w" "url_normalize (en_boost E) w = Inr n" "robots_url (en_boost E) n d = Inr ru"
    "asked = Some (url_get ru)" using assms(1,2) by (auto simp: robots_request_def sound_url_def)
  note p = boost_lib.robots_url_parts [OF assms(1) w(4)]
  have "m_host ru = m_host u" if "m_host f \<noteq> []"
  proof -
    have n: "m_host n = m_host u" "url_wf n"
      using boost_lib.normal_host [OF assms(1) w(2) _ w(3)] boost_lib.normal_host [OF assms(1,3) that assms(4)] w(1) that by simp_all
    then have "escape (m_host n) URL_CHAR_AUTH = Inr (m_host n)" by (intro escape_clean_id) (simp add: url_wf_def auth_wf_def)
    then show ?thesis using p(3) n(1) by simp
  qed
  then show ?thesis using p w(5) by blast
qed

text \<open>What an entry says of a URL: it may be retrieved, it may not, or, when its host changes as it is normalised again, ask again.\<close>

datatype verdict = Allow | Refuse | Ask

definition verdict :: "'db cenv \<Rightarrow> robots_entry \<Rightarrow> string \<Rightarrow> url \<Rightarrow> verdict option" where
  "verdict E e agent u =
     (case url_normalize (en_boost E) u of Inl _ \<Rightarrow> None | Inr v \<Rightarrow>
     (case url_normalize (en_boost E) v of Inl _ \<Rightarrow> None | Inr d \<Rightarrow>
        if m_host d \<noteq> m_host v then Some Ask
        else case robots_ok e agent (get_path v) of Inl _ \<Rightarrow> None | Inr ok \<Rightarrow> Some (if ok then Allow else Refuse)))"

lemma verdict_Allow:
  assumes "verdict E e agent u = Some Allow"
  obtains v where "url_normalize (en_boost E) u = Inr v" "robots_ok e agent (get_path v) = Inr True"
  using assms by (auto simp: verdict_def split: sum.splits if_splits)

section \<open>The invariant of a handle\<close>

text \<open>
  The URL at the front of the queue of a handle may be retrieved: the entry of \<^verbatim>\<open>robots.txt\<close> that the handle holds was asked
  for on behalf of a URL with the host of the one at the front, and allows the one at the front.
\<close>

definition front_allowed ::
  "'db cenv \<Rightarrow> url_classifier \<Rightarrow> string \<Rightarrow> (string option \<times> robots_entry) option \<Rightarrow> easy_handle \<Rightarrow> bool" where
  "front_allowed E cl user_agent gi h \<longleftrightarrow>
     waiting (eh_id h) cl \<noteq> [] \<and>
     (case gi of None \<Rightarrow> False
      | Some (asked, e) \<Rightarrow> robots_request E (m_host (hd (waiting (eh_id h) cl))) asked \<and> eh_robots h = Some e
          \<and> verdict E e user_agent (hd (waiting (eh_id h) cl)) = Some Allow)"

text \<open>
  The handle asks for the normal form of the URL at the front, which its document has too, or for \<^verbatim>\<open>robots.txt\<close>
  on its behalf.
\<close>

definition asks_front :: "'db cenv \<Rightarrow> url_classifier \<Rightarrow> easy_handle \<Rightarrow> bool" where
  "asks_front E cl h \<longleftrightarrow>
     waiting (eh_id h) cl \<noteq> [] \<and>
     (case (url_normalize (en_boost E) (hd (waiting (eh_id h) cl)), eh_doc h) of
        (Inr u, Some d) \<Rightarrow> request h = Some (url_get u) \<and> url_normalize (en_boost E) u = Inr (doc_url d)
      | _ \<Rightarrow> False)"

definition asks_robots :: "'db cenv \<Rightarrow> url_classifier \<Rightarrow> easy_handle \<Rightarrow> bool" where
  "asks_robots E cl h \<longleftrightarrow>
     waiting (eh_id h) cl \<noteq> [] \<and>
     (case url_normalize (en_boost E) (hd (waiting (eh_id h) cl)) of
        Inr u \<Rightarrow> (case bindR (url_normalize (en_boost E) u) (robots_url (en_boost E) u) of
          Inr ru \<Rightarrow> request h = Some (url_get ru) | _ \<Rightarrow> False)
      | _ \<Rightarrow> False)"

definition handle_inv :: "'db cenv \<Rightarrow> url_classifier \<Rightarrow> string \<Rightarrow> (string option \<times> robots_entry) option \<Rightarrow> easy_handle \<Rightarrow> bool" where
  "handle_inv E cl user_agent gi h \<longleftrightarrow>
     (case eh_state h of
        IDLE \<Rightarrow> True
      | NEXT \<Rightarrow> False
      | ROBOTS \<Rightarrow> asks_robots E cl h \<and> \<not> headers_only h
      | HEAD \<Rightarrow> front_allowed E cl user_agent gi h \<and> asks_front E cl h \<and> headers_only h
      | CONTENT \<Rightarrow> front_allowed E cl user_agent gi h \<and> asks_front E cl h \<and> \<not> headers_only h)
     \<and> (eh_state h \<noteq> IDLE \<longrightarrow> map_of (eh_opts h) CURLOPT_PRIVATE = Some VThis)"

text \<open>What \<^verbatim>\<open>done\<close> has established when it calls \<^verbatim>\<open>reschedule\<close>.\<close>

definition ready_inv :: "'db cenv \<Rightarrow> url_classifier \<Rightarrow> string \<Rightarrow> (string option \<times> robots_entry) option \<Rightarrow> easy_handle \<Rightarrow> bool" where
  "ready_inv E cl user_agent gi h \<longleftrightarrow>
     (case eh_state h of
        NEXT \<Rightarrow> False
      | IDLE \<Rightarrow> True
      | ROBOTS \<Rightarrow> waiting (eh_id h) cl \<noteq> []
      | _ \<Rightarrow> front_allowed E cl user_agent gi h)"

lemma front_allowed_keeps:
  "front_allowed E cl agent gi h \<Longrightarrow> keeps (eh_id h) cl cl' \<Longrightarrow> front_allowed E cl' agent gi h"
  by (auto simp: keeps_def front_allowed_def split: option.splits)

lemma asks_front_keeps: "asks_front E cl h \<Longrightarrow> keeps (eh_id h) cl cl' \<Longrightarrow> asks_front E cl' h"
  by (auto simp: keeps_def asks_front_def)

lemma asks_robots_keeps: "asks_robots E cl h \<Longrightarrow> keeps (eh_id h) cl cl' \<Longrightarrow> asks_robots E cl' h"
  by (auto simp: keeps_def asks_robots_def)

lemma handle_inv_keeps: "handle_inv E cl agent gi h \<Longrightarrow> keeps (eh_id h) cl cl' \<Longrightarrow> handle_inv E cl' agent gi h"
  by (auto simp: handle_inv_def split: hstate.splits intro: front_allowed_keeps asks_front_keeps asks_robots_keeps)

text \<open>What an operation on a handle leaves as it is.\<close>

definition op_frame :: "easy_handle \<times> 'db ginfo \<Rightarrow> easy_handle \<times> 'db ginfo \<Rightarrow> bool" where
  "op_frame hg hg' \<longleftrightarrow>
     (let (h, g) = hg; (h', g') = hg' in
      eh_id h' = eh_id h \<and> cl_inv (g_classifier g')
      \<and> te_n ` set (table (g_classifier g')) = te_n ` set (table (g_classifier g))
      \<and> set_mset (contents (g_classifier g')) \<subseteq> set_mset (contents (g_classifier g))
      \<and> (\<forall>n. n \<noteq> eh_id h \<longrightarrow> waiting n (g_classifier g') = waiting n (g_classifier g))
      \<and> g_easyHandles g' = g_easyHandles g \<and> g_user_agent g' = g_user_agent g)"

lemma op_frame_trans: "op_frame a b \<Longrightarrow> op_frame b c \<Longrightarrow> op_frame a c"
  by (auto simp: op_frame_def Let_def split: prod.splits)

lemma find_n_conv: "find_n n (table c) \<noteq> None \<longleftrightarrow> n \<in> te_n ` set (table c)"
  by (simp add: find_n_None)

context classifier_lib
begin

lemma peek_front:
  assumes "cl_inv c" "n \<in> te_n ` set (table c)" "peek L n c = Inr (u, c')"
  shows "u = hd (waiting n c')" "waiting n c' \<noteq> []" "cl_inv c'" "contents c' = contents c"
    "waiting n c \<noteq> [] \<Longrightarrow> c' = c" "te_n ` set (table c') = te_n ` set (table c)" "m \<noteq> n \<Longrightarrow> waiting m c' = waiting m c"
proof -
  obtain i where i: "find_n n (table c) = Some i" using assms(2) find_n_conv by blast
  show "u = hd (waiting n c')" "waiting n c' \<noteq> []" "cl_inv c'" "contents c' = contents c" "waiting n c \<noteq> [] \<Longrightarrow> c' = c"
    using peek_spec [OF assms(1), of n] assms(3) by (auto split: if_splits)
  show "te_n ` set (table c') = te_n ` set (table c)" "m \<noteq> n \<Longrightarrow> waiting m c' = waiting m c"
    using peek_others [OF assms(1) i assms(3)] by blast+
qed

end

lemma reschedule_cases:
  assumes "reschedule E (h, g) = Inr (h', g')"
  obtains "top_q (g_classifier g) = []" "waiting (eh_id h) (g_classifier g) = []" "h' = h" "g' = g"
  | front cl u d where "peek (en_lib E) (eh_id h) (g_classifier g) = Inr (front, cl)" "url_normalize (en_boost E) front = Inr u"
      "load_url (en_boost E) (en_mongo E) (g_db g) (g_namespace g) u (doc_init (en_types E)) = Inr (False, d)"
      "start_transfer E u False d ((eh_reset E h)\<lparr>eh_doc := Some d\<rparr>, g\<lparr>g_classifier := cl\<rparr>) = Inr (h', g')"
proof -
  obtain e where e: "(if empty_top (g_classifier g) then cl_empty_n (g_classifier g) (eh_id h) else Inr False) = Inr e"
    using assms unfolding reschedule_def Let_def prod.case bindR_eq_Inr by blast
  show thesis
  proof (cases e)
    case True
    then have "empty_top (g_classifier g)" "cl_empty_n (g_classifier g) (eh_id h) = Inr True" using e by (simp_all split: if_splits)
    then show thesis using that(1) cl_empty_n_waiting assms e True by (auto simp: reschedule_def empty_top_def)
  next
    case False
    then have e: "(if empty_top (g_classifier g) then cl_empty_n (g_classifier g) (eh_id h) else Inr False) = Inr False" using e by simp
    obtain front cl u pre d where *: "peek (en_lib E) (eh_id h) (g_classifier g) = Inr (front, cl)"
      "url_normalize (en_boost E) front = Inr u"
      "load_url (en_boost E) (en_mongo E) (g_db g) (g_namespace g) u (doc_init (en_types E)) = Inr (pre, d)"
      "start_transfer E u pre d ((if pre then ((eh_reset E h)\<lparr>eh_doc := Some d\<rparr>)\<lparr>eh_state := CONTENT\<rparr> else (eh_reset E h)\<lparr>eh_doc := Some d\<rparr>),
         g\<lparr>g_classifier := cl\<rparr>) = Inr (h', g')"
      using assms unfolding reschedule_def Let_def prod.case e bindR_simps(2) if_False
      by (simp only: bindR_eq_Inr split_paired_Ex prod.case) blast
    have "pre = False" using load_url_False [OF *(3)] by simp
    then show thesis using that(2) * by simp
  qed
qed

lemma start_transfer_sent:
  assumes "start_transfer E u False d (h, g) = Inr (h', g')" "eh_opts h = []"
  shows "if eh_state h = IDLE \<or> eh_state h = ROBOTS
    then \<exists>ru. robots_url (en_boost E) u (doc_url d) = Inr ru
      \<and> sent (url_get ru) False (h\<lparr>eh_state := ROBOTS, eh_doc := Some (d\<lparr>doc_url := ru\<rparr>)\<rparr>, g) (h', g')
    else eh_state h \<noteq> NEXT \<and> sent (url_get u) (eh_state h = HEAD) (h, g) (h', g')"
  using assms get_robots_sent [of E _ "h\<lparr>eh_state := ROBOTS, eh_doc := Some (d\<lparr>doc_url := _\<rparr>)\<rparr>" g "(h', g')"]
    get_head_sent [of E u h g "(h', g')"] get_content_sent [of E u h g "(h', g')"]
  by (auto simp: start_transfer_def bindR_eq_Inr split: if_splits)

lemma load_fields_url: "load_fields B b d = Inr d' \<Longrightarrow> doc_url d' = doc_url d"
  by (auto simp: load_fields_def bindR_eq_Inr)

lemma load_loop_url: "load_loop B bs gotone d = Inr d' \<Longrightarrow> doc_url d' = doc_url d"
  by (induction B bs gotone d rule: load_loop.induct) (auto simp: bindR_eq_Inr load_fields_url split: if_splits)

lemma load_url_url: "load_url B M db ns u d = Inr (pre, d') \<Longrightarrow> url_normalize B u = Inr (doc_url d')"
  by (auto simp: load_url_def bindR_eq_Inr load_loop_url)

lemma load_url_D: "load_url B M db ns u d = Inr (pre, d') \<Longrightarrow> \<not> pre \<and> url_normalize B u = Inr (doc_url d')"
  using load_url_url [of B M db ns u d pre d'] load_url_False [of B M db ns u d pre d'] by simp

lemma reschedule_spec:
  assumes L: "classifier_lib (en_lib E)" and inv: "cl_inv (g_classifier g)"
    and n: "eh_id h \<in> te_n ` set (table (g_classifier g))"
    and ready: "ready_inv E (g_classifier g) agent gi h"
    and r: "reschedule E (h, g) = Inr (h', g')"
  shows "handle_inv E (g_classifier g') agent gi h' \<and> op_frame (h, g) (h', g')
    \<and> g_multi g' = g_multi g @ (if eh_state h' = IDLE then [] else [eh_id h])
    \<and> eh_state h' = (if eh_state h = IDLE \<and> eh_state h' \<noteq> IDLE then ROBOTS else eh_state h)
    \<and> (eh_state h' = IDLE \<longrightarrow> waiting (eh_id h) (g_classifier g') = [])
    \<and> (waiting (eh_id h) (g_classifier g) \<noteq> [] \<longrightarrow> g_classifier g' = g_classifier g)
    \<and> eh_robots h' = eh_robots h
    \<and> contents (g_classifier g') = contents (g_classifier g) \<and> g_db g' = g_db g \<and> g_namespace g' = g_namespace g
    \<and> g_ndocs_saved g' = g_ndocs_saved g"
  using r
proof (cases rule: reschedule_cases)
  case 1
  then have "eh_state h = IDLE" using ready by (auto simp: ready_inv_def front_allowed_def split: hstate.splits)
  then show ?thesis using 1 inv by (simp add: handle_inv_def op_frame_def)
next
  case (2 front cl u d)
  note p = classifier_lib.peek_front [OF L inv n 2(1)]
  have keeps: "waiting (eh_id h) (g_classifier g) \<noteq> [] \<Longrightarrow> cl = g_classifier g" by (rule p(5))
  note u = load_url_url [OF 2(3)]
  let ?h = "(eh_reset E h)\<lparr>eh_doc := Some d\<rparr>"
  have h: "eh_state ?h = eh_state h" "eh_opts ?h = []" "eh_id ?h = eh_id h" "eh_robots ?h = eh_robots h" by (simp_all add: eh_reset_def)
  note s = start_transfer_sent [OF 2(4) h(2)]
  show ?thesis
  proof (cases "eh_state h = IDLE \<or> eh_state h = ROBOTS")
    case True
    then obtain ru where ru: "robots_url (en_boost E) u (doc_url d) = Inr ru"
      "sent (url_get ru) False (?h\<lparr>eh_state := ROBOTS, eh_doc := Some (d\<lparr>doc_url := ru\<rparr>)\<rparr>, g\<lparr>g_classifier := cl\<rparr>) (h', g')"
      using s h(1) by auto
    then have st: "eh_state h' = ROBOTS" "eh_id h' = eh_id h" "eh_robots h' = eh_robots h" using h(3,4) by (simp_all add: sent_def)
    have "asks_robots E cl h'" using p(1,2) 2(2) u ru st by (simp add: asks_robots_def sent_def)
    then show ?thesis using ru(2) st True p(3,4,6,7) h(3) keeps by (auto simp: handle_inv_def op_frame_def sent_def)
  next
    case False
    then have se: "eh_state h \<noteq> NEXT" "sent (url_get u) (eh_state h = HEAD) (?h, g\<lparr>g_classifier := cl\<rparr>) (h', g')"
      using s h(1) by auto
    then have st: "eh_state h' = eh_state h" "eh_id h' = eh_id h" "eh_robots h' = eh_robots h" using h by (simp_all add: sent_def)
    have f: "front_allowed E (g_classifier g) agent gi h" using ready se(1) False by (auto simp: ready_inv_def split: hstate.splits)
    then have cl: "cl = g_classifier g" by (intro keeps) (simp add: front_allowed_def)
    have "front_allowed E cl agent gi h'" using f unfolding front_allowed_def st cl by simp
    moreover have "asks_front E cl h'" using p(1,2) 2(2) se(2) st u by (simp add: asks_front_def sent_def)
    moreover have "eh_state h = HEAD \<or> eh_state h = CONTENT" using se(1) False by (cases "eh_state h") auto
    ultimately show ?thesis using se(2) st p(3,4,6,7) h(3) cl by (auto simp: handle_inv_def op_frame_def sent_def)
  qed
qed

section \<open>The choice of the next URL\<close>

lemma next_turn_cases:
  assumes "next_turn E (h, g) = Inr (again, h', g')" "cl_empty_n (g_classifier g) (eh_id h) = Inr False" "eh_robots h = Some e"
  obtains d st where "\<not> again" "h' = h\<lparr>eh_doc := Some d, eh_state := st\<rparr>" "g' = g"
      "(st, verdict E e (g_user_agent g) (hd (waiting (eh_id h) (g_classifier g)))) \<in> {(ROBOTS, Some Ask), (HEAD, Some Allow)}"
  | d cl where again "verdict E e (g_user_agent g) (hd (waiting (eh_id h) (g_classifier g))) = Some Refuse"
      "cl_pop (eh_id h) (g_classifier g) = Inr cl" "h' = h\<lparr>eh_state := IDLE, eh_doc := Some d\<rparr>" "g' = g\<lparr>g_classifier := cl\<rparr>"
  using assms(1,3) that unfolding next_turn_def Let_def prod.case peek_nonempty [OF assms(2)] bindR_simps(2)
  by (auto simp: bindR_eq_Inr verdict_def split: option.splits if_splits dest!: load_url_D)

text \<open>What the loop leaves, and the URLs that it skips.\<close>

definition skipped :: "'db cenv \<Rightarrow> nat \<Rightarrow> robots_entry \<Rightarrow> string \<Rightarrow> url_classifier \<Rightarrow> url_classifier \<Rightarrow> url list \<Rightarrow> bool" where
  "skipped E n e agent cl cl' gone \<longleftrightarrow>
     waiting n cl = gone @ waiting n cl' \<and> contents cl = mset gone + contents cl'
     \<and> list_all (\<lambda>u. verdict E e agent u = Some Refuse) gone"

definition loop_left :: "'db cenv \<Rightarrow> (string option \<times> robots_entry) option \<Rightarrow> robots_entry \<Rightarrow> easy_handle \<times> 'db ginfo \<Rightarrow> easy_handle \<times> 'db ginfo \<Rightarrow> bool" where
  "loop_left E gi e hg hg' \<longleftrightarrow>
     (let (h, g) = hg; (h', g') = hg' in
      ready_inv E (g_classifier g') (g_user_agent g) gi h' \<and> op_frame hg hg' \<and> eh_state h' \<in> {IDLE, ROBOTS, HEAD}
      \<and> (eh_state h' = IDLE \<longrightarrow> waiting (eh_id h) (g_classifier g') = [])
      \<and> (eh_state h' = ROBOTS \<longrightarrow> verdict E e (g_user_agent g) (hd (waiting (eh_id h) (g_classifier g'))) = Some Ask)
      \<and> eh_robots h' = eh_robots h \<and> g' = g\<lparr>g_classifier := g_classifier g'\<rparr>
      \<and> (\<exists>gone. skipped E (eh_id h) e (g_user_agent g) (g_classifier g) (g_classifier g') gone))"

lemma next_loop_spec:
  assumes "next_loop E (h, g) = Inr (h', g')" "cl_inv (g_classifier g)" "eh_robots h = Some e" "gi = Some (asked, e)"
    "\<forall>u\<in>set (waiting (eh_id h) (g_classifier g)). robots_request E (m_host u) asked" "eh_state h = IDLE"
  shows "loop_left E gi e (h, g) (h', g')"
  using assms
proof (induction E "(h, g)" arbitrary: h g rule: next_loop.induct)
  case (1 E h g)
  obtain b where b: "cl_empty_n (g_classifier g) (eh_id h) = Inr b" using "1.prems"(1) by (auto simp: next_loop.simps bindR_eq_Inr)
  show ?case
  proof (cases b)
    case True
    then show ?thesis using cl_empty_n_waiting [OF b] b "1.prems"
      by (auto simp: loop_left_def next_loop.simps ready_inv_def op_frame_def skipped_def intro!: exI [of _ "[]"])
  next
    case False
    then have b: "cl_empty_n (g_classifier g) (eh_id h) = Inr False" using b by simp
    note w = cl_empty_n_waiting [OF b]
    obtain again h1 g1 where t: "next_turn E (h, g) = Inr (again, h1, g1)"
      and r: "(if again then next_loop E (h1, g1) else Inr (h1, g1)) = Inr (h', g')"
      using "1.prems"(1) by (auto simp: next_loop.simps [of E h g] b bindR_eq_Inr)
    from t b "1.prems"(3) show ?thesis
    proof (cases rule: next_turn_cases)
      case (1 d st)
      then have "h' = h1" "g' = g" using r by simp_all
      then show ?thesis using 1 w "1.prems"
        by (auto simp: loop_left_def ready_inv_def front_allowed_def op_frame_def skipped_def intro!: exI [of _ "[]"])
    next
      case (2 d cl)
      note p = cl_pop_spec [OF "1.prems"(2), of "eh_id h"] cl_pop_others [OF "1.prems"(2) 2(3)]
      have q: "cl_inv cl" "contents (g_classifier g) = add_mset (hd (waiting (eh_id h) (g_classifier g))) (contents cl)"
        "waiting (eh_id h) cl = tl (waiting (eh_id h) (g_classifier g))" using p(1) w 2(3) by simp_all
      have "next_loop E (h1, g1) = Inr (h', g')" using r 2(1) by simp
      then have ih: "loop_left E gi e (h1, g1) (h', g')"
        using 2 q "1.prems"(3-5) list.set_sel(2) [of "waiting (eh_id h) (g_classifier g)"] w
        by (intro "1.hyps" [OF b _ t refl refl]) auto
      then obtain gone where gone: "skipped E (eh_id h) e (g_user_agent g) cl (g_classifier g') gone" using 2 by (auto simp: loop_left_def)
      have "skipped E (eh_id h) e (g_user_agent g) (g_classifier g) (g_classifier g') (hd (waiting (eh_id h) (g_classifier g)) # gone)"
        using gone q w 2(2) by (auto simp: skipped_def) (metis list.collapse)
      moreover have "op_frame (h, g) (h1, g1)" using 2 q p(2) by (auto simp: op_frame_def)
      ultimately show ?thesis using ih op_frame_trans [of "(h, g)" "(h1, g1)" "(h', g')"] 2 by (auto simp: loop_left_def)
    qed
  qed
qed

end
