(* ===== verification/Crawler_Done.thy ===== *)
theory Crawler_Done
  imports Crawler_Handle
begin

text \<open>
  The end of a transfer: what \<^verbatim>\<open>EasyHandle::done\<close> does in each state, the abstract machine of a handle that it implements, and
  the document that it saves.
\<close>

section \<open>The abstract machine of a handle\<close>

text \<open>
  A state of the machine: the state of the handle, its queue, and the number of documents saved. \<open>D\<close> are the verdicts of the entry that
  the handle goes by. After a transfer the machine passes over the URLs that are refused, and goes on to the
  first one that is not: to \<^verbatim>\<open>HEAD\<close> when it is allowed, to \<^verbatim>\<open>robots.txt\<close> when the verdict is to ask again. When none is
  left it becomes idle, or takes up the URLs of a host, for which it asks for \<^verbatim>\<open>robots.txt\<close> first.
\<close>

inductive hnext :: "(url \<Rightarrow> verdict option) \<Rightarrow> url list \<Rightarrow> hstate \<times> url list \<Rightarrow> bool" for D where
  hnext_head: "list_all (\<lambda>v. D v = Some Refuse) gone \<Longrightarrow> D u = Some Allow \<Longrightarrow> hnext D (gone @ u # q) (HEAD, u # q)"
| hnext_ask: "list_all (\<lambda>v. D v = Some Refuse) gone \<Longrightarrow> D u = Some Ask \<Longrightarrow> hnext D (gone @ u # q) (ROBOTS, u # q)"
| hnext_idle: "list_all (\<lambda>v. D v = Some Refuse) gone \<Longrightarrow> hnext D gone (IDLE, [])"
| hnext_fresh: "list_all (\<lambda>v. D v = Some Refuse) gone \<Longrightarrow> q \<noteq> [] \<Longrightarrow> \<forall>u\<in>set q. m_host u = m_host (hd q) \<Longrightarrow> hnext D gone (ROBOTS, q)"

inductive hstep :: "(url \<Rightarrow> verdict option) \<Rightarrow> hstate \<times> url list \<times> nat \<Rightarrow> hstate \<times> url list \<times> nat \<Rightarrow> bool" for D where
  hstep_robots: "hnext D q (s, q') \<Longrightarrow> hstep D (ROBOTS, q, n) (s, q', n)"
| hstep_accept: "D u = Some Allow \<Longrightarrow> hstep D (HEAD, u # q, n) (CONTENT, u # q, n)"
| hstep_saved: "st = HEAD \<or> st = CONTENT \<Longrightarrow> D u = Some Allow \<Longrightarrow> hnext D q (s, q') \<Longrightarrow> hstep D (st, u # q, n) (s, q', n + 1)"

definition abs_handle :: "easy_handle \<Rightarrow> 'db ginfo \<Rightarrow> hstate \<times> url list \<times> nat" where
  "abs_handle h g = (eh_state h, waiting (eh_id h) (g_classifier g), g_ndocs_saved g)"

section \<open>The end of a transfer\<close>

lemma save_and_pop_Inr:
  assumes "save_and_pop E d (h, g) = Inr (h', g')"
  obtains d' db cl where "doc_save (en_boost E) (en_mongo E) (en_types E) (g_namespace g) d (g_db g) = Inr (d', db)"
    "cl_pop (eh_id h) (g_classifier g) = Inr cl" "h' = h\<lparr>eh_doc := Some d', eh_state := NEXT\<rparr>"
    "g' = g\<lparr>g_db := db, g_ndocs_saved := g_ndocs_saved g + 1, g_classifier := cl\<rparr>"
  using assms by (auto simp: save_and_pop_def bindR_eq_Inr)

text \<open>The document with what is known of the transfer, and the handle, when \<^verbatim>\<open>done\<close> looks at the state.\<close>

lemma handle_done_cases:
  assumes "handle_done E t (h, g) = Inr (h', g')"
  obtains d0 d h2 g2 h3 g3 where "eh_doc h = Some d0" "doc_url d = doc_url d0" "doc_http_code d = tr_http_code t"
    "done_state E t d (h\<lparr>eh_curl_error := tr_curl_error t, eh_headers := None\<rparr>, g) = Inr (h2, g2)"
    "(if eh_state h2 = NEXT then next_loop E (h2\<lparr>eh_state := IDLE\<rparr>, g2) else Inr (h2, g2)) = Inr (h3, g3)"
    "reschedule E (h3\<lparr>eh_doc := map_option (\<lambda>d. d\<lparr>doc_url := url_clear (doc_url d)\<rparr>) (eh_doc h3)\<rparr>, g3) = Inr (h', g')"
proof -
  obtain d0 where d0: "eh_doc h = Some d0"
    using assms by (cases "eh_doc h") (auto simp: handle_done_def Let_def bindR_eq_Inr)
  obtain eff ne h2 g2 h3 g3 where *: "done_state E t ((if ne then d0\<lparr>doc_eff_url := eff\<rparr> else d0)\<lparr>doc_curl_code := tr_result t, doc_curl_error := tr_curl_error t,
        doc_http_code := tr_http_code t, doc_modified := tr_filetime t, doc_crawled := tr_time t\<rparr>)
      (h\<lparr>eh_curl_error := tr_curl_error t, eh_headers := None\<rparr>, g) = Inr (h2, g2)"
    "(if eh_state h2 = NEXT then next_loop E (h2\<lparr>eh_state := IDLE\<rparr>, g2) else Inr (h2, g2)) = Inr (h3, g3)"
    "reschedule E (h3\<lparr>eh_doc := map_option (\<lambda>d. d\<lparr>doc_url := url_clear (doc_url d)\<rparr>) (eh_doc h3)\<rparr>, g3) = Inr (h', g')"
    using assms d0 by (simp add: handle_done_def Let_def bindR_eq_Inr split_paired_Ex) blast
  show thesis by (rule that [OF d0 _ _ *]) simp_all
qed

text \<open>
  The outcome of the state: \<^verbatim>\<open>robots.txt\<close> is read, the content is wanted, or the document is saved and its
  URL popped.
\<close>

lemma done_state_cases:
  assumes "done_state E t d (h, g) = Inr (h', g')"
  obtains "eh_state h = ROBOTS" "g' = g"
      "h' = h\<lparr>eh_robots := Some (robots_done E t (doc_http_code d) (eh_content_os h)), eh_doc := Some (d\<lparr>doc_content := []\<rparr>), eh_state := NEXT\<rparr>"
  | d' where "eh_state h = HEAD" "h' = h\<lparr>eh_doc := Some d', eh_state := CONTENT\<rparr>" "g' = g"
  | d' where "eh_state h = HEAD \<or> eh_state h = CONTENT" "save_and_pop E d' (h, g) = Inr (h', g')" "doc_url d' = doc_url d"
      "eh_state h = CONTENT \<and> tr_result t = 0 \<and> doc_http_code d = 200 \<Longrightarrow>
         doc_content d' = eh_content_os h \<and> doc_headers d' = eh_headers_os h \<and> doc_http_code d' = 200"
  | "eh_state h = NEXT" "h' = h\<lparr>eh_doc := Some d\<rparr>" "g' = g"
proof (cases "eh_state h")
  case HEAD
  show thesis
  proof (cases "tr_result t = 0 \<and> doc_http_code d = 200")
    case True
    let ?d = "d\<lparr>doc_headers := eh_headers_os h\<rparr>"
    obtain r where r: "parse_http_headers (en_boost E) (en_types E) (eh_headers_os h)
        \<lparr>hd_content_type = tr_ctype t, hd_charset = [], hd_map = Map.empty\<rparr> = Inr r"
      "(if acceptable (en_types E) (hd_content_type r)
        then Inr (h\<lparr>eh_doc := Some (?d\<lparr>doc_content_type := hd_content_type r\<rparr>), eh_state := CONTENT\<rparr>, g)
        else save_and_pop E (?d\<lparr>doc_content_type := hd_content_type r, doc_http_code := 406\<rparr>) (h, g)) = Inr (h', g')"
      using assms HEAD True by (auto simp: done_state_def Let_def bindR_eq_Inr simp del: if_split_eq1 if_split_eq2)
    show thesis
    proof (cases "acceptable (en_types E) (hd_content_type r)")
      case True
      then have "h' = h\<lparr>eh_doc := Some (?d\<lparr>doc_content_type := hd_content_type r\<rparr>), eh_state := CONTENT\<rparr>" "g' = g"
        using r by simp_all
      then show thesis by (rule that(2) [OF HEAD])
    next
      case False
      then have "save_and_pop E (?d\<lparr>doc_content_type := hd_content_type r, doc_http_code := 406\<rparr>) (h, g) = Inr (h', g')"
        using r by simp
      then show thesis by (rule that(3) [OF disjI1 [OF HEAD]]) (simp_all add: HEAD)
    qed
  next
    case False
    then have "done_state E t d (h, g) = save_and_pop E d (h, g)" using HEAD by (auto simp: done_state_def Let_def)
    then have "save_and_pop E d (h, g) = Inr (h', g')" using assms by simp
    then show thesis by (rule that(3) [OF disjI1 [OF HEAD]]) (simp_all add: HEAD)
  qed
next
  case CONTENT
  show thesis
  proof (cases "tr_result t = 0 \<and> doc_http_code d = 200")
    case True
    then obtain r :: http_headers where "save_and_pop E (d\<lparr>doc_headers := eh_headers_os h, doc_content := eh_content_os h,
        doc_content_type := hd_content_type r\<rparr>) (h, g) = Inr (h', g')"
      using assms CONTENT by (auto simp: done_state_def Let_def bindR_eq_Inr)
    then show thesis by (rule that(3) [OF disjI2 [OF CONTENT]]) (use True in simp_all)
  next
    case False
    then have "done_state E t d (h, g) = save_and_pop E d (h, g)" using CONTENT by (auto simp: done_state_def Let_def)
    then have "save_and_pop E d (h, g) = Inr (h', g')" using assms by simp
    then show thesis by (rule that(3) [OF disjI2 [OF CONTENT]]) (use False in simp_all)
  qed
next
  case ROBOTS
  then show thesis using assms by (intro that(1)) (simp_all add: done_state_def Let_def)
next
  case NEXT
  then show thesis using assms by (intro that(4)) (simp_all add: done_state_def Let_def)
qed (use assms in \<open>simp add: done_state_def Let_def\<close>)

text \<open>The entry that \<^verbatim>\<open>done\<close> decides by: the one made of this transfer, or the one that the handle had.\<close>

definition decides_by :: "'db cenv \<Rightarrow> transfer \<Rightarrow> easy_handle \<Rightarrow> robots_entry" where
  "decides_by E t h = (if eh_state h = ROBOTS then robots_done E t (tr_http_code t) (eh_content_os h) else the (eh_robots h))"

text \<open>The history: the URL of the request that the entry of a handle was made of, and the entry.\<close>

definition new_entry ::
  "'db cenv \<Rightarrow> transfer \<Rightarrow> easy_handle \<Rightarrow> (string option \<times> robots_entry) option \<Rightarrow> (string option \<times> robots_entry) option" where
  "new_entry E t h gi =
     (if eh_state h = ROBOTS then Some (request h, robots_done E t (tr_http_code t) (eh_content_os h)) else gi)"

text \<open>After the state has been dealt with: the entry is one for the URLs that wait, or the content is wanted.\<close>

definition after_state ::
  "'db cenv \<Rightarrow> string option \<Rightarrow> robots_entry \<Rightarrow> easy_handle \<times> 'db ginfo \<Rightarrow> easy_handle \<times> 'db ginfo \<Rightarrow> bool" where
  "after_state E asked e hg hg' \<longleftrightarrow>
     (let (h, g) = hg; (h', g') = hg' in
      op_frame hg hg' \<and> g_multi g' = g_multi g \<and> eh_robots h' = Some e
      \<and> (eh_state h' = NEXT
           \<and> (\<forall>u\<in>set (waiting (eh_id h) (g_classifier g')). robots_request E (m_host u) asked)
           \<and> (if eh_state h = ROBOTS then waiting (eh_id h) (g_classifier g') = waiting (eh_id h) (g_classifier g) \<and> g_ndocs_saved g' = g_ndocs_saved g
              else waiting (eh_id h) (g_classifier g) = hd (waiting (eh_id h) (g_classifier g)) # waiting (eh_id h) (g_classifier g')
                \<and> g_ndocs_saved g' = g_ndocs_saved g + 1)
         \<or> eh_state h = HEAD \<and> eh_state h' = CONTENT \<and> eh_robots h' = eh_robots h \<and> g' = g))"

lemma front_allowed_D:
  assumes "front_allowed E cl agent gi h"
  obtains asked e where "gi = Some (asked, e)" "eh_robots h = Some e" "waiting (eh_id h) cl \<noteq> []"
    "robots_request E (m_host (hd (waiting (eh_id h) cl))) asked" "verdict E e agent (hd (waiting (eh_id h) cl)) = Some Allow"
  using assms by (cases gi) (auto simp: front_allowed_def)

lemma front_allowed_hosts:
  assumes "robots_request E (m_host (hd (waiting n cl))) asked" "cl_inv cl"
  shows "\<forall>u\<in>set (waiting n cl). robots_request E (m_host u) asked"
proof
  fix u
  assume "u \<in> set (waiting n cl)"
  from waiting_host [OF assms(2) this] assms(1) show "robots_request E (m_host u) asked" by simp
qed

lemma asks_robots_request:
  assumes "asks_robots E cl h" "sound_urls E cl"
  shows "robots_request E (m_host (hd (waiting (eh_id h) cl))) (request h)"
proof -
  let ?f = "hd (waiting (eh_id h) cl)"
  have "?f \<in> set (waiting (eh_id h) cl)" using assms(1) by (simp add: asks_robots_def)
  then have "sound_url E ?f" using assms(2) waiting_contents by (auto simp: sound_urls_def)
  moreover obtain u where u: "url_normalize (en_boost E) ?f = Inr u" using assms(1) by (auto simp: asks_robots_def split: sum.splits)
  moreover obtain ru where ru: "bindR (url_normalize (en_boost E) u) (robots_url (en_boost E) u) = Inr ru" "request h = Some (url_get ru)"
    using assms(1) u by (auto simp: asks_robots_def split: sum.splits)
  moreover obtain d where "url_normalize (en_boost E) u = Inr d" "robots_url (en_boost E) u d = Inr ru"
    using ru(1) by (auto simp: bindR_eq_Inr)
  ultimately show ?thesis unfolding robots_request_def by blast
qed

lemma done_state_spec:
  assumes inv: "cl_inv (g_classifier g)" and hi: "handle_inv E (g_classifier g) agent gi h" and ni: "eh_state h \<noteq> IDLE"
    and snd: "sound_urls E (g_classifier g)"
    and code: "doc_http_code d = tr_http_code t" and r: "done_state E t d (h, g) = Inr (h', g')"
  shows "\<exists>asked. new_entry E t h gi = Some (asked, decides_by E t h) \<and> after_state E asked (decides_by E t h) (h, g) (h', g')"
  using r
proof (cases rule: done_state_cases)
  case 1
  then have "asks_robots E (g_classifier g) h" using hi by (simp add: handle_inv_def)
  from front_allowed_hosts [OF asks_robots_request [OF this snd] inv]
  have "after_state E (request h) (decides_by E t h) (h, g) (h', g')"
    using 1 inv code by (simp add: after_state_def op_frame_def decides_by_def)
  then show ?thesis using 1 by (simp add: new_entry_def decides_by_def)
next
  case (2 d')
  then have "front_allowed E (g_classifier g) agent gi h" using hi by (simp add: handle_inv_def)
  then obtain asked e where e: "gi = Some (asked, e)" "eh_robots h = Some e" by (rule front_allowed_D)
  then have "after_state E asked (decides_by E t h) (h, g) (h', g')" using 2 inv
    by (simp add: after_state_def op_frame_def decides_by_def)
  then show ?thesis using 2 e by (simp add: new_entry_def decides_by_def)
next
  case (3 d')
  then have f: "front_allowed E (g_classifier g) agent gi h" using hi by (auto simp: handle_inv_def)
  obtain asked e where e: "gi = Some (asked, e)" "eh_robots h = Some e" "waiting (eh_id h) (g_classifier g) \<noteq> []"
    "robots_request E (m_host (hd (waiting (eh_id h) (g_classifier g)))) asked" using f by (rule front_allowed_D)
  have hosts: "\<forall>u\<in>set (waiting (eh_id h) (g_classifier g)). robots_request E (m_host u) asked"
    using front_allowed_hosts [OF e(4) inv] .
  obtain d2 db cl where s: "cl_pop (eh_id h) (g_classifier g) = Inr cl" "h' = h\<lparr>eh_doc := Some d2, eh_state := NEXT\<rparr>"
    "g' = g\<lparr>g_db := db, g_ndocs_saved := g_ndocs_saved g + 1, g_classifier := cl\<rparr>"
    using save_and_pop_Inr [OF 3(2)] .
  have c: "cl_inv cl" "waiting (eh_id h) cl = tl (waiting (eh_id h) (g_classifier g))"
    "contents (g_classifier g) = add_mset (hd (waiting (eh_id h) (g_classifier g))) (contents cl)"
    using cl_pop_spec [OF inv, of "eh_id h"] s(1) e(3) by simp_all
  have "\<forall>u\<in>set (waiting (eh_id h) cl). robots_request E (m_host u) asked" using e(3) hosts c(2) by (auto dest: list.set_sel(2))
  moreover have "eh_state h \<noteq> ROBOTS" using 3(1) by auto
  moreover have "op_frame (h, g) (h', g')" using s c(1,3) cl_pop_others [OF inv s(1)] by (auto simp: op_frame_def)
  ultimately have "after_state E asked (decides_by E t h) (h, g) (h', g')" using s c(2) e(1-3)
    by (simp add: after_state_def decides_by_def)
  then show ?thesis using e \<open>eh_state h \<noteq> ROBOTS\<close> by (simp add: new_entry_def decides_by_def)
next
  case 4
  then show ?thesis using hi by (simp add: handle_inv_def)
qed

lemma front_allowed_cong:
  assumes "eh_id h' = eh_id h" "eh_robots h' = eh_robots h"
  shows "front_allowed E cl agent gi h' = front_allowed E cl agent gi h"
  unfolding front_allowed_def assms ..

lemma handle_inv_cong:
  assumes "eh_id h' = eh_id h" "eh_robots h' = eh_robots h" "eh_state h' = eh_state h" "eh_opts h' = eh_opts h" "eh_doc h' = eh_doc h"
  shows "handle_inv E cl agent gi h' = handle_inv E cl agent gi h"
  unfolding handle_inv_def asks_front_def asks_robots_def request_def headers_only_def front_allowed_cong [OF assms(1,2)] assms ..

lemma ready_inv_cong:
  assumes "eh_id h' = eh_id h" "eh_robots h' = eh_robots h" "eh_state h' = eh_state h"
  shows "ready_inv E cl agent gi h' = ready_inv E cl agent gi h"
  unfolding ready_inv_def front_allowed_cong [OF assms(1,2)] assms ..

lemma op_frame_upd [simp]:
  "op_frame (h\<lparr>eh_curl_error := x, eh_headers := y\<rparr>, g) hg = op_frame (h, g) hg"
  "op_frame (h\<lparr>eh_state := s\<rparr>, g) hg = op_frame (h, g) hg"
  "op_frame (h\<lparr>eh_doc := d\<rparr>, g) hg = op_frame (h, g) hg"
  "op_frame hg (h\<lparr>eh_doc := d\<rparr>, g) = op_frame hg (h, g)"
  by (simp_all add: op_frame_def split: prod.splits)

text \<open>The transfer and the choice of what follows, up to \<^verbatim>\<open>reschedule\<close>.\<close>

lemma before_reschedule:
  assumes "after_state E asked e (h, g) (h2, g2)" "gi = Some (asked, e)" "cl_inv (g_classifier g)" "eh_state h \<noteq> IDLE"
    "eh_state h = HEAD \<Longrightarrow> front_allowed E (g_classifier g) (g_user_agent g) gi h"
    "(if eh_state h2 = NEXT then next_loop E (h2\<lparr>eh_state := IDLE\<rparr>, g2) else Inr (h2, g2)) = Inr (h3, g3)"
  shows "ready_inv E (g_classifier g3) (g_user_agent g) gi h3 \<and> op_frame (h, g) (h3, g3) \<and> g_multi g3 = g_multi g
    \<and> eh_robots h3 = Some e \<and> g_ndocs_saved g3 = g_ndocs_saved g2
    \<and> (eh_state h3 = CONTENT \<longrightarrow> eh_state h = HEAD \<and> g3 = g)
    \<and> (eh_state h3 \<noteq> CONTENT \<longrightarrow> eh_state h2 = NEXT \<and> eh_state h3 \<in> {IDLE, ROBOTS, HEAD}
         \<and> (\<exists>gone. skipped E (eh_id h) e (g_user_agent g) (g_classifier g2) (g_classifier g3) gone)
         \<and> (eh_state h3 = ROBOTS \<longrightarrow> verdict E e (g_user_agent g) (hd (waiting (eh_id h) (g_classifier g3))) = Some Ask)
         \<and> (eh_state h3 = HEAD \<longrightarrow> verdict E e (g_user_agent g) (hd (waiting (eh_id h) (g_classifier g3))) = Some Allow)
         \<and> (eh_state h3 = IDLE \<longleftrightarrow> waiting (eh_id h) (g_classifier g3) = []))"
proof -
  have f: "op_frame (h, g) (h2, g2)" "g_multi g2 = g_multi g" "eh_robots h2 = Some e" using assms(1) by (simp_all add: after_state_def)
  then have g2: "eh_id h2 = eh_id h" "cl_inv (g_classifier g2)" "g_user_agent g2 = g_user_agent g" by (simp_all add: op_frame_def)
  show ?thesis
  proof (cases "eh_state h2 = NEXT")
    case True
    then have hosts: "\<forall>u\<in>set (waiting (eh_id h) (g_classifier g2)). robots_request E (m_host u) asked"
      using assms(1) by (auto simp: after_state_def)
    have "next_loop E (h2\<lparr>eh_state := IDLE\<rparr>, g2) = Inr (h3, g3)" using assms(6) True by simp
    from next_loop_spec [OF this _ _ assms(2)] have "loop_left E gi e (h2\<lparr>eh_state := IDLE\<rparr>, g2) (h3, g3)" using hosts g2 f(3) by simp
    then have n: "ready_inv E (g_classifier g3) (g_user_agent g) gi h3" "op_frame (h2, g2) (h3, g3)" "eh_state h3 \<in> {IDLE, ROBOTS, HEAD}"
      "eh_state h3 = IDLE \<longrightarrow> waiting (eh_id h) (g_classifier g3) = []" "g3 = g2\<lparr>g_classifier := g_classifier g3\<rparr>"
      "\<exists>gone. skipped E (eh_id h) e (g_user_agent g) (g_classifier g2) (g_classifier g3) gone" "eh_robots h3 = eh_robots h2"
      "eh_state h3 = ROBOTS \<longrightarrow> verdict E e (g_user_agent g) (hd (waiting (eh_id h) (g_classifier g3))) = Some Ask"
      using g2 by (simp_all add: loop_left_def)
    have i3: "eh_id h3 = eh_id h" using n(2) g2(1) by (simp add: op_frame_def)
    then have "eh_state h3 \<noteq> IDLE \<Longrightarrow> waiting (eh_id h) (g_classifier g3) \<noteq> []"
      using n(1) by (auto simp: ready_inv_def front_allowed_def split: hstate.splits)
    moreover have "eh_state h3 = HEAD \<Longrightarrow> verdict E e (g_user_agent g) (hd (waiting (eh_id h) (g_classifier g3))) = Some Allow"
      using n(1) i3 assms(2) by (simp add: ready_inv_def front_allowed_def)
    moreover have "g_multi g3 = g_multi g2" "g_ndocs_saved g3 = g_ndocs_saved g2" by (subst n(5), simp)+
    ultimately show ?thesis using n(1,3,4,6,7,8) op_frame_trans [OF f(1) n(2)] f(2,3) True by auto
  next
    case False
    then have "h3 = h2" "g3 = g2" "eh_state h = HEAD" "eh_state h2 = CONTENT" "g2 = g" "eh_robots h2 = eh_robots h"
      using assms(1,6) by (auto simp: after_state_def)
    moreover have "front_allowed E (g_classifier g) (g_user_agent g) gi h2"
      unfolding front_allowed_cong [OF g2(1) calculation(6)] using assms(5) calculation(3) .
    ultimately show ?thesis using f by (simp add: ready_inv_def)
  qed
qed

lemma handle_inv_waiting: "handle_inv E cl agent gi h \<Longrightarrow> eh_state h \<noteq> IDLE \<Longrightarrow> waiting (eh_id h) cl \<noteq> []"
  by (auto simp: handle_inv_def asks_front_def asks_robots_def split: hstate.splits)

lemma hnext_spec:
  assumes "skipped E n e agent cl cl3 gone" "s3 \<in> {IDLE, ROBOTS, HEAD}" "s3 = IDLE \<longleftrightarrow> waiting n cl3 = []"
    "s = (if s3 = IDLE \<and> s \<noteq> IDLE then ROBOTS else s3)" "s = IDLE \<longrightarrow> waiting n cl' = []"
    "waiting n cl3 \<noteq> [] \<longrightarrow> cl' = cl3" "s \<noteq> IDLE \<Longrightarrow> waiting n cl' \<noteq> []" "cl_inv cl'"
    "s3 = ROBOTS \<Longrightarrow> verdict E e agent (hd (waiting n cl3)) = Some Ask" "s3 = HEAD \<Longrightarrow> verdict E e agent (hd (waiting n cl3)) = Some Allow"
  shows "hnext (verdict E e agent) (waiting n cl) (s, waiting n cl')"
proof -
  have g: "list_all (\<lambda>v. verdict E e agent v = Some Refuse) gone" "waiting n cl = gone @ waiting n cl3"
    using assms(1) by (simp_all add: skipped_def)
  have s: "s3 = IDLE \<Longrightarrow> s = IDLE \<or> s = ROBOTS" "s3 \<noteq> IDLE \<Longrightarrow> s = s3" using assms(4) by metis+
  show ?thesis
  proof (cases "waiting n cl3")
    case Nil
    have hosts: "\<forall>u\<in>set (waiting n cl'). m_host u = m_host (hd (waiting n cl'))" using waiting_host [OF assms(8)] by blast
    show ?thesis
    proof (cases "s = IDLE")
      case True
      then show ?thesis using Nil g(2) assms(5) hnext_idle [OF g(1)] by simp
    next
      case False
      then have "s = ROBOTS" using s(1) Nil assms(3) by simp
      then show ?thesis using Nil g(2) hnext_fresh [OF g(1) assms(7) [OF False] hosts] by simp
    qed
  next
    case (Cons u q)
    then have cl: "cl' = cl3" "s3 = HEAD \<or> s3 = ROBOTS" "s = s3" using assms(2,3,6) s(2) by auto
    show ?thesis using cl(2)
    proof
      assume "s3 = HEAD"
      then show ?thesis using hnext_head [OF g(1), of u q] g(2) Cons assms(10) cl(1,3) by simp
    next
      assume "s3 = ROBOTS"
      then show ?thesis using hnext_ask [OF g(1), of u q] g(2) Cons assms(9) cl(1,3) by simp
    qed
  qed
qed

lemma handle_done_spec:
  assumes L: "classifier_lib (en_lib E)" and inv: "cl_inv (g_classifier g)"
    and n: "eh_id h \<in> te_n ` set (table (g_classifier g))" and snd: "sound_urls E (g_classifier g)"
    and hi: "handle_inv E (g_classifier g) (g_user_agent g) gi h" and ni: "eh_state h \<noteq> IDLE"
    and r: "handle_done E t (h, g) = Inr (h', g')"
  shows "handle_inv E (g_classifier g') (g_user_agent g) (new_entry E t h gi) h' \<and> op_frame (h, g) (h', g')
    \<and> g_multi g' = g_multi g @ (if eh_state h' = IDLE then [] else [eh_id h]) \<and> eh_robots h' = Some (decides_by E t h)
    \<and> hstep (verdict E (decides_by E t h) (g_user_agent g)) (abs_handle h g) (abs_handle h' g')"
proof -
  let ?gi = "new_entry E t h gi" and ?h1 = "h\<lparr>eh_curl_error := tr_curl_error t, eh_headers := None\<rparr>" and ?e = "decides_by E t h"
  obtain d0 d h2 g2 h3 g3 where "eh_doc h = Some d0" "doc_url d = doc_url d0" and d: "doc_http_code d = tr_http_code t" and s: "done_state E t d (?h1, g) = Inr (h2, g2)"
    and nl: "(if eh_state h2 = NEXT then next_loop E (h2\<lparr>eh_state := IDLE\<rparr>, g2) else Inr (h2, g2)) = Inr (h3, g3)"
    and rs: "reschedule E (h3\<lparr>eh_doc := map_option (\<lambda>d. d\<lparr>doc_url := url_clear (doc_url d)\<rparr>) (eh_doc h3)\<rparr>, g3) = Inr (h', g')"
    by (rule handle_done_cases [OF r])
  have hi1: "handle_inv E (g_classifier g) (g_user_agent g) gi ?h1" using hi by (subst handle_inv_cong) simp_all
  have ne: "new_entry E t ?h1 gi = ?gi" "decides_by E t ?h1 = ?e" by (simp_all add: new_entry_def decides_by_def request_def)
  obtain asked where a: "?gi = Some (asked, ?e)" "after_state E asked ?e (?h1, g) (h2, g2)"
    using done_state_spec [OF inv hi1 _ snd d s] ni ne by auto
  have fa: "eh_state ?h1 = HEAD \<Longrightarrow> front_allowed E (g_classifier g) (g_user_agent g) ?gi ?h1"
    using hi1 by (simp add: handle_inv_def new_entry_def)
  note b = before_reschedule [OF a(2,1) inv _ fa nl]
  have b: "ready_inv E (g_classifier g3) (g_user_agent g) ?gi h3" "op_frame (h, g) (h3, g3)" "g_multi g3 = g_multi g"
    "g_ndocs_saved g3 = g_ndocs_saved g2" "eh_robots h3 = Some ?e"
    "eh_state h3 = CONTENT \<Longrightarrow> eh_state h = HEAD \<and> g3 = g"
    "eh_state h3 \<noteq> CONTENT \<Longrightarrow> eh_state h2 = NEXT \<and> eh_state h3 \<in> {IDLE, ROBOTS, HEAD}
         \<and> (\<exists>gone. skipped E (eh_id h) ?e (g_user_agent g) (g_classifier g2) (g_classifier g3) gone)
         \<and> (eh_state h3 = ROBOTS \<longrightarrow> verdict E ?e (g_user_agent g) (hd (waiting (eh_id h) (g_classifier g3))) = Some Ask)
         \<and> (eh_state h3 = HEAD \<longrightarrow> verdict E ?e (g_user_agent g) (hd (waiting (eh_id h) (g_classifier g3))) = Some Allow)
         \<and> (eh_state h3 = IDLE \<longleftrightarrow> waiting (eh_id h) (g_classifier g3) = [])"
    using b ni by auto
  have f: "eh_id h3 = eh_id h" "cl_inv (g_classifier g3)" "eh_id h3 \<in> te_n ` set (table (g_classifier g3))"
    "g_user_agent g3 = g_user_agent g" using b(2) n by (simp_all add: op_frame_def)
  let ?h3 = "h3\<lparr>eh_doc := map_option (\<lambda>d. d\<lparr>doc_url := url_clear (doc_url d)\<rparr>) (eh_doc h3)\<rparr>"
  have ri: "ready_inv E (g_classifier g3) (g_user_agent g) ?gi ?h3" using b(1) by (subst ready_inv_cong) simp_all
  note c = reschedule_spec [OF L f(2) _ ri rs]
  have c: "handle_inv E (g_classifier g') (g_user_agent g) ?gi h'" "op_frame (h3, g3) (h', g')"
    "g_multi g' = g_multi g3 @ (if eh_state h' = IDLE then [] else [eh_id h])"
    "eh_state h' = (if eh_state h3 = IDLE \<and> eh_state h' \<noteq> IDLE then ROBOTS else eh_state h3)"
    "eh_state h' = IDLE \<longrightarrow> waiting (eh_id h) (g_classifier g') = []"
    "waiting (eh_id h) (g_classifier g3) \<noteq> [] \<longrightarrow> g_classifier g' = g_classifier g3" "g_ndocs_saved g' = g_ndocs_saved g3"
    "eh_robots h' = eh_robots h3"
    using c f(1,3) by (simp_all cong: if_cong)
  have i': "eh_id h' = eh_id h" "cl_inv (g_classifier g')" using c(2) f(1) by (simp_all add: op_frame_def)
  have front: "verdict E ?e (g_user_agent g) (hd (waiting (eh_id h) (g_classifier g))) = Some Allow" if "eh_state h = HEAD \<or> eh_state h = CONTENT"
  proof -
    have "front_allowed E (g_classifier g) (g_user_agent g) gi h" using hi that by (auto simp: handle_inv_def)
    then show ?thesis using that by (auto simp: decides_by_def elim: front_allowed_D)
  qed
  have "hstep (verdict E ?e (g_user_agent g)) (abs_handle h g) (abs_handle h' g')"
  proof (cases "eh_state h3 = CONTENT")
    case True
    then have st: "eh_state h = HEAD" "g3 = g" "eh_state h' = CONTENT" using b(6) c(4) by simp_all
    obtain u q where "waiting (eh_id h) (g_classifier g) = u # q"
      using handle_inv_waiting [OF hi ni] by (auto simp: neq_Nil_conv)
    then show ?thesis using st c(6,7) i' hstep_accept front by (simp add: abs_handle_def)
  next
    case False
    note b7 = b(7) [OF False]
    obtain gone where gone: "skipped E (eh_id h) ?e (g_user_agent g) (g_classifier g2) (g_classifier g3) gone" using b7 by blast
    have hn: "hnext (verdict E ?e (g_user_agent g)) (waiting (eh_id h) (g_classifier g2)) (eh_state h', waiting (eh_id h) (g_classifier g'))"
    proof (rule hnext_spec [OF gone _ _ c(4,5,6) _ i'(2)])
      show "eh_state h' \<noteq> IDLE \<Longrightarrow> waiting (eh_id h) (g_classifier g') \<noteq> []" using handle_inv_waiting [OF c(1)] i' by simp
    qed (use b7 in blast)+
    show ?thesis
    proof (cases "eh_state h = ROBOTS")
      case True
      then have "waiting (eh_id h) (g_classifier g2) = waiting (eh_id h) (g_classifier g)" "g_ndocs_saved g' = g_ndocs_saved g"
        using a(2) b7 b(4) c(7) by (simp_all add: after_state_def)
      then show ?thesis using hstep_robots [OF hn] True i' by (simp add: abs_handle_def)
    next
      case False
      then have w: "waiting (eh_id h) (g_classifier g) = hd (waiting (eh_id h) (g_classifier g)) # waiting (eh_id h) (g_classifier g2)"
        "g_ndocs_saved g' = g_ndocs_saved g + 1"
        using a(2) b7 b(4) c(7) by (simp_all add: after_state_def)
      have st: "eh_state h = HEAD \<or> eh_state h = CONTENT" using hi ni False by (cases "eh_state h") (simp_all add: handle_inv_def)
      note hstep_saved [OF st front [OF st] hn, of "g_ndocs_saved g", folded w(1)]
      then show ?thesis using w(2) i' by (simp add: abs_handle_def)
    qed
  qed
  then show ?thesis using c(1,3,8) op_frame_trans [OF b(2) c(2)] b(3,5) by auto
qed

end
