(* ===== verification/Crawler_Input.thy ===== *)
theory Crawler_Input
  imports Crawler_Done
begin

text \<open>
  What the crawler reads: the content of a transfer is bounded, the input of a connection is read the same in whatever pieces
  it arrives, and the content of a document ends in the database under its URL. The lemmas at the end show
  inputs that the event handlers do not treat as they mean to.
\<close>

section \<open>A concrete environment\<close>

definition sample_env :: "((string \<times> string) \<Rightarrow> bson option) cenv" where
  "sample_env = \<lparr>en_boost = boost_ref, en_lib = sorted_lib, en_mongo = memory_db, en_types = sample_types, en_setopt = (\<lambda>_ _. True),
     en_add_handle = (\<lambda>_. Added), en_timediff = (\<lambda>_. 0), en_kBs = (\<lambda>_. ''0'')\<rparr>"

definition sample_transfer :: "int \<Rightarrow> transfer" where
  "sample_transfer code = \<lparr>tr_result = 0, tr_eff_url = ''a'', tr_http_code = code, tr_filetime = -1, tr_time = 0, tr_ctype = 0,
     tr_curl_error = []\<rparr>"

definition sample_ginfo :: "((string \<times> string) \<Rightarrow> bson option) ginfo" where
  "sample_ginfo = ginfo_init Map.empty ''n'' 1"

section \<open>The content of a transfer\<close>

text \<open>curl hands over the content in pieces, and stops the transfer when a call does not take all of its piece.\<close>

fun receive :: "string list \<Rightarrow> easy_handle \<times> 'db ginfo \<Rightarrow> easy_handle \<times> 'db ginfo" where
  "receive [] hg = hg"
| "receive (b # bs) hg = (let (n, hg') = content_write_cb b hg in if n = length b then receive bs hg' else hg')"

lemma content_write_cb_eq:
  "content_write_cb b (h, g) =
     (if eh_content_dl_bytes h + word_of_nat (length b) > CONTENT_SIZE_LIMIT then 0 else length b,
      h\<lparr>eh_content_dl_bytes := eh_content_dl_bytes h + word_of_nat (length b), eh_content_os := eh_content_os h @ b\<rparr>,
      g\<lparr>g_dl_bytes := g_dl_bytes g + word_of_nat (length b)\<rparr>)"
  by (simp add: content_write_cb_def Let_def)

lemma word_of_nat_less: "n < 2 ^ 64 \<Longrightarrow> (word_of_nat n > CONTENT_SIZE_LIMIT) \<longleftrightarrow> n > 1048576"
  by (simp add: CONTENT_SIZE_LIMIT_def word_less_nat_alt unat_of_nat)

lemma receive_spec:
  assumes "eh_content_dl_bytes h = word_of_nat (length (eh_content_os h))" "length (eh_content_os h) \<le> 1048576"
    "\<forall>b\<in>set bs. 0 < length b \<and> length b \<le> m" "1048576 + m < 2 ^ 64"
  shows "\<exists>k. eh_content_os (fst (receive bs (h, g))) = eh_content_os h @ concat (take k bs)
    \<and> length (eh_content_os h @ concat (take k bs)) \<le> 1048576 + m
    \<and> eh_content_dl_bytes (fst (receive bs (h, g))) = word_of_nat (length (eh_content_os h @ concat (take k bs)))
    \<and> (length (eh_content_os h @ concat bs) \<le> 1048576 \<longrightarrow> k = length bs)"
  using assms
proof (induction bs arbitrary: h g)
  case Nil
  then show ?case by (intro exI [of _ 0]) simp
next
  case (Cons b bs)
  let ?n = "length (eh_content_os h) + length b"
  let ?h = "h\<lparr>eh_content_dl_bytes := word_of_nat ?n, eh_content_os := eh_content_os h @ b\<rparr>"
  let ?g = "g\<lparr>g_dl_bytes := g_dl_bytes g + word_of_nat (length b)\<rparr>"
  have n: "?n < 2 ^ 64" using Cons.prems by simp
  have w: "content_write_cb b (h, g) = (if ?n > 1048576 then 0 else length b, ?h, ?g)"
    using Cons.prems(1) word_of_nat_less [OF n] by (simp add: content_write_cb_eq)
  show ?case
  proof (cases "?n > 1048576")
    case True
    then have "receive (b # bs) (h, g) = (?h, ?g)" using w Cons.prems(3) by simp
    then show ?thesis using Cons.prems True by (intro exI [of _ 1]) auto
  next
    case False
    then have r: "receive (b # bs) (h, g) = receive bs (?h, ?g)" using w by simp
    have "\<exists>k. eh_content_os (fst (receive bs (?h, ?g))) = eh_content_os ?h @ concat (take k bs)
      \<and> length (eh_content_os ?h @ concat (take k bs)) \<le> 1048576 + m
      \<and> eh_content_dl_bytes (fst (receive bs (?h, ?g))) = word_of_nat (length (eh_content_os ?h @ concat (take k bs)))
      \<and> (length (eh_content_os ?h @ concat bs) \<le> 1048576 \<longrightarrow> k = length bs)"
      using Cons.prems False by (intro Cons.IH) simp_all
    then obtain k where "eh_content_os (fst (receive bs (?h, ?g))) = eh_content_os h @ concat (take (Suc k) (b # bs))"
      "length (eh_content_os h @ concat (take (Suc k) (b # bs))) \<le> 1048576 + m"
      "eh_content_dl_bytes (fst (receive bs (?h, ?g))) = word_of_nat (length (eh_content_os h @ concat (take (Suc k) (b # bs))))"
      "length (eh_content_os h @ concat (b # bs)) \<le> 1048576 \<longrightarrow> Suc k = length (b # bs)" by (auto simp: add.assoc)
    then show ?thesis unfolding r by blast
  qed
qed

text \<open>
  C6. The content of a transfer is bounded. From a handle that was reset, whatever pieces of at most \<open>m\<close> bytes the server
  sends, the content kept is made of the first of them and has at most \<open>m\<close> bytes more than the limit; the counter
  is its length; and content within the limit is kept whole.
\<close>

theorem content_bounded:
  assumes "\<forall>b\<in>set bs. 0 < length b \<and> length b \<le> m" "m < 2 ^ 32"
  shows "let h' = fst (receive bs (eh_reset E h, g)) in
    (\<exists>k. eh_content_os h' = concat (take k bs) \<and> (length (concat bs) \<le> 1048576 \<longrightarrow> k = length bs))
    \<and> length (eh_content_os h') \<le> 1048576 + m \<and> eh_content_dl_bytes h' = word_of_nat (length (eh_content_os h'))"
proof -
  have r: "eh_content_dl_bytes (eh_reset E h) = word_of_nat (length (eh_content_os (eh_reset E h)))" "eh_content_os (eh_reset E h) = []"
    by (simp_all add: eh_reset_def)
  show ?thesis using receive_spec [OF r(1) _ assms(1), of g] assms(2) r(2) by (auto simp: Let_def)
qed

theorem content_bounded_witness:
  "length (eh_content_os (fst (receive [''ab'', ''c''] (eh_reset sample_env (easy_handle_init 0), sample_ginfo)))) \<le> 1048576 + 16384
    \<and> eh_content_os (fst (receive [''ab'', ''c''] (eh_reset sample_env (easy_handle_init 0), sample_ginfo))) = ''abc''"
  using content_bounded [of "[''ab'', ''c'']" 16384 sample_env "easy_handle_init 0" "sample_ginfo"] by (simp add: Let_def del: receive.simps)

section \<open>The input of a connection\<close>

text \<open>The pieces that \<^verbatim>\<open>connection_read_cb\<close> appends to the buffer.\<close>

definition feed :: "'db cenv \<Rightarrow> string list \<Rightarrow> connection \<times> url_classifier \<Rightarrow> (connection \<times> url_classifier) res" where
  "feed E = foldR (\<lambda>b (cn, cl). process_input_buff E False (cn\<lparr>cn_input_buff := cn_input_buff cn @ b\<rparr>, cl))"

lemma pieces_append_last:
  "pieces (a @ b) = butlast (pieces a) @ pieces (last (pieces a) @ b)"
proof (induction a)
  case (Cons c a)
  show ?case
  proof (cases "tl (pieces a) = []")
    case True
    then obtain x where "pieces a = [x]" by (metis list.collapse pieces_nonempty)
    then show ?thesis using Cons by (cases "line_sep c") simp_all
  next
    case False
    then obtain p ps where p: "pieces a = p # ps" "ps \<noteq> []" by (metis list.collapse pieces_nonempty)
    then show ?thesis using Cons by (cases "line_sep c") simp_all
  qed
qed simp

lemma pieces_no_seps: "p \<in> set (pieces w) \<Longrightarrow> c \<in> set p \<Longrightarrow> \<not> line_sep c"
proof (induction w arbitrary: p)
  case (Cons a w)
  then show ?case using list.set_sel [of "pieces w"] by (fastforce split: if_splits)
qed simp

lemma last_pieces_no_sep: "\<forall>c\<in>set (last (pieces w)). \<not> line_sep c"
  using pieces_no_seps [OF last_in_set [OF pieces_nonempty]] by blast

lemma bindR_assoc: "bindR (bindR m f) g = bindR m (\<lambda>x. bindR (f x) g)"
  by (simp add: bindR_def split: sum.split)

lemma foldR_append: "foldR f (xs @ ys) s = bindR (foldR f xs s) (foldR f ys)"
  by (induction xs arbitrary: s) (simp_all add: bindR_def split: sum.split)

text \<open>The buffer plays no part in what is done with a line.\<close>

definition set_buff :: "string \<Rightarrow> connection \<times> url_classifier \<Rightarrow> connection \<times> url_classifier" where
  "set_buff w s = ((fst s)\<lparr>cn_input_buff := w\<rparr>, snd s)"

lemma read_url_buff: "read_url E l (set_buff w s) = bindR (read_url E l s) (\<lambda>s. Inr (set_buff w s))"
  by (cases s) (auto simp: read_url_def set_buff_def split: sum.split exn.split)

lemma foldR_buff: "foldR (read_url E) ls (set_buff w s) = bindR (foldR (read_url E) ls s) (\<lambda>s. Inr (set_buff w s))"
proof (induction ls arbitrary: s)
  case (Cons l ls)
  then show ?case by (cases "read_url E l s") (simp_all add: read_url_buff)
qed simp

definition long_lines :: "string \<Rightarrow> string list" where
  "long_lines w = filter (\<lambda>l. 1 < length l) (butlast (pieces w))"

lemma sfind_None_pieces: "sfind line_sep w 0 = None \<Longrightarrow> pieces w = [w]"
  by (intro pieces_no_sep) (simp add: sfind_None)

lemma process_input_fold:
  "process_input_buff E False s =
     bindR (foldR (read_url E) (long_lines (cn_input_buff (fst s))) s) (\<lambda>s'. Inr (set_buff (last (pieces (cn_input_buff (fst s)))) s'))"
proof (cases "cn_input_buff (fst s) = []")
  case True
  then show ?thesis by (cases s) (simp add: process_input_buff_def long_lines_def set_buff_def)
next
  case False
  let ?w = "cn_input_buff (fst s)"
  let ?k = "if sfind line_sep ?w 0 = None then 0 else length ?w - length (last (pieces ?w))"
  have "last (pieces ?w) = drop ?k ?w"
    using last_pieces_drop [of ?w] sfind_None_pieces [of ?w] by (cases "sfind line_sep ?w 0") simp_all
  moreover have "process_input_buff E False s = bindR (scan_lines (read_url E) ?w 0 s) (\<lambda>(k, s'). Inr (set_buff (drop k ?w) s'))"
    using False by (cases s) (auto simp: process_input_buff_def Let_def set_buff_def split: prod.splits intro!: arg_cong [of _ _ "bindR _"])
  moreover have "scan_lines (read_url E) ?w 0 s = bindR (foldR (read_url E) (long_lines ?w) s) (\<lambda>s'. Inr (?k, s'))"
    by (simp add: scan_lines_fold long_lines_def)
  ultimately show ?thesis by (simp only: bindR_assoc bindR_simps prod.case)
qed

lemma process_input_twice:
  "bindR (process_input_buff E False (set_buff (w @ a) s)) (\<lambda>s. process_input_buff E False (set_buff (cn_input_buff (fst s) @ b) s)) =
    process_input_buff E False (set_buff (w @ a @ b) s)"
proof -
  have b: "set_buff x (set_buff y s) = set_buff x s" "cn_input_buff (fst (set_buff x s)) = x" for x y s by (simp_all add: set_buff_def)
  have l: "long_lines (w @ a @ b) = long_lines (w @ a) @ long_lines (last (pieces (w @ a)) @ b)"
    "last (pieces (w @ a @ b)) = last (pieces (last (pieces (w @ a)) @ b))"
    using pieces_append_last [of "w @ a" b] by (simp_all add: long_lines_def butlast_append)
  show ?thesis unfolding process_input_fold b l foldR_append foldR_buff
    by (simp add: bindR_assoc b foldR_buff)
qed

lemma feed_simps:
  "feed E [] s = Inr s" "feed E (b # bs) s = bindR (process_input_buff E False (set_buff (cn_input_buff (fst s) @ b) s)) (feed E bs)"
  by (simp_all add: feed_def set_buff_def split: prod.split)

lemma feed_single: "feed E [b] = (\<lambda>s. process_input_buff E False (set_buff (cn_input_buff (fst s) @ b) s))"
  by (simp add: fun_eq_iff feed_simps bindR_def split: sum.split)

text \<open>
  C5. URLs are read the same in whatever pieces they arrive. When the buffer of a connection holds no line separator, which
  \<^verbatim>\<open>process_input_buff\<close> sees to, reading several pieces one after the other gives the same classifier, the same rest
  in the buffer, the same count and the same exception as reading them at once.
\<close>

theorem input_chunks:
  assumes "\<forall>c\<in>set (cn_input_buff cn). \<not> line_sep c"
  shows "feed E bs (cn, cl) = feed E [concat bs] (cn, cl)"
proof -
  have "feed E bs s = feed E [concat bs] s" if "\<forall>c\<in>set (cn_input_buff (fst s)). \<not> line_sep c" for s
    using that
  proof (induction bs arbitrary: s)
    case Nil
    then have "pieces (cn_input_buff (fst s)) = [cn_input_buff (fst s)]" by (rule pieces_no_sep)
    then show ?case by (simp add: feed_simps process_input_fold long_lines_def set_buff_def)
  next
    case (Cons b bs)
    let ?w = "cn_input_buff (fst s)"
    have "bindR (process_input_buff E False (set_buff (?w @ b) s)) (feed E bs) =
      bindR (process_input_buff E False (set_buff (?w @ b) s)) (feed E [concat bs])"
      using Cons.IH last_pieces_no_sep by (auto simp: process_input_fold bindR_def set_buff_def split: sum.split)
    also have "\<dots> = feed E [concat (b # bs)] s" using process_input_twice [of E ?w b s "concat bs"]
      by (simp add: feed_single)
    finally show ?case by (simp add: feed_simps)
  qed
  then show ?thesis using assms by simp
qed

theorem input_chunks_witness:
  "feed sample_env [''ht'', ''tp://a/'' @ [CHR 0x0A] @ ''ht''] (connection_init, cl_new_n 1) =
     feed sample_env [''http://a/'' @ [CHR 0x0A] @ ''ht''] (connection_init, cl_new_n 1)"
  using input_chunks [of connection_init sample_env "[''ht'', ''tp://a/'' @ [CHR 0x0A] @ ''ht'']" "cl_new_n 1"]
  by (simp add: connection_init_def)

section \<open>The document in the database\<close>

lemma next_turn_frame: "next_turn E (h, g) = Inr (again, h', g') \<Longrightarrow> \<exists>cl. g' = g\<lparr>g_classifier := cl\<rparr>"
  by (auto simp: next_turn_def Let_def bindR_eq_Inr split: option.splits if_splits)

lemma next_loop_frame: "next_loop E (h, g) = Inr (h', g') \<Longrightarrow> g_db g' = g_db g \<and> g_namespace g' = g_namespace g"
proof (induction E "(h, g)" arbitrary: h g rule: next_loop.induct)
  case (1 E h g)
  obtain b where b: "cl_empty_n (g_classifier g) (eh_id h) = Inr b" using "1.prems" by (auto simp: next_loop.simps bindR_eq_Inr)
  show ?case
  proof (cases b)
    case True
    then show ?thesis using "1.prems" b by (simp add: next_loop.simps)
  next
    case False
    then obtain again h1 g1 where t: "next_turn E (h, g) = Inr (again, h1, g1)"
      and r: "(if again then next_loop E (h1, g1) else Inr (h1, g1)) = Inr (h', g')"
      using "1.prems" b by (auto simp: next_loop.simps [of E h g] bindR_eq_Inr)
    obtain cl where "g1 = g\<lparr>g_classifier := cl\<rparr>" using next_turn_frame [OF t] by blast
    then show ?thesis using r "1.hyps" [OF b False t refl refl] by (auto split: if_splits)
  qed
qed

lemma reschedule_frame:
  assumes "reschedule E (h, g) = Inr (h', g')"
  shows "g_db g' = g_db g \<and> g_namespace g' = g_namespace g"
  using assms
proof (cases rule: reschedule_cases)
  case (2 front cl u d)
  have "eh_opts ((eh_reset E h)\<lparr>eh_doc := Some d\<rparr>) = []" by (simp add: eh_reset_def)
  from start_transfer_sent [OF 2(4) this] show ?thesis by (auto simp: sent_def split: if_splits)
qed simp

context mongo_db
begin

lemma query_update:
  assumes "length (db_query M db ns u) \<le> 1"
  shows "\<exists>d. db_query M (db_update M (db_index M db ns) ns u b) ns u = [d] \<and> (\<forall>f v. f \<noteq> ''_id'' \<longrightarrow> map_of b f = Some v \<longrightarrow> map_of d f = Some v)"
proof (cases "db_query M db ns u")
  case Nil
  then have "db_query M (db_index M db ns) ns u = []" by (simp add: query_index)
  then show ?thesis using query_insert [of "db_index M db ns" ns u b] by auto
next
  case (Cons d ds)
  then have "db_query M (db_index M db ns) ns u = [d]" using assms by (simp add: query_index)
  then show ?thesis using query_set [of "db_index M db ns" ns u d b] by auto
qed

end

text \<open>
  C4. The content of a document ends in the database. When the transfer of a content has succeeded and the handler of its end returns,
  the collection has one document for the normal form of the URL of the handle, with the content
  that was received and the status 200.
\<close>

theorem done_saves_content:
  assumes "mongo_db (en_mongo E)" "handle_done E t (h, g) = Inr (h', g')" "eh_state h = CONTENT" "tr_result t = 0" "tr_http_code t = 200"
    "eh_doc h = Some d" "url_normalize (en_boost E) (doc_url d) = Inr v" "eh_content_os h \<noteq> []"
    "length (db_query (en_mongo E) (g_db g) (g_namespace g) (url_get v)) \<le> 1"
  shows "\<exists>b. db_query (en_mongo E) (g_db g') (g_namespace g) (url_get v) = [b]
    \<and> map_of b ''content'' = Some (BBin (eh_content_os h)) \<and> map_of b ''http_code'' = Some (BInt 200)"
proof -
  let ?h1 = "h\<lparr>eh_curl_error := tr_curl_error t, eh_headers := None\<rparr>"
  obtain d0 d1 h2 g2 h3 g3 where d1: "eh_doc h = Some d0" "doc_url d1 = doc_url d0" "doc_http_code d1 = tr_http_code t"
    and s: "done_state E t d1 (?h1, g) = Inr (h2, g2)"
    and nl: "(if eh_state h2 = NEXT then next_loop E (h2\<lparr>eh_state := IDLE\<rparr>, g2) else Inr (h2, g2)) = Inr (h3, g3)"
    and rs: "reschedule E (h3\<lparr>eh_doc := map_option (\<lambda>d. d\<lparr>doc_url := url_clear (doc_url d)\<rparr>) (eh_doc h3)\<rparr>, g3) = Inr (h', g')"
    by (rule handle_done_cases [OF assms(2)])
  have "g_db g' = g_db g3" using reschedule_frame [OF rs] by simp
  moreover have "g_db g3 = g_db g2" using nl next_loop_frame [of E "h2\<lparr>eh_state := IDLE\<rparr>" g2 h3 g3] by (auto split: if_splits)
  moreover obtain d2 where d2: "save_and_pop E d2 (?h1, g) = Inr (h2, g2)" "doc_url d2 = doc_url d"
    "doc_content d2 = eh_content_os h" "doc_http_code d2 = 200"
    using s by (cases rule: done_state_cases) (use assms d1 in auto)
  moreover obtain d3 db cl where "doc_save (en_boost E) (en_mongo E) (en_types E) (g_namespace g) d2 (g_db g) = Inr (d3, db)" "g_db g2 = db"
    by (rule save_and_pop_Inr [OF d2(1)]) simp
  ultimately have db: "g_db g' = db_update (en_mongo E) (db_index (en_mongo E) (g_db g) (g_namespace g)) (g_namespace g) (url_get v)
      (doc_fields (en_types E) (d2\<lparr>doc_url := v\<rparr>))"
    using assms(7) by (auto simp: doc_save_def Let_def split: if_splits)
  show ?thesis using mongo_db.query_update [OF assms(1,9), of "doc_fields (en_types E) (d2\<lparr>doc_url := v\<rparr>)"] d2 assms(8)
    unfolding db by (fastforce simp: doc_fields_lookup)
qed

definition sample_handle :: easy_handle where
  "sample_handle = (easy_handle_init 0)\<lparr>eh_state := CONTENT, eh_content_os := ''x'',
     eh_doc := Some ((doc_init sample_types)\<lparr>doc_url := host_url ''a'' []\<rparr>)\<rparr>"

lemma sample_handle_done:
  "\<not> isl (handle_done sample_env (sample_transfer 200) (sample_handle, sample_ginfo\<lparr>g_classifier := cl_push sorted_lib (host_url ''a'' []) (cl_new_n 1)\<rparr>))"
  "case url_normalize boost_ref (host_url ''a'' []) of Inr v \<Rightarrow> url_get v = ''http://a/'' | Inl _ \<Rightarrow> False"
  by code_simp+

theorem done_saves_content_witness:
  "\<exists>h' g' b. handle_done sample_env (sample_transfer 200)
      (sample_handle, sample_ginfo\<lparr>g_classifier := cl_push sorted_lib (host_url ''a'' []) (cl_new_n 1)\<rparr>) = Inr (h', g')
    \<and> db_query memory_db (g_db g') ''n'' ''http://a/'' = [b] \<and> map_of b ''content'' = Some (BBin ''x'')"
proof -
  let ?g = "sample_ginfo\<lparr>g_classifier := cl_push sorted_lib (host_url ''a'' []) (cl_new_n 1)\<rparr>"
  obtain h' g' where r: "handle_done sample_env (sample_transfer 200) (sample_handle, ?g) = Inr (h', g')"
    using sample_handle_done(1) by (cases "handle_done sample_env (sample_transfer 200) (sample_handle, ?g)") auto
  obtain v where v: "url_normalize boost_ref (host_url ''a'' []) = Inr v" "url_get v = ''http://a/''"
    using sample_handle_done(2) by (auto split: sum.splits)
  have m: "mongo_db (en_mongo sample_env)" using memory.mongo_db_axioms by (simp add: sample_env_def)
  have "\<exists>b. db_query (en_mongo sample_env) (g_db g') (g_namespace ?g) (url_get v) = [b]
    \<and> map_of b ''content'' = Some (BBin (eh_content_os sample_handle)) \<and> map_of b ''http_code'' = Some (BInt 200)"
    by (rule done_saves_content [OF m r, of "(doc_init sample_types)\<lparr>doc_url := host_url ''a'' []\<rparr>"])
      (use v in \<open>simp_all add: sample_handle_def sample_transfer_def sample_env_def sample_ginfo_def ginfo_init_def memory_db_def\<close>)
  then show ?thesis using r v by (auto simp: sample_env_def sample_ginfo_def ginfo_init_def sample_handle_def)
qed

section \<open>Inputs that are not treated as meant\<close>

text \<open>A command without a line end at the end of the input is executed but stays in the buffer.\<close>

lemma interactive_flush_keeps:
  assumes "\<forall>c\<in>set w. \<not> line_sep c" "w \<noteq> []" "interactive_cmd E w (out, g) = Inr (out', g')" "g_interactive_buff g = w"
  shows "interactive_process E True (out, g) = Inr (out', g'\<lparr>g_interactive_buff := w\<rparr>)"
proof -
  have "sfind line_sep w 0 = None" using assms(1) by (simp add: sfind_None)
  then show ?thesis using assms by (simp add: interactive_process_def Let_def scan_lines.simps [of _ w 0])
qed

text \<open>A line of one character is passed over, by the test that is meant for runs of separators.\<close>

lemma interactive_one_char: "sfind line_sep [c, CHR 0x0A] 0 = Some 1 \<Longrightarrow> scan_lines body [c, CHR 0x0A] 0 st = Inr (2, st)"
  by (simp add: scan_lines.simps [of body "[c, CHR 0x0A]"] sfind_def line_sep_def)

text \<open>When as many transfers have started as have ended, the messages of curl are not read.\<close>

lemma check_run_count_missed:
  "g_prev_running g \<le> g_still_running g \<Longrightarrow> check_run_count E msgs g = Inr (g\<lparr>g_prev_running := g_still_running g\<rparr>, msgs)"
  by (simp add: check_run_count_def)

text \<open>For the timeout -1, with which curl asks that the timer be removed, a timer is added with a negative time.\<close>

lemma multi_timer_cb_negative: "g_timer (multi_timer_cb (-1) g) = Some (0, -1000)"
  by (simp add: multi_timer_cb_def signed_divide_int_def signed_modulo_int_def)

text \<open>A URL at the front of the queue that does not normalise ends the program: the exception leaves the handler of the scheduler.\<close>

lemma reschedule_throws:
  assumes "cl_empty_n (g_classifier g) (eh_id h) = Inr False" "url_normalize (en_boost E) (hd (waiting (eh_id h) (g_classifier g))) = Inl x"
  shows "reschedule E (h, g) = Inl x"
  using assms by (simp add: reschedule_def peek_nonempty)

text \<open>A connection whose descriptor is above the limit ends the callback in an exception: it is closed twice.\<close>

lemma accept_closed_twice:
  "Accept accept 0 = Some (Inr fd) \<Longrightarrow> fd > 1024 \<Longrightarrow> accept_cb accept socklen name g = Some (Inl RuntimeError)"
  by (auto simp: accept_cb_def conn_accept_def conn_delete_def connection_init_def Let_def)

text \<open>The rest of the input of a connection is queued without the test on the scheme.\<close>

lemma flush_url_unchecked: "url_of (en_boost E) w = Inr u \<Longrightarrow> flush_url E w cl = Inr (cl_push (en_lib E) u cl)"
  by (simp add: flush_url_def)

end
