(* ===== verification/Crawler_Props.thy ===== *)
theory Crawler_Props
  imports Crawler_Input
begin

text \<open>
  Properties of the whole crawler. \<open>crawl\<close> is the set of states that are reached by any sequence of events: connections, lines of
  URLs, commands, pieces of transfers and ends of transfers. Its second component is a history variable: for a handle, the URL of
  its last request for \<^verbatim>\<open>robots.txt\<close> that has ended, and the entry that was made of the answer. The invariant \<open>crawl_inv\<close> is kept by
  every event.
\<close>

section \<open>Events\<close>

text \<open>An event of the loop of \<^verbatim>\<open>libevent\<close>, or a call that curl makes in the course of one.\<close>

datatype event =
    Ev_accept "nat \<Rightarrow> accept_answer" nat "(string \<times> string) option"
  | Ev_read int read_result
  | Ev_command read_result
  | Ev_schedule
  | Ev_header nat string
  | Ev_body nat string
  | Ev_done nat transfer
  | Ev_socket nat int int
  | Ev_timer int
  | Ev_sigint

type_synonym history = "nat \<rightharpoonup> string option \<times> robots_entry"

text \<open>A call on behalf of a handle is made only while the handle is known to curl.\<close>

fun crawl_event :: "'db cenv \<Rightarrow> event \<Rightarrow> 'db ginfo \<times> history \<Rightarrow> ('db ginfo \<times> history) res" where
  "crawl_event E (Ev_accept accept len name) (g, gh) =
     (case accept_cb accept len name g of None \<Rightarrow> Inl Undefined | Some r \<Rightarrow> bindR r (\<lambda>g. Inr (g, gh)))"
| "crawl_event E (Ev_read fd r) (g, gh) = bindR (connection_read_cb E fd r g) (\<lambda>g. Inr (g, gh))"
| "crawl_event E (Ev_command r) (g, gh) = bindR (on_read_interactive_cb E r ([], g)) (\<lambda>(out, g). Inr (g, gh))"
| "crawl_event E Ev_schedule (g, gh) = bindR (scheduler_cb E g) (\<lambda>(quit, g). Inr (g, gh))"
| "crawl_event E (Ev_header i b) (g, gh) =
     (if i \<in> set (g_multi g)
      then bindR (on_handle (\<lambda>hg. Inr (snd (header_write_cb b hg))) i g) (\<lambda>g. Inr (g, gh)) else Inl Undefined)"
| "crawl_event E (Ev_body i b) (g, gh) =
     (if i \<in> set (g_multi g)
      then bindR (on_handle (\<lambda>hg. Inr (snd (content_write_cb b hg))) i g) (\<lambda>g. Inr (g, gh)) else Inl Undefined)"
| "crawl_event E (Ev_done i t) (g, gh) =
     (if i \<in> set (g_multi g)
      then bindR (run_msgs E [MSG_DONE i t] g) (\<lambda>g'.
        Inr (g', gh(i := new_entry E t (g_easyHandles g ! i) (gh i)))) else Inl Undefined)"
| "crawl_event E (Ev_socket e s what) (g, gh) = Inr (sock_cb e s what g, gh)"
| "crawl_event E (Ev_timer ms) (g, gh) = Inr (multi_timer_cb ms g, gh)"
| "crawl_event E Ev_sigint (g, gh) = bindR (sigint_handler g) (\<lambda>g. Inr (g, gh))"

inductive crawl :: "'db cenv \<Rightarrow> 'db \<Rightarrow> string \<Rightarrow> nat \<Rightarrow> 'db ginfo \<times> history \<Rightarrow> bool" for E db ns N where
  crawl_init: "crawl E db ns N (ginfo_init db ns N, Map.empty)"
| crawl_step: "crawl E db ns N s \<Longrightarrow> crawl_event E ev s = Inr s' \<Longrightarrow> crawl E db ns N s'"

section \<open>The invariant\<close>

text \<open>The handles of \<open>X\<close> are in the middle of an operation.\<close>

definition crawl_inv :: "'db cenv \<Rightarrow> nat \<Rightarrow> nat set \<Rightarrow> 'db ginfo \<Rightarrow> history \<Rightarrow> bool" where
  "crawl_inv E N X g gh \<longleftrightarrow>
     cl_inv (g_classifier g) \<and> sound_urls E (g_classifier g) \<and> {..<N} \<subseteq> te_n ` set (table (g_classifier g)) \<and> length (g_easyHandles g) = N
     \<and> distinct (g_multi g) \<and> (\<forall>i<N. eh_id (g_easyHandles g ! i) = i)
     \<and> (\<forall>i. i \<in> set (g_multi g) \<longleftrightarrow> i < N \<and> i \<notin> X \<and> eh_state (g_easyHandles g ! i) \<noteq> IDLE)
     \<and> (\<forall>i<N. i \<notin> X \<longrightarrow> handle_inv E (g_classifier g) (g_user_agent g) (gh i) (g_easyHandles g ! i))"

lemma crawl_inv_cong:
  assumes "g_classifier g' = g_classifier g" "g_easyHandles g' = g_easyHandles g" "g_multi g' = g_multi g" "g_user_agent g' = g_user_agent g"
  shows "crawl_inv E N X g' gh = crawl_inv E N X g gh"
  unfolding crawl_inv_def assms ..

lemma crawl_inv_init: "crawl_inv E N {} (ginfo_init db ns N) gh"
proof -
  have "te_n ` set (table (cl_new_n N)) = {..<N}" by (auto simp: cl_new_n_def table_elmt_def image_image)
  then show ?thesis by (simp add: crawl_inv_def ginfo_init_def cl_inv_new sound_urls_def easy_handle_init_def handle_inv_def)
qed

text \<open>An operation on a handle, in the middle of which the invariant need not hold for it.\<close>

lemma crawl_inv_op:
  assumes inv: "crawl_inv E N {i} g gh" and i: "i < N"
    and fr: "op_frame (g_easyHandles g ! i, g) (h', g')"
    and hi: "handle_inv E (g_classifier g') (g_user_agent g) gi h'"
    and m: "g_multi g' = g_multi g @ (if eh_state h' = IDLE then [] else [i])"
  shows "crawl_inv E N {} (g'\<lparr>g_easyHandles := (g_easyHandles g')[i := h']\<rparr>) (gh(i := gi))"
proof -
  have id: "eh_id (g_easyHandles g ! i) = i" using inv i by (simp add: crawl_inv_def)
  have f: "eh_id h' = i" "cl_inv (g_classifier g')" "te_n ` set (table (g_classifier g')) = te_n ` set (table (g_classifier g))"
    "g_easyHandles g' = g_easyHandles g" "g_user_agent g' = g_user_agent g"
    "\<And>n. n \<noteq> i \<Longrightarrow> waiting n (g_classifier g') = waiting n (g_classifier g)"
    "set_mset (contents (g_classifier g')) \<subseteq> set_mset (contents (g_classifier g))"
    using fr id by (simp_all add: op_frame_def)
  have sound: "sound_urls E (g_classifier g')" using inv f(7) by (auto simp: crawl_inv_def sound_urls_def)
  have o: "handle_inv E (g_classifier g') (g_user_agent g) (gh n) (g_easyHandles g ! n)" if "n < N" "n \<noteq> i" for n
  proof (rule handle_inv_keeps)
    show "handle_inv E (g_classifier g) (g_user_agent g) (gh n) (g_easyHandles g ! n)" using inv that by (simp add: crawl_inv_def)
    have "eh_id (g_easyHandles g ! n) = n" using inv that by (simp add: crawl_inv_def)
    then show "keeps (eh_id (g_easyHandles g ! n)) (g_classifier g) (g_classifier g')" using f(6) that by (simp add: keeps_def)
  qed
  have "length (g_easyHandles g) = N" "distinct (g_multi g)" "i \<notin> set (g_multi g)"
    "\<And>n. n \<noteq> i \<Longrightarrow> n \<in> set (g_multi g) \<longleftrightarrow> n < N \<and> eh_state (g_easyHandles g ! n) \<noteq> IDLE"
    "\<And>n. n < N \<Longrightarrow> eh_id (g_easyHandles g ! n) = n" "{..<N} \<subseteq> te_n ` set (table (g_classifier g))"
    using inv by (simp_all add: crawl_inv_def)
  then show ?thesis using f(1-5) sound o hi m i
    by (auto simp: crawl_inv_def nth_list_update)
qed

text \<open>Adding URLs to the classifier.\<close>

definition fed :: "'db cenv \<Rightarrow> url_classifier \<Rightarrow> url_classifier \<Rightarrow> bool" where
  "fed E c c' \<longleftrightarrow> cl_inv c' \<and> te_n ` set (table c') = te_n ` set (table c) \<and> (\<forall>n. keeps n c c')
     \<and> (sound_urls E c \<longrightarrow> sound_urls E c')"

lemma fed_refl: "cl_inv c \<Longrightarrow> fed E c c"
  by (simp add: fed_def)

lemma fed_trans: "fed E a b \<Longrightarrow> fed E b c \<Longrightarrow> fed E a c"
  using keeps_trans by (fastforce simp: fed_def)

lemma fed_push:
  assumes "classifier_lib L" "cl_inv c" "url_of (en_boost E) s = Inr u"
  shows "fed E c (cl_push L u c)"
proof -
  have "cl_inv (cl_push L u c) \<and> contents (cl_push L u c) = add_mset u (contents c)" using classifier_lib.cl_push_spec [OF assms(1,2)] .
  moreover have "sound_url E u" using assms(3) by (rule url_of_sound)
  ultimately show ?thesis using assms(1,2)
    by (simp add: fed_def classifier_lib.cl_push_keeps classifier_lib.cl_push_waiting sound_urls_def)
qed

lemma crawl_inv_fed:
  assumes "crawl_inv E N X g gh" "fed E (g_classifier g) cl"
  shows "crawl_inv E N X (g\<lparr>g_classifier := cl\<rparr>) gh"
  using assms by (auto simp: crawl_inv_def fed_def intro: handle_inv_keeps)

section \<open>Events keep the invariant\<close>

lemma scan_lines_inv:
  assumes "scan_lines body buff k st = Inr (k', st')" "P st" "\<And>l s s'. P s \<Longrightarrow> body l s = Inr s' \<Longrightarrow> P s'"
  shows "P st'"
  using assms
proof (induction body buff k st rule: scan_lines.induct)
  case (1 body buff k st)
  show ?case
  proof (cases "sfind line_sep buff k")
    case None
    then show ?thesis using "1.prems" by (simp add: scan_lines.simps [of body buff k])
  next
    case (Some hare)
    then obtain s1 where s1: "(if hare > k + 1 then body (substr buff k (hare - k)) st else Inr st) = Inr s1"
      "scan_lines body buff (hare + 1) s1 = Inr (k', st')"
      using "1.prems"(1) by (auto simp: scan_lines.simps [of body buff k] bindR_eq_Inr)
    have "P s1" using s1(1) "1.prems"(2,3) by (auto split: if_splits)
    then show ?thesis using "1.prems"(3) by (rule "1.IH" [OF Some s1])
  qed
qed

lemma foldR_inv: "foldR f xs s = Inr s' \<Longrightarrow> P s \<Longrightarrow> (\<And>x s s'. x \<in> set xs \<Longrightarrow> P s \<Longrightarrow> f x s = Inr s' \<Longrightarrow> P s') \<Longrightarrow> P s'"
  by (induction xs arbitrary: s) (auto simp: bindR_eq_Inr)

lemma read_url_fed:
  "classifier_lib (en_lib E) \<Longrightarrow> cl_inv cl \<Longrightarrow> read_url E l (cn, cl) = Inr (cn', cl') \<Longrightarrow> fed E cl cl' \<and> cn_fd cn' = cn_fd cn"
  by (auto simp: read_url_def fed_refl intro: fed_push split: sum.splits exn.splits if_splits)

lemma process_input_fed:
  assumes L: "classifier_lib (en_lib E)" and inv: "cl_inv cl" and r: "process_input_buff E flush (cn, cl) = Inr (cn', cl')"
  shows "fed E cl cl'"
proof (cases "cn_input_buff cn = []")
  case True
  then show ?thesis using r inv by (simp add: process_input_buff_def fed_refl)
next
  case False
  then obtain k cn1 cl1 where s: "scan_lines (read_url E) (cn_input_buff cn) 0 (cn, cl) = Inr (k, cn1, cl1)"
    and f: "(if flush \<and> k < length (cn_input_buff cn)
      then bindR (flush_url E (drop k (cn_input_buff cn)) cl1) (\<lambda>cl. Inr (cn1\<lparr>cn_input_buff := []\<rparr>, cl))
      else Inr (cn', cl1)) = Inr (cn', cl')"
    using r by (auto simp: process_input_buff_def Let_def bindR_eq_Inr split: if_splits)
  have "fed E cl (snd (cn1, cl1))"
  proof (rule scan_lines_inv [OF s, where P = "\<lambda>s. fed E cl (snd s)"])
    show "fed E cl (snd (cn, cl))" using inv by (simp add: fed_refl)
    show "fed E cl (snd s')" if "fed E cl (snd s)" "read_url E l s = Inr s'" for l s s'
      using that read_url_fed [OF L, of "snd s" l "fst s" "fst s'" "snd s'"] fed_trans [of E cl "snd s" "snd s'"]
      by (simp add: fed_def [of E cl "snd s"])
  qed
  then have f1: "fed E cl cl1" by simp
  moreover have "cl_inv cl1" using f1 by (simp add: fed_def)
  moreover have "fed E cl1 cl'" using f \<open>cl_inv cl1\<close>
    by (auto simp: flush_url_def bindR_eq_Inr fed_refl intro: fed_push [OF L] split: if_splits sum.splits exn.splits)
  ultimately show ?thesis using fed_trans by blast
qed

lemma reschedule_inv:
  assumes L: "classifier_lib (en_lib E)" and inv: "crawl_inv E N {} g gh" and i: "i < N"
    and idle: "eh_state (g_easyHandles g ! i) = IDLE" and r: "on_handle (reschedule E) i g = Inr g'"
  shows "crawl_inv E N {} g' gh"
proof -
  have N: "i < length (g_easyHandles g)" using inv i by (simp add: crawl_inv_def)
  obtain h2 g2 where r2: "reschedule E (g_easyHandles g ! i, g) = Inr (h2, g2)" and g': "g' = g2\<lparr>g_easyHandles := (g_easyHandles g2)[i := h2]\<rparr>"
    using r N by (auto simp: on_handle_def bindR_eq_Inr)
  have id: "eh_id (g_easyHandles g ! i) = i" and c: "cl_inv (g_classifier g)" "i \<in> te_n ` set (table (g_classifier g))"
    using inv i by (auto simp: crawl_inv_def)
  have rd: "ready_inv E (g_classifier g) (g_user_agent g) (gh i) (g_easyHandles g ! i)" using idle by (simp add: ready_inv_def)
  note s = reschedule_spec [OF L c(1) _ rd r2]
  have "crawl_inv E N {i} g gh" using inv idle i by (auto simp: crawl_inv_def)
  then have "crawl_inv E N {} (g2\<lparr>g_easyHandles := (g_easyHandles g2)[i := h2]\<rparr>) (gh(i := gh i))"
    using i s id c(2) by (intro crawl_inv_op) (simp_all cong: if_cong)
  then show ?thesis unfolding g' by simp
qed

lemma g_reschedule_inv:
  assumes L: "classifier_lib (en_lib E)" and inv: "crawl_inv E N {} g gh" and r: "g_reschedule E g = Inr g'"
  shows "crawl_inv E N {} g' gh"
proof (rule foldR_inv [OF r [unfolded g_reschedule_def], of "\<lambda>g. crawl_inv E N {} g gh"])
  show "crawl_inv E N {} g gh" by (rule inv)
  fix i g1 g2
  assume "i \<in> set [0..<length (g_easyHandles g)]" "crawl_inv E N {} g1 gh"
    "(if eh_state (g_easyHandles g1 ! i) = IDLE then on_handle (reschedule E) i g1 else Inr g1) = Inr g2"
  then show "crawl_inv E N {} g2 gh" using reschedule_inv [OF L] inv by (auto simp: crawl_inv_def [of E N _ g] split: if_splits)
qed

text \<open>The end of a transfer is a step of the abstract machine of its handle.\<close>

lemma done_inv:
  assumes L: "classifier_lib (en_lib E)" and inv: "crawl_inv E N {} g gh" and i: "i \<in> set (g_multi g)"
    and r: "run_msgs E [MSG_DONE i t] g = Inr g'"
  shows "crawl_inv E N {} g' (gh(i := new_entry E t (g_easyHandles g ! i) (gh i)))
    \<and> eh_robots (g_easyHandles g' ! i) = Some (decides_by E t (g_easyHandles g ! i))
    \<and> hstep (verdict E (decides_by E t (g_easyHandles g ! i)) (g_user_agent g))
        (abs_handle (g_easyHandles g ! i) g) (abs_handle (g_easyHandles g' ! i) g')"
proof -
  let ?h = "g_easyHandles g ! i" and ?g = "g\<lparr>g_multi := removeAll i (g_multi g)\<rparr>"
  have h: "i < N" "length (g_easyHandles g) = N" "eh_id ?h = i" "eh_state ?h \<noteq> IDLE" "cl_inv (g_classifier g)" "sound_urls E (g_classifier g)"
    "i \<in> te_n ` set (table (g_classifier g))" "handle_inv E (g_classifier g) (g_user_agent g) (gh i) ?h"
    using inv i by (auto simp: crawl_inv_def)
  obtain h2 g2 where d: "handle_done E t (?h, ?g) = Inr (h2, g2)" and g': "g' = g2\<lparr>g_easyHandles := (g_easyHandles g2)[i := h2]\<rparr>"
    using r h by (auto simp: on_handle_def bindR_eq_Inr split: if_splits)
  note s = handle_done_spec [OF L _ _ _ _ h(4) d, of "gh i"]
  have s: "handle_inv E (g_classifier g2) (g_user_agent g) (new_entry E t ?h (gh i)) h2" "op_frame (?h, ?g) (h2, g2)"
    "g_multi g2 = g_multi ?g @ (if eh_state h2 = IDLE then [] else [i])" "eh_robots h2 = Some (decides_by E t ?h)"
    "hstep (verdict E (decides_by E t ?h) (g_user_agent g)) (abs_handle ?h ?g) (abs_handle h2 g2)"
    using s h by (simp_all cong: if_cong)
  have "crawl_inv E N {i} ?g gh" using inv by (auto simp: crawl_inv_def distinct_removeAll)
  then have "crawl_inv E N {} g' (gh(i := new_entry E t ?h (gh i)))"
    unfolding g' by (rule crawl_inv_op [OF _ h(1)]) (use s in simp_all)
  moreover have "g_easyHandles g' ! i = h2" "length (g_easyHandles g2) = N" using s(2) h unfolding g' by (simp_all add: op_frame_def)
  ultimately show ?thesis using s(4,5) by (simp add: abs_handle_def g')
qed

lemma write_inv:
  assumes inv: "crawl_inv E N {} g gh" and i: "i \<in> set (g_multi g)" and r: "on_handle (\<lambda>hg. Inr (snd (cb hg))) i g = Inr g'"
    and cb: "\<And>h g. \<exists>n h' g'. cb (h, g) = (n, h', g') \<and> eh_id h' = eh_id h \<and> eh_robots h' = eh_robots h \<and> eh_state h' = eh_state h
      \<and> eh_opts h' = eh_opts h \<and> eh_doc h' = eh_doc h \<and> (\<exists>b. g' = g\<lparr>g_dl_bytes := b\<rparr>)"
  shows "crawl_inv E N {} g' gh"
proof -
  obtain n h2 b where c: "cb (g_easyHandles g ! i, g) = (n, h2, g\<lparr>g_dl_bytes := b\<rparr>)" "eh_id h2 = eh_id (g_easyHandles g ! i)"
    "eh_robots h2 = eh_robots (g_easyHandles g ! i)" "eh_state h2 = eh_state (g_easyHandles g ! i)"
    "eh_opts h2 = eh_opts (g_easyHandles g ! i)" "eh_doc h2 = eh_doc (g_easyHandles g ! i)" using cb by metis
  have l: "i < length (g_easyHandles g)" using inv i by (auto simp: crawl_inv_def)
  then have "g' = g\<lparr>g_dl_bytes := b, g_easyHandles := (g_easyHandles g)[i := h2]\<rparr>" using r c(1) by (auto simp: on_handle_def)
  then show ?thesis using inv c(2-6) l handle_inv_cong [OF c(2-6)]
    by (simp add: crawl_inv_def nth_list_update) blast
qed

lemma header_write_frame:
  "\<exists>n h' g'. header_write_cb b (h, g) = (n, h', g') \<and> eh_id h' = eh_id h \<and> eh_robots h' = eh_robots h \<and> eh_state h' = eh_state h
    \<and> eh_opts h' = eh_opts h \<and> eh_doc h' = eh_doc h \<and> (\<exists>b. g' = g\<lparr>g_dl_bytes := b\<rparr>)"
  by (auto simp: header_write_cb_def)

lemma content_write_frame:
  "\<exists>n h' g'. content_write_cb b (h, g) = (n, h', g') \<and> eh_id h' = eh_id h \<and> eh_robots h' = eh_robots h \<and> eh_state h' = eh_state h
    \<and> eh_opts h' = eh_opts h \<and> eh_doc h' = eh_doc h \<and> (\<exists>b. g' = g\<lparr>g_dl_bytes := b\<rparr>)"
  by (auto simp: content_write_cb_def Let_def)

lemma interactive_cmd_inv:
  assumes "classifier_lib (en_lib E)" "crawl_inv E N {} g gh" "interactive_cmd E cmd (out, g) = Inr (out', g')"
  shows "crawl_inv E N {} g' gh"
  using assms g_reschedule_inv crawl_inv_cong [of "g\<lparr>g_quit := True\<rparr>" g E N "{}" gh]
  by (auto simp: interactive_cmd_def Let_def bindR_eq_Inr split: if_splits)

lemma interactive_inv:
  assumes L: "classifier_lib (en_lib E)" and inv: "crawl_inv E N {} g gh" and r: "interactive_process E flush (out, g) = Inr (out', g')"
  shows "crawl_inv E N {} g' gh"
proof (cases "g_interactive_buff g = []")
  case True
  then show ?thesis using r inv by (simp add: interactive_process_def)
next
  case False
  then obtain k s1 out2 g2 where s: "scan_lines (interactive_cmd E) (g_interactive_buff g) 0 (out, g) = Inr (k, s1)"
    and f: "(if flush \<and> k < length (g_interactive_buff g) then interactive_cmd E (drop k (g_interactive_buff g)) s1 else Inr s1) = Inr (out2, g2)"
    and g': "g' = g2\<lparr>g_interactive_buff := drop k (g_interactive_buff g)\<rparr>"
    using r by (auto simp: interactive_process_def Let_def bindR_eq_Inr)
  have "crawl_inv E N {} (snd s1) gh"
    by (rule scan_lines_inv [OF s, where P = "\<lambda>s. crawl_inv E N {} (snd s) gh"])
      (use inv interactive_cmd_inv [OF L] in \<open>auto simp: prod_eq_iff\<close>)
  then have "crawl_inv E N {} g2 gh" using f interactive_cmd_inv [OF L, of N "snd s1" gh _ "fst s1" out2 g2] by (auto split: if_splits)
  then show ?thesis unfolding g' by (subst crawl_inv_cong) simp_all
qed

lemma accept_cb_frame:
  assumes "accept_cb a len name g = Some (Inr g')"
  shows "g_classifier g' = g_classifier g \<and> g_easyHandles g' = g_easyHandles g \<and> g_multi g' = g_multi g \<and> g_user_agent g' = g_user_agent g"
proof -
  obtain x where x: "Accept a 0 = Some x" using assms by (auto simp: accept_cb_def)
  then obtain ok closed cn where "(if ok then Inr (g\<lparr>g_connections := (g_connections g)(cn_fd cn \<mapsto> cn)\<rparr>)
      else bindR (conn_delete closed cn) (\<lambda>_. Inr g)) = Inr g'"
    using assms unfolding accept_cb_def x option.map option.inject bindR_eq_Inr by (auto simp del: if_split_eq1 if_split_eq2)
  then show ?thesis by (auto simp: bindR_eq_Inr split: if_splits)
qed

lemma connection_read_fed:
  assumes "classifier_lib (en_lib E)" "cl_inv (g_classifier g)" "connection_read_cb E fd x g = Inr g'"
  shows "fed E (g_classifier g) (g_classifier g') \<and> g_easyHandles g' = g_easyHandles g \<and> g_multi g' = g_multi g \<and> g_user_agent g' = g_user_agent g"
  using assms(3) process_input_fed [OF assms(1,2)]
  by (auto simp: connection_read_cb_def bindR_eq_Inr split: option.splits read_result.splits)

lemma crawl_event_inv:
  assumes L: "classifier_lib (en_lib E)" and inv: "crawl_inv E N {} g gh" and r: "crawl_event E ev (g, gh) = Inr (g', gh')"
  shows "crawl_inv E N {} g' gh'"
proof (cases ev)
  case (Ev_accept a len name)
  then have "accept_cb a len name g = Some (Inr g')" "gh' = gh" using r by (auto simp: bindR_eq_Inr split: option.splits)
  then show ?thesis using inv accept_cb_frame crawl_inv_cong by metis
next
  case (Ev_read fd x)
  then have "connection_read_cb E fd x g = Inr g'" "gh' = gh" using r by (auto simp: bindR_eq_Inr)
  then have "fed E (g_classifier g) (g_classifier g')" "g_easyHandles g' = g_easyHandles g" "g_multi g' = g_multi g"
    "g_user_agent g' = g_user_agent g" "gh' = gh"
    using connection_read_fed [OF L, of g fd x g'] inv by (simp_all add: crawl_inv_def)
  then show ?thesis using crawl_inv_fed [OF inv] crawl_inv_cong [of g' "g\<lparr>g_classifier := g_classifier g'\<rparr>" E N "{}" gh] by simp
next
  case (Ev_command x)
  have b: "crawl_inv E N {} (g\<lparr>g_interactive_buff := b\<rparr>) gh" for b using inv by (subst crawl_inv_cong) simp_all
  obtain out where o: "on_read_interactive_cb E x ([], g) = Inr (out, g')" "gh' = gh" using r Ev_command by (auto simp: bindR_eq_Inr)
  show ?thesis
  proof (cases x)
    case Read_eof
    then show ?thesis using o interactive_inv [OF L inv] by (simp add: on_read_interactive_cb_def)
  next
    case Read_error
    then show ?thesis using o inv by (simp add: on_read_interactive_cb_def)
  next
    case (Read_data d)
    then show ?thesis using o interactive_inv [OF L b] by (simp add: on_read_interactive_cb_def)
  qed
next
  case Ev_schedule
  then obtain g1 where "g_reschedule E g = Inr g1" "g' = g1\<lparr>g_dl_bytes_prev := g_dl_bytes g1\<rparr>" "gh' = gh"
    using r by (auto simp: scheduler_cb_def bindR_eq_Inr)
  then show ?thesis using g_reschedule_inv [OF L inv] crawl_inv_cong [of g' g1 E N "{}" gh] by simp
next
  case (Ev_header i b)
  then have "i \<in> set (g_multi g)" "on_handle (\<lambda>hg. Inr (snd (header_write_cb b hg))) i g = Inr g'" "gh' = gh"
    using r by (auto simp: bindR_eq_Inr split: if_splits)
  then show ?thesis using write_inv [OF inv, of i "header_write_cb b"] header_write_frame by metis
next
  case (Ev_body i b)
  then have "i \<in> set (g_multi g)" "on_handle (\<lambda>hg. Inr (snd (content_write_cb b hg))) i g = Inr g'" "gh' = gh"
    using r by (auto simp: bindR_eq_Inr split: if_splits)
  then show ?thesis using write_inv [OF inv, of i "content_write_cb b"] content_write_frame by metis
next
  case (Ev_done i t)
  then have "i \<in> set (g_multi g)" "run_msgs E [MSG_DONE i t] g = Inr g'"
    "gh' = gh(i := new_entry E t (g_easyHandles g ! i) (gh i))"
    using r by (auto simp: bindR_eq_Inr split: if_splits simp del: run_msgs.simps)
  then show ?thesis using done_inv [OF L inv] by simp
next
  case (Ev_socket e s what)
  then show ?thesis using r inv crawl_inv_cong [of g' g E N "{}" gh] by (auto simp: sock_cb_def)
next
  case (Ev_timer ms)
  then show ?thesis using r inv crawl_inv_cong [of g' g E N "{}" gh] by (auto simp: multi_timer_cb_def)
next
  case Ev_sigint
  then have "g' = g\<lparr>g_quit := True, g_sigint_cnt := g_sigint_cnt g + 1\<rparr>" "gh' = gh"
    using r by (auto simp: sigint_handler_def Let_def bindR_eq_Inr split: if_splits)
  then show ?thesis using inv crawl_inv_cong [of g' g E N "{}" gh] by simp
qed

lemma crawl_reach_inv: "crawl E db ns N s \<Longrightarrow> classifier_lib (en_lib E) \<Longrightarrow> crawl_inv E N {} (fst s) (snd s)"
  by (induction rule: crawl.induct) (auto simp: crawl_inv_init intro: crawl_event_inv)

section \<open>Properties\<close>

text \<open>
  A run from the start: a client connects and sends a URL, the scheduler takes it up, and the server answers that
  it has no \<^verbatim>\<open>robots.txt\<close>.
\<close>

declare Accept.simps [code]

definition sample_start :: "((string \<times> string) \<Rightarrow> bson option) ginfo \<times> history" where
  "sample_start = (sample_ginfo, Map.empty)"

definition sample_events :: "event list" where
  "sample_events = [Ev_accept (\<lambda>_. Accepted 5) 0 None, Ev_read 5 (Read_data (''http://a/'' @ [CHR 0x0A])), Ev_schedule]"

lemma crawl_foldR: "crawl E db ns N s \<Longrightarrow> foldR (crawl_event E) evs s = Inr s' \<Longrightarrow> crawl E db ns N s'"
  by (induction evs arbitrary: s) (auto simp: bindR_eq_Inr intro: crawl_step)

lemma sample_evaluated:
  "case foldR (crawl_event sample_env) (sample_events @ [Ev_done 0 (sample_transfer 404)]) sample_start of Inl _ \<Rightarrow> False
   | Inr (g, gh) \<Rightarrow> eh_state (g_easyHandles g ! 0) = HEAD \<and> g_multi g = [0] \<and> request (g_easyHandles g ! 0) = Some ''http://a/''
       \<and> map_option fst (gh 0) = Some (Some ''http://a/robots.txt'')"
  by code_simp

lemma sample_reached:
  "\<exists>g gh g' gh'. crawl sample_env Map.empty ''n'' 1 (g, gh) \<and> crawl_event sample_env (Ev_done 0 (sample_transfer 404)) (g, gh) = Inr (g', gh')
    \<and> crawl sample_env Map.empty ''n'' 1 (g', gh') \<and> eh_state (g_easyHandles g' ! 0) = HEAD \<and> g_multi g' = [0]
    \<and> request (g_easyHandles g' ! 0) = Some ''http://a/'' \<and> map_option fst (gh' 0) = Some (Some ''http://a/robots.txt'')"
proof -
  obtain s s' where s: "foldR (crawl_event sample_env) sample_events sample_start = Inr s"
    "crawl_event sample_env (Ev_done 0 (sample_transfer 404)) s = Inr s'"
    "eh_state (g_easyHandles (fst s') ! 0) = HEAD" "g_multi (fst s') = [0]" "request (g_easyHandles (fst s') ! 0) = Some ''http://a/''"
    "map_option fst (snd s' 0) = Some (Some ''http://a/robots.txt'')"
    using sample_evaluated unfolding foldR_append by (auto simp: bindR_eq_Inr split: sum.splits prod.splits simp del: crawl_event.simps)
  have "crawl sample_env Map.empty ''n'' 1 s" using crawl_foldR [OF crawl_init s(1) [unfolded sample_start_def sample_ginfo_def]] .
  note c = this crawl_step [OF this s(2)]
  show ?thesis using c s(2-6) by (metis prod.collapse)
qed

lemma sample_lib: "classifier_lib (en_lib sample_env)"
  using sorted_lib.classifier_lib_axioms by (simp add: sample_env_def)

text \<open>
  C1. The crawler asks for a document only under an entry of \<^verbatim>\<open>robots.txt\<close> that allows it. In every reachable state, a handle that waits for
  the headers or the content of a document has asked curl for the normal form of the URL at the front of its
  queue. The entry it holds was made of the answer to its own request for \<^verbatim>\<open>/robots.txt\<close>, over \<^verbatim>\<open>http\<close>, from the host
  of that normal form; and the entry allows the path, or \<^verbatim>\<open>robots.txt\<close> could not be had or parsed. It asks for the headers
  alone exactly in the state \<^verbatim>\<open>HEAD\<close>. The claim is on the URLs that are handed to curl: where curl follows a redirection on its own,
  no entry is consulted; and on the host of the request, whose port and query are those of a document.
\<close>

theorem crawl_robots_safety:
  assumes "boost_lib (en_boost E)" "classifier_lib (en_lib E)" "crawl E db ns N (g, gh)" "i \<in> set (g_multi g)"
    "eh_state (g_easyHandles g ! i) = HEAD \<or> eh_state (g_easyHandles g ! i) = CONTENT"
  shows "\<exists>front q u ru e. waiting i (g_classifier g) = front # q \<and> url_normalize (en_boost E) front = Inr u
    \<and> request (g_easyHandles g ! i) = Some (url_get u)
    \<and> eh_robots (g_easyHandles g ! i) = Some e \<and> gh i = Some (Some (url_get ru), e)
    \<and> m_scheme ru = ''http'' \<and> get_path ru = ''/robots.txt'' \<and> (m_host front \<noteq> [] \<longrightarrow> m_host ru = m_host u)
    \<and> (tried_but_failed e \<or> estate e = PRESENT \<and> path_allowed (robots.truncate e) (g_user_agent g) (get_path u) = Inr True)
    \<and> (headers_only (g_easyHandles g ! i) \<longleftrightarrow> eh_state (g_easyHandles g ! i) = HEAD)"
proof -
  let ?h = "g_easyHandles g ! i" and ?f = "hd (waiting i (g_classifier g))"
  have inv: "crawl_inv E N {} g gh" using crawl_reach_inv [OF assms(3,2)] by simp
  then have hi: "handle_inv E (g_classifier g) (g_user_agent g) (gh i) ?h" and id: "eh_id ?h = i" and snd: "sound_urls E (g_classifier g)"
    using assms(4) by (auto simp: crawl_inv_def)
  then have f: "front_allowed E (g_classifier g) (g_user_agent g) (gh i) ?h" "asks_front E (g_classifier g) ?h"
    "headers_only ?h \<longleftrightarrow> eh_state ?h = HEAD"
    using assms(5) by (auto simp: handle_inv_def)
  obtain asked e where e: "gh i = Some (asked, e)" "eh_robots ?h = Some e" "waiting i (g_classifier g) \<noteq> []"
    "robots_request E (m_host ?f) asked" "verdict E e (g_user_agent g) ?f = Some Allow"
    by (rule front_allowed_D [OF f(1), unfolded id])
  obtain u where u: "url_normalize (en_boost E) ?f = Inr u" "robots_ok e (g_user_agent g) (get_path u) = Inr True"
    using e(5) by (rule verdict_Allow)
  have "?f \<in># contents (g_classifier g)" by (rule waiting_contents [of _ i]) (use e(3) in simp)
  then have "url_wf ?f" using snd assms(1) by (auto simp: sound_urls_def sound_url_def)
  then obtain ru where ru: "asked = Some (url_get ru)" "m_scheme ru = ''http''" "get_path ru = ''/robots.txt''" "m_host ?f \<noteq> [] \<longrightarrow> m_host ru = m_host u"
    using robots_request_host [OF assms(1) e(4) _ u(1)] by blast
  have "request ?h = Some (url_get u)" using f(2) u(1) id by (auto simp: asks_front_def split: option.splits)
  moreover have "tried_but_failed e \<or> estate e = PRESENT \<and> path_allowed (robots.truncate e) (g_user_agent g) (get_path u) = Inr True"
    using u(2) by (auto simp: robots_ok_def split: if_splits)
  moreover have "waiting i (g_classifier g) = ?f # tl (waiting i (g_classifier g))" using e(3) by simp
  moreover have "gh i = Some (Some (url_get ru), e)" using e(1) ru(1) by simp
  ultimately show ?thesis using u(1) ru(2-4) e(2) f(3) by blast
qed

theorem crawl_robots_safety_witness:
  "\<exists>g gh front u ru e. crawl sample_env Map.empty ''n'' 1 (g, gh) \<and> eh_state (g_easyHandles g ! 0) = HEAD
    \<and> url_normalize boost_ref front = Inr u \<and> url_get u = ''http://a/'' \<and> gh 0 = Some (Some (url_get ru), e)
    \<and> url_get ru = ''http://a/robots.txt'' \<and> get_path ru = ''/robots.txt''"
proof -
  obtain g gh where r: "crawl sample_env Map.empty ''n'' 1 (g, gh)" "eh_state (g_easyHandles g ! 0) = HEAD" "g_multi g = [0]"
    "request (g_easyHandles g ! 0) = Some ''http://a/''" "map_option fst (gh 0) = Some (Some ''http://a/robots.txt'')"
    using sample_reached by blast
  have b: "boost_lib (en_boost sample_env)" "en_boost sample_env = boost_ref" using ref.boost_lib_axioms by (simp_all add: sample_env_def)
  have "0 \<in> set (g_multi g)" using r(3) by simp
  then obtain front q u ru e where "url_normalize boost_ref front = Inr u" "request (g_easyHandles g ! 0) = Some (url_get u)"
    "gh 0 = Some (Some (url_get ru), e)" "get_path ru = ''/robots.txt''"
    using crawl_robots_safety [OF b(1) sample_lib r(1), of 0] r(2) b(2) by auto
  moreover from this have "url_get u = ''http://a/''" "url_get ru = ''http://a/robots.txt''" using r(4,5) by simp_all
  ultimately show ?thesis using r(1,2) by blast
qed

text \<open>
  C2. Every reachable state of the crawler is well formed: there are as many handles as queues, each with its number; the
  classifier keeps its invariant; curl knows a handle once, exactly while the handle is not idle, and can give the
  handle back; no handle is left in the transient state \<^verbatim>\<open>NEXT\<close>; and a handle that works has a URL in its queue.
\<close>

theorem crawl_well_formed:
  assumes "classifier_lib (en_lib E)" "crawl E db ns N (g, gh)"
  shows "length (g_easyHandles g) = N \<and> cl_inv (g_classifier g) \<and> distinct (g_multi g) \<and> set (g_multi g) \<subseteq> {..<N}
    \<and> (\<forall>i<N. let h = g_easyHandles g ! i in
        eh_id h = i \<and> eh_state h \<noteq> NEXT \<and> (i \<in> set (g_multi g) \<longleftrightarrow> eh_state h \<noteq> IDLE)
        \<and> (eh_state h \<noteq> IDLE \<longrightarrow> waiting i (g_classifier g) \<noteq> [] \<and> map_of (eh_opts h) CURLOPT_PRIVATE = Some VThis))"
proof -
  have inv: "crawl_inv E N {} g gh" using crawl_reach_inv [OF assms(2,1)] by simp
  have w: "eh_state (g_easyHandles g ! i) \<noteq> NEXT \<and> (eh_state (g_easyHandles g ! i) \<noteq> IDLE \<longrightarrow> waiting i (g_classifier g) \<noteq> []
    \<and> map_of (eh_opts (g_easyHandles g ! i)) CURLOPT_PRIVATE = Some VThis)" if "i < N" for i
  proof -
    have "handle_inv E (g_classifier g) (g_user_agent g) (gh i) (g_easyHandles g ! i)" "eh_id (g_easyHandles g ! i) = i"
      using inv that by (auto simp: crawl_inv_def)
    then show ?thesis using handle_inv_waiting [of E _ _ _ "g_easyHandles g ! i"] by (auto simp: handle_inv_def)
  qed
  show ?thesis using inv w by (auto simp: crawl_inv_def Let_def)
qed

theorem crawl_well_formed_witness:
  "\<exists>g gh. crawl sample_env Map.empty ''n'' 1 (g, gh) \<and> length (g_easyHandles g) = 1 \<and> g_multi g = [0] \<and> waiting 0 (g_classifier g) \<noteq> []"
proof -
  obtain g gh where r: "crawl sample_env Map.empty ''n'' 1 (g, gh)" "eh_state (g_easyHandles g ! 0) = HEAD" "g_multi g = [0]"
    using sample_reached by blast
  then show ?thesis using crawl_well_formed [OF sample_lib r(1)] by (auto simp: Let_def)
qed

text \<open>
  C3. The handler of finished transfers implements the abstract machine of a handle, under the entry that it decides by: the one made of the
  transfer when \<^verbatim>\<open>robots.txt\<close> was asked for, else the one that the handle had. After \<^verbatim>\<open>robots.txt\<close> it goes on to the first URL of
  its queue that the entry does not refuse, with \<^verbatim>\<open>HEAD\<close> when the entry allows it; after the headers it asks for the content of the
  same URL, or the document is saved and its URL leaves the queue; after the content the document is saved and its URL
  leaves the queue. No URL is asked for that the entry does not allow, and none is passed over that it does not refuse.
\<close>

theorem crawl_refines_machine:
  assumes "classifier_lib (en_lib E)" "crawl E db ns N (g, gh)" "crawl_event E (Ev_done i t) (g, gh) = Inr (g', gh')"
  shows "let h = g_easyHandles g ! i; h' = g_easyHandles g' ! i;
      e = (if eh_state h = ROBOTS then robots_done E t (tr_http_code t) (eh_content_os h) else the (eh_robots h)) in
    eh_robots h' = Some e \<and> hstep (verdict E e (g_user_agent g)) (abs_handle h g) (abs_handle h' g')"
proof -
  have "crawl_inv E N {} g gh" using crawl_reach_inv [OF assms(2,1)] by simp
  then show ?thesis using done_inv [OF assms(1), of N g gh i t g'] assms(3)
    by (auto simp: bindR_eq_Inr decides_by_def Let_def split: if_splits simp del: run_msgs.simps)
qed

theorem crawl_refines_machine_witness:
  "\<exists>g gh g' gh' e. crawl sample_env Map.empty ''n'' 1 (g, gh) \<and> crawl_event sample_env (Ev_done 0 (sample_transfer 404)) (g, gh) = Inr (g', gh')
    \<and> fst (abs_handle (g_easyHandles g' ! 0) g') = HEAD \<and> eh_robots (g_easyHandles g' ! 0) = Some e
    \<and> hstep (verdict sample_env e (g_user_agent g)) (abs_handle (g_easyHandles g ! 0) g) (abs_handle (g_easyHandles g' ! 0) g')"
proof -
  obtain g gh g' gh' where r: "crawl sample_env Map.empty ''n'' 1 (g, gh)" "eh_state (g_easyHandles g' ! 0) = HEAD"
    "crawl_event sample_env (Ev_done 0 (sample_transfer 404)) (g, gh) = Inr (g', gh')" using sample_reached by blast
  moreover have "fst (abs_handle (g_easyHandles g' ! 0) g') = HEAD" using r(2) by (simp add: abs_handle_def)
  ultimately show ?thesis using crawl_refines_machine [OF sample_lib r(1,3)] unfolding Let_def by blast
qed

end
