(* ===== verification/Bencode.thy ===== *)
theory Bencode
  imports Prelude "HOL-Library.List_Lexorder" "HOL-Library.Char_ord"
begin

text \<open>
  The class \<^verbatim>\<open>Bencode\<close> of \<^verbatim>\<open>src/common/bencode.hh\<close> and \<^verbatim>\<open>src/common/bencode.cc\<close>, with the part of \<^verbatim>\<open>std::istream\<close> that its
  reader uses: the text that is left and the bits \<^verbatim>\<open>eofbit\<close> and \<^verbatim>\<open>failbit\<close>. The reader has fuel, and \<open>read_enough_fuel\<close> says how
  much is enough. The properties: a value that is printed is read back, the reader always ends, and a failure
  leaves no value.
\<close>

section \<open>Input streams\<close>

record istream =
  is_rest :: string
  is_eof :: bool
  is_fail :: bool

definition stream :: "string \<Rightarrow> istream" where
  "stream t = \<lparr>is_rest = t, is_eof = False, is_fail = False\<rparr>"

definition good :: "istream \<Rightarrow> bool" where
  "good s \<longleftrightarrow> \<not> is_eof s \<and> \<not> is_fail s"

text \<open>On a stream that is not good, the functions that read set \<^verbatim>\<open>failbit\<close>. \<open>None\<close> is \<^verbatim>\<open>EOF\<close>.\<close>

definition s_peek :: "istream \<Rightarrow> char option \<times> istream" where
  "s_peek s =
     (if \<not> good s then (None, s\<lparr>is_fail := True\<rparr>)
      else case is_rest s of [] \<Rightarrow> (None, s\<lparr>is_eof := True\<rparr>) | c # cs \<Rightarrow> (Some c, s))"

definition s_get :: "istream \<Rightarrow> char option \<times> istream" where
  "s_get s =
     (if \<not> good s then (None, s\<lparr>is_fail := True\<rparr>)
      else case is_rest s of [] \<Rightarrow> (None, s\<lparr>is_eof := True, is_fail := True\<rparr>) | c # cs \<Rightarrow> (Some c, s\<lparr>is_rest := cs\<rparr>))"

text \<open>
  \<^verbatim>\<open>s >> n\<close> for an integer type with the bounds \<open>lo\<close> and \<open>hi\<close>: white space is skipped, then a sign and digits are read;
  with no digit or with a number that does not fit the stream fails.
\<close>

definition s_int :: "int \<Rightarrow> int \<Rightarrow> istream \<Rightarrow> int option \<times> istream" where
  "s_int lo hi s =
     (if \<not> good s then (None, s\<lparr>is_fail := True\<rparr>)
      else
        let t = dropWhile isspace (is_rest s) in
        if t = [] then (None, s\<lparr>is_rest := [], is_eof := True, is_fail := True\<rparr>)
        else
          let neg = (hd t = CHR ''-'');
              t = (if hd t = CHR ''-'' \<or> hd t = CHR ''+'' then tl t else t);
              ds = takeWhile isdigit t;
              r = dropWhile isdigit t;
              v = (if neg then - int (digits_val ds) else int (digits_val ds));
              s = s\<lparr>is_rest := r, is_eof := r = []\<rparr>
          in if ds = [] \<or> v < lo \<or> hi < v then (None, s\<lparr>is_fail := True\<rparr>) else (Some v, s))"

section \<open>Values\<close>

text \<open>A map is the list of its entries by increasing key.\<close>

datatype bencode = B_none | B_value int | B_string string | B_list "bencode list" | B_map "(string \<times> bencode) list"

datatype btype = TYPE_NONE | TYPE_VALUE | TYPE_STRING | TYPE_LIST | TYPE_MAP

definition bencode_of_type :: "btype \<Rightarrow> bencode" where
  "bencode_of_type t =
     (case t of TYPE_NONE \<Rightarrow> B_none | TYPE_VALUE \<Rightarrow> B_value 0 | TYPE_STRING \<Rightarrow> B_string [] | TYPE_LIST \<Rightarrow> B_list [] | TYPE_MAP \<Rightarrow> B_map [])"

definition get_type :: "bencode \<Rightarrow> btype" where
  "get_type b = (case b of B_none \<Rightarrow> TYPE_NONE | B_value _ \<Rightarrow> TYPE_VALUE | B_string _ \<Rightarrow> TYPE_STRING | B_list _ \<Rightarrow> TYPE_LIST | B_map _ \<Rightarrow> TYPE_MAP)"

definition bencode_clear :: "bencode \<Rightarrow> bencode" where
  "bencode_clear b = B_none"

text \<open>
  \<^verbatim>\<open>a = b\<close> for references to objects that are distinct, that are the same, or of which one is a part of the other. For the same
  object, what is copied is what \<^verbatim>\<open>clear\<close> has left; for a part, the copy reads memory that \<^verbatim>\<open>clear\<close> has freed.
\<close>

datatype aliasing = Distinct | Same | Overlapping

definition bencode_assign :: "aliasing \<Rightarrow> bencode \<Rightarrow> bencode \<Rightarrow> bencode res" where
  "bencode_assign al a b =
     (let a = bencode_clear a in case al of Distinct \<Rightarrow> Inr b | Same \<Rightarrow> Inr a | Overlapping \<Rightarrow> Inl Undefined)"

text \<open>\<^verbatim>\<open>(*m_map)[k] = b\<close> and \<^verbatim>\<open>erase\<close>.\<close>

fun map_set :: "string \<Rightarrow> 'a \<Rightarrow> (string \<times> 'a) list \<Rightarrow> (string \<times> 'a) list" where
  "map_set k v [] = [(k, v)]"
| "map_set k v ((k', v') # m) =
     (if k < k' then (k, v) # (k', v') # m else if k = k' then (k, v) # m else (k', v') # map_set k v m)"

definition map_erase :: "string \<Rightarrow> (string \<times> 'a) list \<Rightarrow> (string \<times> 'a) list" where
  "map_erase k m = filter (\<lambda>e. fst e \<noteq> k) m"

definition bencode_at :: "bencode \<Rightarrow> string \<Rightarrow> bencode res" where
  "bencode_at b k = (case b of B_map m \<Rightarrow> (case map_of m k of Some v \<Rightarrow> Inr v | None \<Rightarrow> Inl RuntimeError) | _ \<Rightarrow> Inl RuntimeError)"

definition has_key :: "bencode \<Rightarrow> string \<Rightarrow> bool res" where
  "has_key b k = (case b of B_map m \<Rightarrow> Inr (map_of m k \<noteq> None) | _ \<Rightarrow> Inl RuntimeError)"

text \<open>\<^verbatim>\<open>operator[]\<close> of the map makes an element when there is none; \<open>al\<close> relates that element and the argument.\<close>

definition insert_key :: "aliasing \<Rightarrow> bencode \<Rightarrow> string \<Rightarrow> bencode \<Rightarrow> bencode res" where
  "insert_key al b k v =
     (case b of
        B_map m \<Rightarrow> bindR (bencode_assign al (case map_of m k of Some e \<Rightarrow> e | None \<Rightarrow> B_none) v) (\<lambda>e. Inr (B_map (map_set k e m)))
      | _ \<Rightarrow> Inl RuntimeError)"

definition erase_key :: "bencode \<Rightarrow> string \<Rightarrow> bencode res" where
  "erase_key b k = (case b of B_map m \<Rightarrow> Inr (B_map (map_erase k m)) | _ \<Rightarrow> Inl RuntimeError)"

definition as_value :: "bencode \<Rightarrow> int res" where
  "as_value b = (case b of B_value v \<Rightarrow> Inr v | _ \<Rightarrow> Inl RuntimeError)"

definition as_string :: "bencode \<Rightarrow> string res" where
  "as_string b = (case b of B_string t \<Rightarrow> Inr t | _ \<Rightarrow> Inl RuntimeError)"

definition as_list :: "bencode \<Rightarrow> bencode list res" where
  "as_list b = (case b of B_list l \<Rightarrow> Inr l | _ \<Rightarrow> Inl RuntimeError)"

definition as_map :: "bencode \<Rightarrow> (string \<times> bencode) list res" where
  "as_map b = (case b of B_map m \<Rightarrow> Inr m | _ \<Rightarrow> Inl RuntimeError)"

section \<open>Printing\<close>

fun bencode_print :: "bencode \<Rightarrow> string" where
  "bencode_print B_none = []"
| "bencode_print (B_value v) = ''i'' @ int_digits v @ ''e''"
| "bencode_print (B_string t) = nat_digits (length t) @ '':'' @ t"
| "bencode_print (B_list l) = ''l'' @ concat (map bencode_print l) @ ''e''"
| "bencode_print (B_map m) = ''d'' @ concat (map (\<lambda>(k, v). nat_digits (length k) @ '':'' @ k @ bencode_print v) m) @ ''e''"

section \<open>Reading\<close>

text \<open>
  The loop of \<^verbatim>\<open>read_string\<close>: a character that \<^verbatim>\<open>get\<close> could not read is that of \<^verbatim>\<open>EOF\<close>, and those that are not reached
  are those of \<^verbatim>\<open>resize\<close>. A negative size makes \<^verbatim>\<open>resize\<close> throw \<^verbatim>\<open>length_error\<close>.
\<close>

fun read_chars :: "nat \<Rightarrow> istream \<Rightarrow> string \<times> istream" where
  "read_chars 0 s = ([], s)"
| "read_chars (Suc n) s =
     (if good s
      then let (c, s) = s_get s; (t, s) = read_chars n s in ((case c of Some c \<Rightarrow> c | None \<Rightarrow> CHR 0xFF) # t, s)
      else (replicate (Suc n) (CHR 0x00), s))"

definition read_string :: "istream \<Rightarrow> (string option \<times> istream) res" where
  "read_string s =
     (let (n, s) = s_int (- (2 ^ 31)) (2 ^ 31 - 1) s in
      case n of None \<Rightarrow> Inr (None, s)
      | Some n \<Rightarrow>
          let (c, s) = s_get s in
          if c \<noteq> Some (CHR '':'') then Inr (None, s)
          else if n < 0 then Inl LogicError
          else let (t, s) = read_chars (nat n) s in Inr (if is_fail s then None else Some t, s))"

definition failed :: "istream \<Rightarrow> bencode \<times> istream" where
  "failed s = (B_none, s\<lparr>is_fail := True\<rparr>)"

definition read_value :: "istream \<Rightarrow> bencode \<times> istream" where
  "read_value s =
     (let (v, s) = s_int (- (2 ^ 63)) (2 ^ 63 - 1) s in
      case v of None \<Rightarrow> failed s
      | Some v \<Rightarrow> let (c, s) = s_get s in if c \<noteq> Some (CHR ''e'') then failed s else (B_value v, s))"

definition read_text :: "char \<Rightarrow> istream \<Rightarrow> (bencode \<times> istream) res" where
  "read_text c s =
     (if isdigit c
      then bindR (read_string s) (\<lambda>(r, s). Inr (case r of Some t \<Rightarrow> (B_string t, s) | None \<Rightarrow> failed s))
      else Inr (failed s))"

text \<open>A result that may run out of fuel.\<close>

definition bindF :: "'a res option \<Rightarrow> ('a \<Rightarrow> 'b res option) \<Rightarrow> 'b res option" where
  "bindF m f = (case m of None \<Rightarrow> None | Some (Inl e) \<Rightarrow> Some (Inl e) | Some (Inr x) \<Rightarrow> f x)"

text \<open>\<^verbatim>\<open>operator>>\<close> with its two loops; the flag says that the loop has met the end of the list or of the map.\<close>

fun bencode_read :: "nat \<Rightarrow> istream \<Rightarrow> (bencode \<times> istream) res option"
  and read_list :: "nat \<Rightarrow> bencode list \<Rightarrow> istream \<Rightarrow> (bool \<times> bencode list \<times> istream) res option"
  and read_map :: "nat \<Rightarrow> (string \<times> bencode) list \<Rightarrow> istream \<Rightarrow> (bool \<times> (string \<times> bencode) list \<times> istream) res option" where
  "bencode_read 0 s = None"
| "bencode_read (Suc k) s =
     (let (p, s) = s_peek s in
      case p of None \<Rightarrow> Some (Inr (failed s))
      | Some c \<Rightarrow>
          if c = CHR ''i'' then Some (Inr (read_value (snd (s_get s))))
          else if c = CHR ''l'' then
            bindF (read_list k [] (snd (s_get s))) (\<lambda>(ok, l, s). Some (Inr (if ok then (B_list l, s) else failed s)))
          else if c = CHR ''d'' then
            bindF (read_map k [] (snd (s_get s))) (\<lambda>(ok, m, s). Some (Inr (if ok then (B_map m, s) else failed s)))
          else if c = CHR ''u'' then
            let (p, s) = s_peek (snd (s_get s)) in
            (case p of None \<Rightarrow> Some (Inr (failed s)) | Some c \<Rightarrow> Some (read_text c s))
          else Some (read_text c s))"
| "read_list 0 l s = None"
| "read_list (Suc k) l s =
     (if \<not> good s then Some (Inr (False, l, s))
      else
        let (p, s) = s_peek s in
        if p = Some (CHR ''e'') then Some (Inr (True, l, snd (s_get s)))
        else bindF (bencode_read k s) (\<lambda>(b, s). read_list k (l @ [b]) s))"
| "read_map 0 m s = None"
| "read_map (Suc k) m s =
     (if \<not> good s then Some (Inr (False, m, s))
      else
        let (p, s) = s_peek s in
        if p = Some (CHR ''e'') then Some (Inr (True, m, snd (s_get s)))
        else bindF (Some (read_string s)) (\<lambda>(r, s).
          case r of None \<Rightarrow> Some (Inr (False, m, s))
          | Some key \<Rightarrow> bindF (bencode_read k s) (\<lambda>(b, s). read_map k (map_set key b m) s)))"

section \<open>Well-formed values\<close>

fun bencode_wf :: "bencode \<Rightarrow> bool" where
  "bencode_wf B_none \<longleftrightarrow> False"
| "bencode_wf (B_value v) \<longleftrightarrow> - (2 ^ 63) \<le> v \<and> v < 2 ^ 63"
| "bencode_wf (B_string t) \<longleftrightarrow> length t < 2 ^ 31"
| "bencode_wf (B_list l) \<longleftrightarrow> (\<forall>b \<in> set l. bencode_wf b)"
| "bencode_wf (B_map m) \<longleftrightarrow> sorted_wrt (<) (map fst m) \<and> (\<forall>(k, v) \<in> set m. length k < 2 ^ 31 \<and> bencode_wf v)"

section \<open>Maps\<close>

lemma map_set_keys: "set (map fst (map_set k v m)) = insert k (set (map fst m))"
  by (induction k v m rule: map_set.induct) auto

lemma map_set_entries: "set (map_set k v m) \<subseteq> insert (k, v) (set m)"
  by (induction k v m rule: map_set.induct) auto

lemma map_set_sorted: "sorted_wrt (<) (map fst m) \<Longrightarrow> sorted_wrt (<) (map fst (map_set k v m))"
proof (induction k v m rule: map_set.induct)
  case (2 k v k' v' m)
  have "\<forall>x \<in> set (map_set k v m). fst x = k \<or> fst x \<in> fst ` set m"
    using map_set_keys [of k v m] by (metis image_eqI insertE list.set_map)
  with 2 show ?case by (auto simp: not_less_iff_gr_or_eq) (metis fst_conv image_iff)
qed simp

lemma map_set_lookup: "sorted_wrt (<) (map fst m) \<Longrightarrow> map_of (map_set k v m) = (map_of m)(k \<mapsto> v)"
proof (induction k v m rule: map_set.induct)
  case (2 k v k' v' m)
  then show ?case by (auto simp: fun_eq_iff)
qed simp

lemma map_set_last: "(\<forall>k' \<in> set (map fst m). k' < k) \<Longrightarrow> map_set k v m = m @ [(k, v)]"
  by (induction k v m rule: map_set.induct) auto

lemma map_erase_lookup: "map_of (map_erase k m) = (map_of m)(k := None)"
  by (induction m) (auto simp: map_erase_def fun_eq_iff)

lemma map_erase_sorted: "sorted_wrt (<) (map fst m) \<Longrightarrow> sorted_wrt (<) (map fst (map_erase k m))"
  by (induction m) (auto simp: map_erase_def)

section \<open>Streams\<close>

named_theorems stream_simps \<open>the rules that run a reader on a stream with no bit set\<close>

lemma good_stream [stream_simps]: "good (stream t)"
  by (simp add: good_def stream_def)

lemma good_unfold: "good s \<Longrightarrow> s = stream (is_rest s)"
  by (simp add: good_def stream_def)

lemma rest_stream [stream_simps]: "is_rest (stream t) = t"
  by (simp add: stream_def)

lemma fail_stream [stream_simps]: "\<not> is_fail (stream t)"
  by (simp add: stream_def)

lemma peek_stream [stream_simps]: "s_peek (stream (c # t)) = (Some c, stream (c # t))"
  by (simp add: s_peek_def stream_simps)

lemma get_stream [stream_simps]: "s_get (stream (c # t)) = (Some c, stream t)"
  by (simp add: s_get_def stream_simps) (simp add: stream_def)

lemma int_stream:
  assumes "ds \<noteq> []" and "\<forall>c \<in> set ds. isdigit c" and "\<not> isdigit c"
    and "lo \<le> int (digits_val ds)" and "int (digits_val ds) \<le> hi"
  shows "s_int lo hi (stream (ds @ c # t)) = (Some (int (digits_val ds)), stream (c # t))"
proof -
  from assms(1) obtain d es where ds: "ds = d # es" by (cases ds) auto
  with assms(2) have d: "isdigit d" by simp
  then have "\<not> isspace d" and "d \<noteq> CHR ''-''" and "d \<noteq> CHR ''+''" by (auto simp: ctype_defs)
  moreover have "takeWhile isdigit (ds @ c # t) = ds" using assms(2,3) by (simp add: takeWhile_append2)
  moreover have "dropWhile isdigit (ds @ c # t) = c # t" using assms(2,3) by (simp add: dropWhile_append2)
  ultimately show ?thesis using assms(4,5) d by (simp add: s_int_def stream_simps ds Let_def) (simp add: stream_def)
qed

lemma neg_stream:
  assumes "ds \<noteq> []" and "\<forall>c \<in> set ds. isdigit c" and "\<not> isdigit c"
    and "lo \<le> - int (digits_val ds)" and "- int (digits_val ds) \<le> hi"
  shows "s_int lo hi (stream (CHR ''-'' # ds @ c # t)) = (Some (- int (digits_val ds)), stream (c # t))"
proof -
  have "\<not> isspace (CHR ''-'')" by (simp add: ctype_defs)
  moreover have "takeWhile isdigit (ds @ c # t) = ds" using assms(2,3) by (simp add: takeWhile_append2)
  moreover have "dropWhile isdigit (ds @ c # t) = c # t" using assms(2,3) by (simp add: dropWhile_append2)
  ultimately show ?thesis using assms(1,4,5) by (simp add: s_int_def stream_simps Let_def) (simp add: stream_def)
qed

lemma not_digit: "\<not> isdigit (CHR '':'')" "\<not> isdigit (CHR ''e'')"
  by (simp_all add: ctype_defs)

lemma chars_stream: "read_chars (length t) (stream (t @ u)) = (t, stream u)"
  by (induction t) (simp_all add: stream_simps)

lemma string_stream:
  assumes "length t < 2 ^ 31"
  shows "read_string (stream (nat_digits (length t) @ CHR '':'' # t @ u)) = Inr (Some t, stream u)"
proof -
  have "s_int (- (2 ^ 31)) (2 ^ 31 - 1) (stream (nat_digits (length t) @ CHR '':'' # t @ u)) =
      (Some (int (length t)), stream (CHR '':'' # t @ u))"
    using assms int_stream [of "nat_digits (length t)" "CHR '':''" "- (2 ^ 31)" "2 ^ 31 - 1" "t @ u"]
    by (simp add: nat_digits_digit not_digit)
  then show ?thesis unfolding read_string_def by (simp add: stream_simps chars_stream)
qed

lemma value_stream:
  assumes "- (2 ^ 63) \<le> v" and "v < 2 ^ 63"
  shows "read_value (stream (int_digits v @ CHR ''e'' # t)) = (B_value v, stream t)"
proof -
  have "s_int (- (2 ^ 63)) (2 ^ 63 - 1) (stream (int_digits v @ CHR ''e'' # t)) = (Some v, stream (CHR ''e'' # t))"
  proof (cases "v < 0")
    case True
    then show ?thesis
      using assms neg_stream [of "nat_digits (nat (- v))" "CHR ''e''" "- (2 ^ 63)" "2 ^ 63 - 1" t]
      by (simp add: int_digits_def nat_digits_digit not_digit)
  next
    case False
    then show ?thesis
      using assms int_stream [of "nat_digits (nat v)" "CHR ''e''" "- (2 ^ 63)" "2 ^ 63 - 1" t]
      by (simp add: int_digits_def nat_digits_digit not_digit)
  qed
  then show ?thesis unfolding read_value_def by (simp add: stream_simps)
qed

section \<open>What is printed is read back\<close>

lemma print_nonempty: "bencode_wf b \<Longrightarrow> 0 < length (bencode_print b)"
  by (cases b) simp_all

lemma print_head: "bencode_wf b \<Longrightarrow> \<exists>c cs. bencode_print b = c # cs \<and> c \<noteq> CHR ''e''"
proof (cases b)
  case (B_string t)
  have "\<exists>c cs. nat_digits (length t) = c # cs \<and> isdigit c"
    using nat_digits_digit [of "length t"] nat_digits_nonempty [of "length t"] by (cases "nat_digits (length t)") auto
  then show ?thesis using B_string not_digit by force
qed simp_all

lemma bindF_simps [simp]: "bindF (Some (Inr x)) f = f x" "bindF (Some (Inl e)) f = Some (Inl e)" "bindF None f = None"
  by (simp_all add: bindF_def)

definition entry_print :: "string \<times> bencode \<Rightarrow> string" where
  "entry_print e = nat_digits (length (fst e)) @ '':'' @ fst e @ bencode_print (snd e)"

lemma entry_print_pair: "entry_print (k, v) = nat_digits (length k) @ '':'' @ k @ bencode_print v"
  by (simp add: entry_print_def)

lemma print_map: "bencode_print (B_map m) = ''d'' @ concat (map entry_print m) @ ''e''"
proof -
  have "(\<lambda>(k, v). nat_digits (length k) @ '':'' @ k @ bencode_print v) = entry_print"
    by (auto simp: entry_print_def)
  then show ?thesis by simp
qed

definition reads_back :: "bencode \<Rightarrow> bool" where
  "reads_back b \<longleftrightarrow> (\<forall>k t. length (bencode_print b) \<le> k \<longrightarrow> bencode_read k (stream (bencode_print b @ t)) = Some (Inr (b, stream t)))"

lemma reads_backD: "reads_back b \<Longrightarrow> length (bencode_print b) \<le> k \<Longrightarrow> bencode_read k (stream (bencode_print b @ t)) = Some (Inr (b, stream t))"
  by (simp add: reads_back_def)

lemma list_reads_back:
  assumes "\<forall>b \<in> set l. bencode_wf b \<and> reads_back b" and "length (concat (map bencode_print l)) < k"
  shows "read_list k l' (stream (concat (map bencode_print l) @ CHR ''e'' # t)) = Some (Inr (True, l' @ l, stream t))"
  using assms
proof (induction l arbitrary: k l')
  case Nil
  then obtain j where "k = Suc j" by (cases k) auto
  then show ?case by (simp add: stream_simps)
next
  case (Cons b l)
  obtain j where k: "k = Suc j" using Cons.prems(2) by (cases k) auto
  obtain c cs where b: "bencode_print b = c # cs" "c \<noteq> CHR ''e''" using Cons.prems(1) print_head [of b] by auto
  let ?t = "concat (map bencode_print l) @ CHR ''e'' # t"
  have "bencode_read j (stream (bencode_print b @ ?t)) = Some (Inr (b, stream ?t))"
    using Cons.prems k by (intro reads_backD) auto
  moreover have "read_list j (l' @ [b]) (stream ?t) = Some (Inr (True, (l' @ [b]) @ l, stream t))"
    using Cons.prems k b by (intro Cons.IH) auto
  ultimately show ?case using b by (simp add: k stream_simps)
qed

lemma map_reads_back:
  assumes "\<forall>(k, b) \<in> set m. length k < 2 ^ 31 \<and> bencode_wf b \<and> reads_back b"
    and "length (concat (map entry_print m)) < k" and "sorted_wrt (<) (map fst (m' @ m))"
  shows "read_map k m' (stream (concat (map entry_print m) @ CHR ''e'' # t)) = Some (Inr (True, m' @ m, stream t))"
  using assms
proof (induction m arbitrary: k m')
  case Nil
  then obtain j where "k = Suc j" by (cases k) auto
  then show ?case by (simp add: stream_simps)
next
  case (Cons e m)
  obtain x b where e: "e = (x, b)" by (cases e)
  obtain j where k: "k = Suc j" using Cons.prems(2) by (cases k) auto
  let ?t = "concat (map entry_print m) @ CHR ''e'' # t"
  obtain c cs where x: "nat_digits (length x) = c # cs" "c \<noteq> CHR ''e''"
    using nat_digits_digit [of "length x"] not_digit by (cases "nat_digits (length x)") auto
  have "read_string (stream (nat_digits (length x) @ CHR '':'' # x @ bencode_print b @ ?t)) = Inr (Some x, stream (bencode_print b @ ?t))"
    using Cons.prems(1) e by (intro string_stream) auto
  moreover have "bencode_read j (stream (bencode_print b @ ?t)) = Some (Inr (b, stream ?t))"
    using Cons.prems(1,2) k e by (intro reads_backD) (auto simp: entry_print_pair)
  moreover have "map_set x b m' = m' @ [(x, b)]"
    using Cons.prems(3) e by (intro map_set_last) (auto simp: sorted_wrt_append)
  moreover have "read_map j (m' @ [(x, b)]) (stream ?t) = Some (Inr (True, (m' @ [(x, b)]) @ m, stream t))"
    using Cons.prems k e by (intro Cons.IH) (auto simp: entry_print_pair)
  ultimately show ?case using x by (simp add: k e entry_print_pair stream_simps)
qed

lemma wf_reads_back: "bencode_wf b \<Longrightarrow> reads_back b"
proof (induction b rule: bencode_wf.induct)
  case (2 v)
  have "bencode_read (Suc j) (stream (bencode_print (B_value v) @ t)) = Some (Inr (B_value v, stream t))" for j t
    using 2 by (simp add: stream_simps value_stream)
  then show ?case unfolding reads_back_def by (metis Suc_le_D bencode_print.simps(2) append_Cons length_Cons)
next
  case (3 x)
  have len: "length x < 2 ^ 31" using 3 by simp
  obtain c cs where x: "nat_digits (length x) = c # cs" "isdigit c"
    using nat_digits_digit [of "length x"] by (cases "nat_digits (length x)") auto
  then have "c \<noteq> CHR ''i''" "c \<noteq> CHR ''l''" "c \<noteq> CHR ''d''" "c \<noteq> CHR ''u''" by (auto simp: ctype_defs)
  then have "bencode_read (Suc j) (stream (bencode_print (B_string x) @ t)) = Some (Inr (B_string x, stream t))" for j t
    using x string_stream [OF len, of t] by (simp add: stream_simps read_text_def bindR_def)
  moreover have "\<exists>j. k = Suc j" if "length (bencode_print (B_string x)) \<le> k" for k
    using that by (cases k) auto
  ultimately show ?case unfolding reads_back_def by blast
next
  case (4 l)
  have "bencode_read k (stream (bencode_print (B_list l) @ t)) = Some (Inr (B_list l, stream t))"
    if "length (bencode_print (B_list l)) \<le> k" for k t
  proof -
    from that have "k \<noteq> 0" by auto
    then obtain j where k: "k = Suc j" by (cases k) auto
    have "read_list j [] (stream (concat (map bencode_print l) @ CHR ''e'' # t)) = Some (Inr (True, [] @ l, stream t))"
      using 4 that k by (intro list_reads_back) auto
    then show ?thesis by (simp add: k stream_simps)
  qed
  then show ?case by (simp add: reads_back_def)
next
  case (5 m)
  have "bencode_read k (stream (bencode_print (B_map m) @ t)) = Some (Inr (B_map m, stream t))"
    if "length (bencode_print (B_map m)) \<le> k" for k t
  proof -
    from that have "k \<noteq> 0" by auto
    then obtain j where k: "k = Suc j" by (cases k) auto
    have "read_map j [] (stream (concat (map entry_print m) @ CHR ''e'' # t)) = Some (Inr (True, [] @ m, stream t))"
      using 5 that k by (intro map_reads_back) (auto simp: print_map simp del: bencode_print.simps)
    then show ?thesis by (simp add: k stream_simps print_map del: bencode_print.simps)
  qed
  then show ?case by (simp add: reads_back_def)
qed simp

section \<open>The equations of the reader\<close>

abbreviation left :: "istream \<Rightarrow> nat" where
  "left s \<equiv> length (is_rest s)"

abbreviation ended :: istream where
  "ended \<equiv> \<lparr>is_rest = [], is_eof = True, is_fail = True\<rparr>"

lemma stream_cases:
  obtains (bad) "\<not> good s" | (nil) "s = stream []" | (cons) c t where "s = stream (c # t)"
  using good_unfold [of s] by (cases "good s"; cases "is_rest s") auto

lemma read_bad: "\<not> good s \<Longrightarrow> bencode_read (Suc k) s = Some (Inr (B_none, s\<lparr>is_fail := True\<rparr>))"
  by (simp add: s_peek_def failed_def)

lemma read_nil: "bencode_read (Suc k) (stream []) = Some (Inr (B_none, ended))"
  by (simp add: s_peek_def good_def stream_def failed_def)

definition of_list :: "bool \<times> bencode list \<times> istream \<Rightarrow> (bencode \<times> istream) res option" where
  "of_list r = (case r of (ok, l, s) \<Rightarrow> Some (Inr (if ok then (B_list l, s) else failed s)))"

definition of_map :: "bool \<times> (string \<times> bencode) list \<times> istream \<Rightarrow> (bencode \<times> istream) res option" where
  "of_map r = (case r of (ok, m, s) \<Rightarrow> Some (Inr (if ok then (B_map m, s) else failed s)))"

lemma read_cons:
  "bencode_read (Suc k) (stream (c # t)) =
     (if c = CHR ''i'' then Some (Inr (read_value (stream t)))
      else if c = CHR ''l'' then bindF (read_list k [] (stream t)) of_list
      else if c = CHR ''d'' then bindF (read_map k [] (stream t)) of_map
      else if c = CHR ''u'' then (if t = [] then Some (Inr (B_none, ended)) else Some (read_text (hd t) (stream t)))
      else Some (read_text c (stream (c # t))))"
proof -
  have "s_peek (stream t) = (if t = [] then (None, (stream [])\<lparr>is_eof := True\<rparr>) else (Some (hd t), stream t))"
    by (cases t) (simp_all add: stream_simps s_peek_def)
  then show ?thesis
    by (simp add: stream_simps of_list_def [abs_def] of_map_def [abs_def]) (simp add: failed_def stream_def)
qed

lemma list_bad: "\<not> good s \<Longrightarrow> read_list (Suc k) l s = Some (Inr (False, l, s))"
  by simp

lemma list_nil: "read_list (Suc k) l (stream []) = bindF (bencode_read k ((stream [])\<lparr>is_eof := True\<rparr>)) (\<lambda>(b, s). read_list k (l @ [b]) s)"
  by (simp add: stream_simps s_peek_def)

lemma list_cons:
  "read_list (Suc k) l (stream (c # t)) =
     (if c = CHR ''e'' then Some (Inr (True, l, stream t))
      else bindF (bencode_read k (stream (c # t))) (\<lambda>(b, s). read_list k (l @ [b]) s))"
  by (simp add: stream_simps)

lemma map_bad: "\<not> good s \<Longrightarrow> read_map (Suc k) m s = Some (Inr (False, m, s))"
  by simp

lemma map_nil: "read_map (Suc k) m (stream []) = Some (Inr (False, m, ended))"
  by (simp add: stream_simps s_peek_def read_string_def s_int_def good_def) (simp add: stream_def)

definition read_entry :: "nat \<Rightarrow> (string \<times> bencode) list \<Rightarrow> string option \<times> istream \<Rightarrow> (bool \<times> (string \<times> bencode) list \<times> istream) res option" where
  "read_entry k m r =
     (case r of (None, s) \<Rightarrow> Some (Inr (False, m, s))
      | (Some x, s) \<Rightarrow> bindF (bencode_read k s) (\<lambda>(b, s). read_map k (map_set x b m) s))"

lemma map_cons:
  "read_map (Suc k) m (stream (c # t)) =
     (if c = CHR ''e'' then Some (Inr (True, m, stream t))
      else bindF (Some (read_string (stream (c # t)))) (read_entry k m))"
  by (auto simp: stream_simps read_entry_def [abs_def] intro!: arg_cong [where f = "bindF _"] split: option.splits)

declare bencode_read.simps(2) [simp del] read_list.simps(2) [simp del] read_map.simps(2) [simp del]

section \<open>Fuel\<close>

lemma bindF_Some: "bindF m f = Some r \<longleftrightarrow> (\<exists>e. m = Some (Inl e) \<and> r = Inl e) \<or> (\<exists>x. m = Some (Inr x) \<and> f x = Some r)"
  by (auto simp: bindF_def split: option.splits sum.splits)

lemma read_mono_step:
  "(\<forall>s r. bencode_read k s = Some r \<longrightarrow> bencode_read (Suc k) s = Some r) \<and>
   (\<forall>l s r. read_list k l s = Some r \<longrightarrow> read_list (Suc k) l s = Some r) \<and>
   (\<forall>m s r. read_map k m s = Some r \<longrightarrow> read_map (Suc k) m s = Some r)"
proof (induction k)
  case (Suc k)
  have IH: "bencode_read k s = Some r \<Longrightarrow> bencode_read (Suc k) s = Some r"
    "read_list k l s = Some r' \<Longrightarrow> read_list (Suc k) l s = Some r'"
    "read_map k m s = Some r'' \<Longrightarrow> read_map (Suc k) m s = Some r''" for s r l r' m r''
    using Suc by blast+
  have entry: "read_entry k m x = Some r \<Longrightarrow> read_entry (Suc k) m x = Some r" for m x r
    by (cases x) (auto simp: read_entry_def bindF_Some dest!: IH split: option.splits prod.splits)
  have "bencode_read (Suc k) s = Some r \<Longrightarrow> bencode_read (Suc (Suc k)) s = Some r" for s r
    by (cases s rule: stream_cases) (auto simp: read_bad read_nil read_cons bindF_Some dest!: IH split: if_splits)
  moreover have "read_list (Suc k) l s = Some r \<Longrightarrow> read_list (Suc (Suc k)) l s = Some r" for l s r
    by (cases s rule: stream_cases) (auto simp: list_bad list_nil list_cons bindF_Some dest!: IH split: if_splits)
  moreover have "read_map (Suc k) m s = Some r \<Longrightarrow> read_map (Suc (Suc k)) m s = Some r" for m s r
    by (cases s rule: stream_cases) (auto simp: map_bad map_nil map_cons bindF_Some dest!: entry split: if_splits)
  ultimately show ?case by blast
qed simp

lemma read_mono:
  assumes "bencode_read k s = Some r" and "k \<le> j"
  shows "bencode_read j s = Some r"
  using assms(2,1) by (induction rule: dec_induct) (use read_mono_step in blast)+

section \<open>What a reader consumes and returns\<close>

lemma get_left: "s_get s = (c, s') \<Longrightarrow> left s' \<le> left s \<and> (c \<noteq> None \<longrightarrow> left s' < left s \<and> good s')"
  by (auto simp: s_get_def good_def split: if_splits list.splits)

lemma int_left: "s_int lo hi s = (v, s') \<Longrightarrow> left s' \<le> left s"
  using length_dropWhile_le [of isspace "is_rest s"]
  by (auto simp: s_int_def Let_def split: if_splits intro!: order_trans [OF length_dropWhile_le] diff_le_self [THEN order_trans])

lemma int_range: "s_int lo hi s = (Some v, s') \<Longrightarrow> lo \<le> v \<and> v \<le> hi"
  by (auto simp: s_int_def Let_def split: if_splits)

lemma chars_left: "read_chars n s = (t, s') \<Longrightarrow> left s' \<le> left s \<and> length t = n"
proof (induction n arbitrary: s t)
  case (Suc n)
  show ?case
  proof (cases "good s")
    case True
    obtain c s1 where c: "s_get s = (c, s1)" by fastforce
    obtain t1 s2 where t1: "read_chars n s1 = (t1, s2)" by fastforce
    from Suc.prems True c t1 have s2: "s2 = s'" and t: "length t = Suc (length t1)" by auto
    from Suc.IH [OF t1 [unfolded s2]] get_left [OF c] t show ?thesis by simp
  next
    case False
    with Suc.prems show ?thesis by auto
  qed
qed simp

lemma string_left:
  assumes "read_string s = Inr (r, s')"
  shows "left s' \<le> left s" and "r = Some t \<Longrightarrow> left s' < left s \<and> \<not> is_fail s' \<and> length t < 2 ^ 31"
proof -
  obtain n s1 where n: "s_int (- (2 ^ 31)) (2 ^ 31 - 1) s = (n, s1)" by fastforce
  obtain c s2 where c: "s_get s1 = (c, s2)" by fastforce
  obtain u s3 where u: "read_chars (nat (the n)) s2 = (u, s3)" by fastforce
  note left = int_left [OF n] get_left [OF c] chars_left [OF u]
  have eq: "read_string s =
      (case n of None \<Rightarrow> Inr (None, s1)
       | Some v \<Rightarrow> if c \<noteq> Some (CHR '':'') then Inr (None, s2) else if v < 0 then Inl LogicError
                   else Inr (if is_fail s3 then None else Some u, s3))"
    using u unfolding read_string_def n Let_def prod.case c by (auto split: option.split)
  show "left s' \<le> left s"
    using assms left unfolding eq by (auto split: option.splits if_splits)
  show "left s' < left s \<and> \<not> is_fail s' \<and> length t < 2 ^ 31" if t: "r = Some t"
  proof -
    from assms t obtain v where v: "n = Some v" "c \<noteq> None" "s' = s3" "\<not> is_fail s3" "t = u"
      unfolding eq by (cases n) (auto split: if_splits)
    have "v \<le> 2 ^ 31 - 1" using int_range n v(1) by blast
    then have "nat v < 2 ^ 31" by simp
    moreover have "left s' < left s" using left v by auto
    ultimately show ?thesis using left(3) v by simp
  qed
qed

text \<open>The result of one value: a stream that has failed and no value, or a good value, for which a stream that is good has lost a character.\<close>

definition read_result :: "istream \<Rightarrow> bencode \<times> istream \<Rightarrow> bool" where
  "read_result s r \<longleftrightarrow>
     left (snd r) \<le> left s \<and> (if is_fail (snd r) then fst r = B_none else bencode_wf (fst r) \<and> left (snd r) < left s)"

lemma failed_result: "left s' \<le> left s \<Longrightarrow> read_result s (failed s')"
  by (simp add: read_result_def failed_def)

lemma value_result: "read_result s (read_value s)"
proof -
  obtain v s1 where v: "s_int (- (2 ^ 63)) (2 ^ 63 - 1) s = (v, s1)" by fastforce
  obtain c s2 where c: "s_get s1 = (c, s2)" by fastforce
  note left = int_left [OF v] get_left [OF c]
  have eq: "read_value s = (case v of None \<Rightarrow> failed s1 | Some w \<Rightarrow> if c \<noteq> Some (CHR ''e'') then failed s2 else (B_value w, s2))"
    unfolding read_value_def v Let_def prod.case c by (auto split: option.split)
  show ?thesis
  proof (cases "v = None \<or> c \<noteq> Some (CHR ''e'')")
    case True
    then have "read_value s = failed s1 \<or> read_value s = failed s2" unfolding eq by (auto split: option.split)
    then show ?thesis using left failed_result [of s1 s] failed_result [of s2 s] by fastforce
  next
    case False
    then obtain w where w: "v = Some w" "c = Some (CHR ''e'')" by auto
    have "- (2 ^ 63) \<le> w \<and> w \<le> 2 ^ 63 - 1" using int_range v w(1) by blast
    with w left show ?thesis by (simp add: eq read_result_def good_def)
  qed
qed

lemma text_result: "read_text c s = Inr r \<Longrightarrow> read_result s r"
proof -
  assume r: "read_text c s = Inr r"
  show ?thesis
  proof (cases "isdigit c \<and> (\<exists>x. read_string s = Inr x)")
    case True
    then obtain x s1 where x: "read_string s = Inr (x, s1)" by fastforce
    with r True string_left [OF x] show ?thesis
      by (auto simp: read_text_def bindR_def read_result_def failed_def split: option.splits)
  next
    case False
    with r show ?thesis
      by (auto simp: read_text_def bindR_def read_result_def failed_def split: sum.splits if_splits)
  qed
qed

lemma read_result_mono: "read_result s r \<Longrightarrow> left s \<le> left s' \<Longrightarrow> read_result s' r"
  by (auto simp: read_result_def split: if_splits)

definition entries_wf :: "(string \<times> bencode) list \<Rightarrow> bool" where
  "entries_wf m \<longleftrightarrow> bencode_wf (B_map m)"

lemma entries_wf_set: "entries_wf m \<Longrightarrow> length k < 2 ^ 31 \<Longrightarrow> bencode_wf b \<Longrightarrow> entries_wf (map_set k b m)"
  using map_set_entries [of k b m] map_set_sorted [of m k b] by (auto simp: entries_wf_def)

text \<open>The result of a loop, for \<open>P\<close> what holds of the values that are in the list or in the map while the stream is good.\<close>

definition loop_result :: "('a \<Rightarrow> bool) \<Rightarrow> 'a \<Rightarrow> istream \<Rightarrow> bool \<times> 'a \<times> istream \<Rightarrow> bool" where
  "loop_result P x s r \<longleftrightarrow>
     (case r of (ok, x', s') \<Rightarrow> left s' \<le> left s \<and> (ok \<longrightarrow> (good s \<longrightarrow> P x) \<longrightarrow> good s' \<and> P x'))"

lemma loop_step:
  assumes "loop_result P x' s' r" and "left s' \<le> left s" and "good s" and "good s' \<Longrightarrow> P x \<Longrightarrow> P x'"
  shows "loop_result P x s r"
  using assms by (auto simp: loop_result_def split: prod.splits)

lemma loop_end: "loop_result P x s (False, x', s') \<longleftrightarrow> left s' \<le> left s"
  by (simp add: loop_result_def)

lemma loop_last: "loop_result P x (stream (c # t)) (True, x, stream t)"
  by (simp add: loop_result_def stream_simps)

abbreviation list_result :: "bencode list \<Rightarrow> istream \<Rightarrow> bool \<times> bencode list \<times> istream \<Rightarrow> bool" where
  "list_result \<equiv> loop_result (list_all bencode_wf)"

abbreviation map_result :: "(string \<times> bencode) list \<Rightarrow> istream \<Rightarrow> bool \<times> (string \<times> bencode) list \<times> istream \<Rightarrow> bool" where
  "map_result \<equiv> loop_result entries_wf"

lemma of_list_result:
  assumes "list_result [] (stream t) x" and "of_list x = Some (Inr r)"
  shows "read_result (stream (c # t)) r"
proof -
  obtain ok l s where "x = (ok, l, s)" by (cases x)
  with assms show ?thesis
    by (cases ok) (auto simp: of_list_def loop_result_def read_result_def failed_def good_def list_all_iff rest_stream)
qed

lemma of_map_result:
  assumes "map_result [] (stream t) x" and "of_map x = Some (Inr r)"
  shows "read_result (stream (c # t)) r"
proof -
  obtain ok m s where "x = (ok, m, s)" by (cases x)
  moreover have "entries_wf []" by (simp add: entries_wf_def)
  ultimately show ?thesis using assms
    by (cases ok) (auto simp: of_map_def loop_result_def read_result_def failed_def good_def entries_wf_def rest_stream)
qed

lemma read_result_cons:
  assumes L: "\<And>x. read_list k [] (stream t) = Some (Inr x) \<Longrightarrow> list_result [] (stream t) x"
    and M: "\<And>x. read_map k [] (stream t) = Some (Inr x) \<Longrightarrow> map_result [] (stream t) x"
    and r: "bencode_read (Suc k) (stream (c # t)) = Some (Inr r)"
  shows "read_result (stream (c # t)) r"
proof -
  have mono: "read_result (stream t) r \<Longrightarrow> read_result (stream (c # t)) r" for r
    by (erule read_result_mono) (simp add: rest_stream)
  consider "r = read_value (stream t)" | x where "read_list k [] (stream t) = Some (Inr x)" "of_list x = Some (Inr r)"
    | x where "read_map k [] (stream t) = Some (Inr x)" "of_map x = Some (Inr r)" | "r = (B_none, ended)"
    | "read_text (hd t) (stream t) = Inr r" | "read_text c (stream (c # t)) = Inr r"
    using r unfolding read_cons by (auto simp: bindF_Some split: if_splits)
  then show ?thesis
  proof cases
    case 1
    then show ?thesis using mono value_result by blast
  next
    case (2 x)
    then show ?thesis using L of_list_result by blast
  next
    case (3 x)
    then show ?thesis using M of_map_result by blast
  next
    case 4
    then show ?thesis by (simp add: read_result_def)
  next
    case 5
    then show ?thesis using mono text_result by blast
  next
    case 6
    then show ?thesis by (rule text_result)
  qed
qed

lemma list_result_step:
  assumes "read_result s0 (b, s1)" and "left s0 = left s" and "good s" and "list_result (l @ [b]) s1 x"
  shows "list_result l s x"
  using assms(4) by (rule loop_step) (use assms(1-3) in \<open>auto simp: read_result_def good_def\<close>)

lemma entry_result:
  assumes R: "\<And>s r. bencode_read k s = Some (Inr r) \<Longrightarrow> read_result s r"
    and M: "\<And>m s x. read_map k m s = Some (Inr x) \<Longrightarrow> map_result m s x"
    and s: "read_string s = Inr y" "good s" and x: "read_entry k m y = Some (Inr x)"
  shows "map_result m s x"
proof -
  obtain o1 s1 where y: "y = (o1, s1)" by (cases y)
  note left = string_left [OF s(1) [unfolded y]]
  show ?thesis
  proof (cases o1)
    case None
    with x y left show ?thesis by (auto simp: read_entry_def loop_end)
  next
    case (Some key)
    with x y obtain b s2 where b: "bencode_read k s1 = Some (Inr (b, s2))" and x': "read_map k (map_set key b m) s2 = Some (Inr x)"
      by (auto simp: read_entry_def bindF_Some)
    note key = left(2) [OF Some]
    from M [OF x'] show ?thesis
      by (rule loop_step) (use R [OF b] key s(2) in \<open>auto simp: read_result_def good_def intro: entries_wf_set split: if_splits\<close>)
  qed
qed

lemma list_turn:
  assumes "read_list (Suc k) l s = Some (Inr x)"
  obtains (stop) "x = (False, l, s)" | (last) c t where "s = stream (c # t)" "x = (True, l, stream t)"
    | (more) s0 b s1 where "good s" "left s0 = left s" "bencode_read k s0 = Some (Inr (b, s1))" "read_list k (l @ [b]) s1 = Some (Inr x)"
proof (cases s rule: stream_cases)
  case bad
  then show ?thesis using assms stop by (simp add: list_bad)
next
  case nil
  then show ?thesis using assms more [of "(stream [])\<lparr>is_eof := True\<rparr>"] unfolding nil list_nil by (auto simp: bindF_Some good_stream)
next
  case (cons c t)
  then show ?thesis using assms last more [of s] unfolding cons list_cons
    by (auto simp: bindF_Some good_stream split: if_splits)
qed

lemma map_turn:
  assumes "read_map (Suc k) m s = Some (Inr x)"
  obtains (stop) "x = (False, m, s)" | (cut) "x = (False, m, ended)" | (last) c t where "s = stream (c # t)" "x = (True, m, stream t)"
    | (more) y where "good s" "read_string s = Inr y" "read_entry k m y = Some (Inr x)"
proof (cases s rule: stream_cases)
  case bad
  then show ?thesis using assms stop by (simp add: map_bad)
next
  case nil
  then show ?thesis using assms cut by (simp add: map_nil)
next
  case (cons c t)
  then show ?thesis using assms last more unfolding cons map_cons
    by (auto simp: bindF_Some good_stream split: if_splits)
qed

lemma read_result_step:
  "(\<forall>s r. bencode_read k s = Some (Inr r) \<longrightarrow> read_result s r) \<and>
   (\<forall>l s x. read_list k l s = Some (Inr x) \<longrightarrow> list_result l s x) \<and>
   (\<forall>m s x. read_map k m s = Some (Inr x) \<longrightarrow> map_result m s x)"
proof (induction k)
  case (Suc k)
  then have R: "\<And>s r. bencode_read k s = Some (Inr r) \<Longrightarrow> read_result s r"
    and L: "\<And>l s x. read_list k l s = Some (Inr x) \<Longrightarrow> list_result l s x"
    and M: "\<And>m s x. read_map k m s = Some (Inr x) \<Longrightarrow> map_result m s x" by blast+
  have "read_result s r" if "bencode_read (Suc k) s = Some (Inr r)" for s r
  proof (cases s rule: stream_cases)
    case (cons c t)
    with that show ?thesis using read_result_cons [OF L M] by blast
  qed (use that in \<open>auto simp: read_bad read_nil read_result_def\<close>)
  moreover have "list_result l s x" if x: "read_list (Suc k) l s = Some (Inr x)" for l s x
    using x by (cases rule: list_turn)
      (auto simp: loop_end loop_last intro: list_result_step dest!: R L)
  moreover have "map_result m s x" if x: "read_map (Suc k) m s = Some (Inr x)" for m s x
    using x by (cases rule: map_turn)
      (auto simp: loop_end loop_last intro: entry_result [OF R M])
  ultimately show ?case by blast
qed simp

section \<open>The reader ends\<close>

lemma bindF_total: "m \<noteq> None \<Longrightarrow> (\<And>x. m = Some (Inr x) \<Longrightarrow> f x \<noteq> None) \<Longrightarrow> bindF m f \<noteq> None"
  by (auto simp: bindF_def split: option.splits sum.splits)

text \<open>The fuel that a loop needs.\<close>

definition loop_fuel :: "istream \<Rightarrow> nat" where
  "loop_fuel s = (if good s then 2 * left s + 2 else 1)"

lemma loop_fuel_after:
  assumes "read_result s0 (b, s1)" and "left s0 \<le> left s" and "good s" and "loop_fuel s \<le> Suc k"
  shows "loop_fuel s1 \<le> k"
  using assms by (auto simp: loop_fuel_def read_result_def good_def split: if_splits)

lemma of_total: "of_list x \<noteq> None" "of_map y \<noteq> None"
  by (simp_all add: of_list_def of_map_def split: prod.split)

lemma list_body_total:
  assumes R: "\<And>s. 2 * left s + 1 \<le> k \<Longrightarrow> bencode_read k s \<noteq> None"
    and L: "\<And>l s. loop_fuel s \<le> k \<Longrightarrow> read_list k l s \<noteq> None"
    and s: "left s0 = left s" "good s" "loop_fuel s \<le> Suc k"
  shows "bindF (bencode_read k s0) (\<lambda>(b, s). read_list k (l @ [b]) s) \<noteq> None"
proof (rule bindF_total)
  show "bencode_read k s0 \<noteq> None" using s by (intro R) (simp add: loop_fuel_def)
  show "(case x of (b, s) \<Rightarrow> read_list k (l @ [b]) s) \<noteq> None" if x: "bencode_read k s0 = Some (Inr x)" for x
  proof (cases x)
    case (Pair b s1)
    then have "read_result s0 (b, s1)" using x read_result_step by blast
    then have "loop_fuel s1 \<le> k" by (rule loop_fuel_after [where s = s]) (use s in simp_all)
    then show ?thesis using L Pair by (simp del: not_None_eq)
  qed
qed

lemma entry_total:
  assumes R: "\<And>s. 2 * left s + 1 \<le> k \<Longrightarrow> bencode_read k s \<noteq> None"
    and M: "\<And>m s. loop_fuel s \<le> k \<Longrightarrow> read_map k m s \<noteq> None"
    and s: "read_string s = Inr (o1, s1)" "good s" "loop_fuel s \<le> Suc k"
  shows "read_entry k m (o1, s1) \<noteq> None"
proof -
  note le = string_left(1) [OF s(1)]
  have "bindF (bencode_read k s1) (\<lambda>(b, s). read_map k (map_set key b m) s) \<noteq> None" for key
  proof (rule bindF_total)
    show "bencode_read k s1 \<noteq> None" using s le by (intro R) (simp add: loop_fuel_def)
    show "(case x of (b, s) \<Rightarrow> read_map k (map_set key b m) s) \<noteq> None" if x: "bencode_read k s1 = Some (Inr x)" for x
    proof (cases x)
      case (Pair b s2)
      then have "read_result s1 (b, s2)" using x read_result_step by blast
      then have "loop_fuel s2 \<le> k" by (rule loop_fuel_after [where s = s]) (use s le in simp_all)
      then show ?thesis using M Pair by (simp del: not_None_eq)
    qed
  qed
  then show ?thesis unfolding read_entry_def prod.case by (simp split: option.split)
qed

lemma read_total_step:
  "(\<forall>s. 2 * left s + 1 \<le> k \<longrightarrow> bencode_read k s \<noteq> None) \<and>
   (\<forall>l s. loop_fuel s \<le> k \<longrightarrow> read_list k l s \<noteq> None) \<and>
   (\<forall>m s. loop_fuel s \<le> k \<longrightarrow> read_map k m s \<noteq> None)"
proof (induction k)
  case 0
  then show ?case by (simp add: loop_fuel_def)
next
  case (Suc k)
  then have R: "\<And>s. 2 * left s + 1 \<le> k \<Longrightarrow> bencode_read k s \<noteq> None"
    and L: "\<And>l s. loop_fuel s \<le> k \<Longrightarrow> read_list k l s \<noteq> None"
    and M: "\<And>m s. loop_fuel s \<le> k \<Longrightarrow> read_map k m s \<noteq> None" by blast+
  have "bencode_read (Suc k) s \<noteq> None" if "2 * left s + 1 \<le> Suc k" for s
  proof (cases s rule: stream_cases)
    case (cons c t)
    have "loop_fuel (stream t) \<le> k" using that by (simp add: cons loop_fuel_def stream_simps)
    then have "bindF (read_list k [] (stream t)) of_list \<noteq> None" "bindF (read_map k [] (stream t)) of_map \<noteq> None"
      by (intro bindF_total L M of_total; assumption)+
    then show ?thesis unfolding cons read_cons by simp
  qed (simp_all add: read_bad read_nil)
  moreover have "read_list (Suc k) l s \<noteq> None" if fuel: "loop_fuel s \<le> Suc k" for l s
  proof (cases s rule: stream_cases)
    case nil
    then show ?thesis using list_body_total [OF R L, of "(stream [])\<lparr>is_eof := True\<rparr>" s l] fuel
      unfolding nil list_nil by (simp add: good_stream)
  next
    case (cons c t)
    then show ?thesis using list_body_total [OF R L, of s s l] fuel unfolding cons list_cons by (simp add: good_stream)
  qed (simp add: list_bad)
  moreover have "read_map (Suc k) m s \<noteq> None" if fuel: "loop_fuel s \<le> Suc k" for m s
  proof (cases s rule: stream_cases)
    case (cons c t)
    have "read_entry k m y \<noteq> None" if "read_string s = Inr y" for y
      using entry_total [OF R M, of s "fst y" "snd y" m] that fuel by (simp add: cons good_stream)
    then have "bindF (Some (read_string s)) (read_entry k m) \<noteq> None" by (intro bindF_total) simp_all
    then show ?thesis unfolding cons map_cons by simp
  qed (simp_all add: map_bad map_nil)
  ultimately show ?case by blast
qed

section \<open>The properties\<close>

text \<open>C36. A well-formed value that \<^verbatim>\<open>operator<<\<close> has written, followed by any text, is what \<^verbatim>\<open>operator>>\<close> reads, and the text is left.\<close>

theorem bencode_roundtrip:
  assumes "bencode_wf b" and "length (bencode_print b) \<le> k"
  shows "bencode_read k (stream (bencode_print b @ t)) = Some (Inr (b, stream t))"
  using wf_reads_back [OF assms(1)] assms(2) by (rule reads_backD)

definition sample_bencode :: bencode where
  "sample_bencode = B_map [(''a'', B_list [B_value (- 7), B_string ''x:'']), (''b'', B_map [])]"

theorem bencode_roundtrip_witness:
  "bencode_print sample_bencode = ''d1:ali-7e2:x:e1:bdee'' \<and>
   bencode_read 20 (stream ''d1:ali-7e2:x:e1:bdeetail'') = Some (Inr (sample_bencode, stream ''tail''))"
proof -
  have p: "bencode_print sample_bencode = ''d1:ali-7e2:x:e1:bdee''" by code_simp
  have "bencode_wf sample_bencode" by (simp add: sample_bencode_def less_char_def)
  then have "bencode_read 20 (stream (bencode_print sample_bencode @ ''tail'')) = Some (Inr (sample_bencode, stream ''tail''))"
    by (rule bencode_roundtrip) (simp add: p)
  then show ?thesis by (simp add: p)
qed

text \<open>C37. \<^verbatim>\<open>operator>>\<close> ends on every input: with two units of fuel for every character and one more there is a result, and more fuel does not change it.\<close>

theorem bencode_read_ends: "\<exists>r. \<forall>k \<ge> 2 * length (is_rest s) + 1. bencode_read k s = Some r"
  using read_total_step [of "2 * left s + 1"] read_mono [of "2 * left s + 1" s] by blast

theorem bencode_read_ends_witness: "\<exists>r. bencode_read 7 (stream ''lle'') = Some r"
  using bencode_read_ends [of "stream ''lle''"] by (force simp: stream_def)

text \<open>
  C38. What \<^verbatim>\<open>operator>>\<close> leaves: either the stream has failed and the value is \<^verbatim>\<open>TYPE_NONE\<close>, or the value is well formed: its numbers
  are 64-bit ones, its maps have their keys in order, no string is longer than an \<^verbatim>\<open>int\<close> can say, and nothing in it is \<^verbatim>\<open>TYPE_NONE\<close>.
\<close>

theorem bencode_read_wf:
  assumes "bencode_read k s = Some (Inr (b, s'))"
  shows "if is_fail s' then get_type b = TYPE_NONE else bencode_wf b"
proof -
  have "read_result s (b, s')" using assms read_result_step by blast
  then show ?thesis by (auto simp: read_result_def get_type_def)
qed

theorem bencode_read_wf_witness:
  "bencode_read 9 (stream ''d1:bi2e1:ai1ee'') = Some (Inr (B_map [(''a'', B_value 1), (''b'', B_value 2)], stream [])) \<and>
   bencode_wf (B_map [(''a'', B_value 1), (''b'', B_value 2)])"
proof -
  have r: "bencode_read 9 (stream ''d1:bi2e1:ai1ee'') = Some (Inr (B_map [(''a'', B_value 1), (''b'', B_value 2)], stream []))"
    by code_simp
  from bencode_read_wf [OF r] r show ?thesis by (simp add: stream_simps)
qed

text \<open>
  \<^verbatim>\<open>insert_key\<close> of a value that is no part of the map, and \<^verbatim>\<open>erase_key\<close>, keep a map well formed; \<^verbatim>\<open>operator[]\<close> and \<^verbatim>\<open>has_key\<close> see only the
  key that was inserted or erased change.
\<close>

lemma insert_key_laws:
  assumes "bencode_wf (B_map m)" and "length k < 2 ^ 31" and "bencode_wf v"
  shows "\<exists>a. insert_key Distinct (B_map m) k v = Inr a \<and> bencode_wf a
    \<and> (\<forall>j. bencode_at a j = (if j = k then Inr v else bencode_at (B_map m) j))"
proof (intro exI conjI allI)
  have sorted: "sorted_wrt (<) (map fst m)" using assms(1) by simp
  show "insert_key Distinct (B_map m) k v = Inr (B_map (map_set k v m))" by (simp add: insert_key_def bencode_assign_def)
  show "bencode_wf (B_map (map_set k v m))" using entries_wf_set [of m k v] assms unfolding entries_wf_def by blast
  show "bencode_at (B_map (map_set k v m)) j = (if j = k then Inr v else bencode_at (B_map m) j)" for j
    by (simp add: bencode_at_def map_set_lookup [OF sorted])
qed

lemma erase_key_laws:
  assumes "bencode_wf (B_map m)"
  shows "\<exists>e. erase_key (B_map m) k = Inr e \<and> bencode_wf e
    \<and> (\<forall>j. has_key e j = (if j = k then Inr False else has_key (B_map m) j))"
proof (intro exI conjI allI)
  have sorted: "sorted_wrt (<) (map fst m)" using assms(1) by simp
  show "erase_key (B_map m) k = Inr (B_map (map_erase k m))" by (simp add: erase_key_def)
  show "bencode_wf (B_map (map_erase k m))"
    using assms(1) map_erase_sorted [OF sorted, of k] by (auto simp: map_erase_def)
  show "has_key (B_map (map_erase k m)) j = (if j = k then Inr False else has_key (B_map m) j)" for j
    by (simp add: has_key_def map_erase_lookup)
qed

section \<open>What the code does not do\<close>

text \<open>A key with a negative size makes the reader throw \<^verbatim>\<open>length_error\<close>, where every other malformed input sets \<^verbatim>\<open>failbit\<close>.\<close>

lemma negative_key_throws: "bencode_read 4 (stream ''d-1:'') = Some (Inl LogicError)"
  by code_simp

text \<open>\<^verbatim>\<open>a = a\<close> loses the value, and so does inserting an element of a map under its own key.\<close>

lemma assign_self_loses: "bencode_assign Same b b = Inr B_none"
  by (simp add: bencode_assign_def bencode_clear_def)

lemma insert_own_loses: "map_of m k = Some e \<Longrightarrow> insert_key Same (B_map m) k e = Inr (B_map (map_set k B_none m))"
  by (simp add: insert_key_def assign_self_loses)

end
