(* ===== verification/Entity.thy ===== *)
theory Entity
  imports Boost Hex Text_Sniff
begin

text \<open>
  Character references of HTML: the class \<^verbatim>\<open>Entity_handler\<close> of \<^verbatim>\<open>src/html_lexer/Entity_handler.hh\<close> and
  \<^verbatim>\<open>src/html_lexer/Entity_handler.cc\<close> with \<^verbatim>\<open>cp2utf8\<close> of \<^verbatim>\<open>src/html_lexer/Unicode_wrap.cc\<close>. The properties of characters and the converter
  are those of the ICU library, a parameter. The properties: a numeric reference stands for the character of its
  number, and text whose special characters are written as references is read back.
\<close>

section \<open>Characters\<close>

text \<open>What ICU is asked: whether a code point is assigned, whether the converter opens, and the bytes it gives for a code point.\<close>

record icu =
  u_isdefined :: "int \<Rightarrow> bool"
  ucnv_opens :: bool
  ucnv_utf8 :: "int \<Rightarrow> string option"

definition cp2utf8 :: "icu \<Rightarrow> int \<Rightarrow> string res" where
  "cp2utf8 U c =
     (if \<not> u_isdefined U c then Inr []
      else if \<not> ucnv_opens U then Inl RuntimeError
      else case ucnv_utf8 U c of Some s \<Rightarrow> Inr s | None \<Rightarrow> Inl RuntimeError)"

section \<open>The table\<close>

text \<open>The entities of HTML for markup and Latin-1, those for symbols and letters, and those in capitals that are no part of the standard.\<close>

definition charent_latin1 :: "(string \<times> int) list" where
  "charent_latin1 =
     [(''quot'', 0x0022), (''amp'', 0x0026), (''apos'', 0x0027), (''lt'', 0x003c), (''gt'', 0x003e), (''nbsp'', 0x00a0),
      (''iexcl'', 0x00a1), (''cent'', 0x00a2), (''pound'', 0x00a3), (''curren'', 0x00a4), (''yen'', 0x00a5),
      (''brvbar'', 0x00a6), (''sect'', 0x00a7), (''uml'', 0x00a8), (''copy'', 0x00a9), (''ordf'', 0x00aa), (''laquo'', 0x00ab),
      (''not'', 0x00ac), (''shy'', 0x00ad), (''reg'', 0x00ae), (''macr'', 0x00af), (''deg'', 0x00b0), (''plusmn'', 0x00b1),
      (''sup2'', 0x00b2), (''sup3'', 0x00b3), (''acute'', 0x00b4), (''micro'', 0x00b5), (''para'', 0x00b6), (''middot'', 0x00b7),
      (''cedil'', 0x00b8), (''sup1'', 0x00b9), (''ordm'', 0x00ba), (''raquo'', 0x00bb), (''frac14'', 0x00bc),
      (''frac12'', 0x00bd), (''frac34'', 0x00be), (''iquest'', 0x00bf), (''Agrave'', 0x00c0), (''Aacute'', 0x00c1),
      (''Acirc'', 0x00c2), (''Atilde'', 0x00c3), (''Auml'', 0x00c4), (''Aring'', 0x00c5), (''AElig'', 0x00c6),
      (''Ccedil'', 0x00c7), (''Egrave'', 0x00c8), (''Eacute'', 0x00c9), (''Ecirc'', 0x00ca), (''Euml'', 0x00cb),
      (''Igrave'', 0x00cc), (''Iacute'', 0x00cd), (''Icirc'', 0x00ce), (''Iuml'', 0x00cf), (''ETH'', 0x00d0),
      (''Ntilde'', 0x00d1), (''Ograve'', 0x00d2), (''Oacute'', 0x00d3), (''Ocirc'', 0x00d4), (''Otilde'', 0x00d5),
      (''Ouml'', 0x00d6), (''times'', 0x00d7), (''Oslash'', 0x00d8), (''Ugrave'', 0x00d9), (''Uacute'', 0x00da),
      (''Ucirc'', 0x00db), (''Uuml'', 0x00dc), (''Yacute'', 0x00dd), (''THORN'', 0x00de), (''szlig'', 0x00df),
      (''agrave'', 0x00e0), (''aacute'', 0x00e1), (''acirc'', 0x00e2), (''atilde'', 0x00e3), (''auml'', 0x00e4),
      (''aring'', 0x00e5), (''aelig'', 0x00e6), (''ccedil'', 0x00e7), (''egrave'', 0x00e8), (''eacute'', 0x00e9),
      (''ecirc'', 0x00ea), (''euml'', 0x00eb), (''igrave'', 0x00ec), (''iacute'', 0x00ed), (''icirc'', 0x00ee),
      (''iuml'', 0x00ef), (''eth'', 0x00f0), (''ntilde'', 0x00f1), (''ograve'', 0x00f2), (''oacute'', 0x00f3),
      (''ocirc'', 0x00f4), (''otilde'', 0x00f5), (''ouml'', 0x00f6), (''divide'', 0x00f7), (''oslash'', 0x00f8),
      (''ugrave'', 0x00f9), (''uacute'', 0x00fa), (''ucirc'', 0x00fb), (''uuml'', 0x00fc), (''yacute'', 0x00fd),
      (''thorn'', 0x00fe), (''yuml'', 0x00ff)]"

definition charent_symbols :: "(string \<times> int) list" where
  "charent_symbols =
     [(''OElig'', 0x0152), (''oelig'', 0x0153), (''Scaron'', 0x0160), (''scaron'', 0x0161), (''Yuml'', 0x0178),
      (''fnof'', 0x0192), (''circ'', 0x02c6), (''tilde'', 0x02dc), (''Alpha'', 0x0391), (''Beta'', 0x0392), (''Gamma'', 0x0393),
      (''Delta'', 0x0394), (''Epsilon'', 0x0395), (''Zeta'', 0x0396), (''Eta'', 0x0397), (''Theta'', 0x0398), (''Iota'', 0x0399),
      (''Kappa'', 0x039a), (''Lambda'', 0x039b), (''Mu'', 0x039c), (''Nu'', 0x039d), (''Xi'', 0x039e), (''Omicron'', 0x039f),
      (''Pi'', 0x03a0), (''Rho'', 0x03a1), (''Sigma'', 0x03a3), (''Tau'', 0x03a4), (''Upsilon'', 0x03a5), (''Phi'', 0x03a6),
      (''Chi'', 0x03a7), (''Psi'', 0x03a8), (''Omega'', 0x03a9), (''alpha'', 0x03b1), (''beta'', 0x03b2), (''gamma'', 0x03b3),
      (''delta'', 0x03b4), (''epsilon'', 0x03b5), (''zeta'', 0x03b6), (''eta'', 0x03b7), (''theta'', 0x03b8), (''iota'', 0x03b9),
      (''kappa'', 0x03ba), (''lambda'', 0x03bb), (''mu'', 0x03bc), (''nu'', 0x03bd), (''xi'', 0x03be), (''omicron'', 0x03bf),
      (''pi'', 0x03c0), (''rho'', 0x03c1), (''sigmaf'', 0x03c2), (''sigma'', 0x03c3), (''tau'', 0x03c4), (''upsilon'', 0x03c5),
      (''phi'', 0x03c6), (''chi'', 0x03c7), (''psi'', 0x03c8), (''omega'', 0x03c9), (''thetasym'', 0x03d1), (''upsih'', 0x03d2),
      (''piv'', 0x03d6), (''ensp'', 0x2002), (''emsp'', 0x2003), (''thinsp'', 0x2009), (''zwnj'', 0x200c), (''zwj'', 0x200d),
      (''lrm'', 0x200e), (''rlm'', 0x200f), (''ndash'', 0x2013), (''mdash'', 0x2014), (''lsquo'', 0x2018), (''rsquo'', 0x2019),
      (''sbquo'', 0x201a), (''ldquo'', 0x201c), (''rdquo'', 0x201d), (''bdquo'', 0x201e), (''dagger'', 0x2020),
      (''Dagger'', 0x2021), (''bull'', 0x2022), (''hellip'', 0x2026), (''permil'', 0x2030), (''prime'', 0x2032),
      (''Prime'', 0x2033), (''lsaquo'', 0x2039), (''rsaquo'', 0x203a), (''oline'', 0x203e), (''frasl'', 0x2044),
      (''euro'', 0x20ac), (''image'', 0x2111), (''weierp'', 0x2118), (''real'', 0x211c), (''trade'', 0x2122),
      (''alefsym'', 0x2135), (''larr'', 0x2190), (''uarr'', 0x2191), (''rarr'', 0x2192), (''darr'', 0x2193), (''harr'', 0x2194),
      (''crarr'', 0x21b5), (''lArr'', 0x21d0), (''uArr'', 0x21d1), (''rArr'', 0x21d2), (''dArr'', 0x21d3), (''hArr'', 0x21d4),
      (''forall'', 0x2200), (''part'', 0x2202), (''exist'', 0x2203), (''empty'', 0x2205), (''nabla'', 0x2207),
      (''isin'', 0x2208), (''notin'', 0x2209), (''ni'', 0x220b), (''prod'', 0x220f), (''sum'', 0x2211), (''minus'', 0x2212),
      (''lowast'', 0x2217), (''radic'', 0x221a), (''prop'', 0x221d), (''infin'', 0x221e), (''ang'', 0x2220), (''and'', 0x2227),
      (''or'', 0x2228), (''cap'', 0x2229), (''cup'', 0x222a), (''int'', 0x222b), (''there4'', 0x2234), (''sim'', 0x223c),
      (''cong'', 0x2245), (''asymp'', 0x2248), (''ne'', 0x2260), (''equiv'', 0x2261), (''le'', 0x2264), (''ge'', 0x2265),
      (''sub'', 0x2282), (''sup'', 0x2283), (''nsub'', 0x2284), (''sube'', 0x2286), (''supe'', 0x2287), (''oplus'', 0x2295),
      (''otimes'', 0x2297), (''perp'', 0x22a5), (''sdot'', 0x22c5), (''lceil'', 0x2308), (''rceil'', 0x2309),
      (''lfloor'', 0x230a), (''rfloor'', 0x230b), (''lang'', 0x2329), (''rang'', 0x232a), (''loz'', 0x25ca),
      (''spades'', 0x2660), (''clubs'', 0x2663), (''hearts'', 0x2665), (''diams'', 0x2666)]"

definition charent_nonstandard :: "(string \<times> int) list" where
  "charent_nonstandard =
     [(''QUOT'', 0x0022), (''AMP'', 0x0026), (''COPY'', 0x00a9), (''GT'', 0x003e), (''LT'', 0x003c), (''REG'', 0x00ae)]"

definition charent_points :: "(string \<times> int) list" where
  "charent_points = charent_latin1 @ charent_symbols @ charent_nonstandard"

text \<open>The constructor: \<^verbatim>\<open>insert\<close> keeps the first entry of a key.\<close>

type_synonym entity_handler = "(string \<times> string) list"

fun charent_insert :: "icu \<Rightarrow> (string \<times> int) list \<Rightarrow> entity_handler \<Rightarrow> entity_handler res" where
  "charent_insert U [] h = Inr h"
| "charent_insert U ((n, c) # es) h =
     bindR (cp2utf8 U c) (\<lambda>s. charent_insert U es (if map_of h n = None then h @ [(n, s)] else h))"

definition entity_handler_init :: "icu \<Rightarrow> entity_handler res" where
  "entity_handler_init U = charent_insert U charent_points []"

section \<open>References\<close>

definition char_entity :: "entity_handler \<Rightarrow> string \<Rightarrow> string" where
  "char_entity h str = (case map_of h str of Some s \<Rightarrow> s | None \<Rightarrow> [])"

definition UCHAR_MAX_VALUE :: int where
  "UCHAR_MAX_VALUE = 0x10ffff"

text \<open>The handlers leave the empty result.\<close>

definition caught :: "string res \<Rightarrow> string res" where
  "caught r = (case r of Inl e \<Rightarrow> if is_runtime_error e \<or> e = LogicError \<or> e = OutOfRange then Inr [] else Inl e | Inr s \<Rightarrow> Inr s)"

text \<open>\<^verbatim>\<open>int\<close> has 32 bits, and an overflow is undefined.\<close>

fun times_ten :: "nat \<Rightarrow> int \<Rightarrow> int res" where
  "times_ten 0 v = Inr v"
| "times_ten (Suc n) v = (if v * 10 > 2 ^ 31 - 1 then Inl Undefined else times_ten n (v * 10))"

text \<open>The loop runs from the last digit; \<open>None\<close> is the return with an empty result.\<close>

fun dec_loop :: "string \<Rightarrow> nat \<Rightarrow> int \<Rightarrow> int option res" where
  "dec_loop [] pos num = Inr (Some num)"
| "dec_loop (c # cs) pos num =
     (if \<not> isdigit c then Inr None
      else bindR (times_ten pos (int (byte c) - 48)) (\<lambda>v.
        if num + v > 2 ^ 31 - 1 then Inl Undefined
        else if num + v > UCHAR_MAX_VALUE then Inr None
        else dec_loop cs (Suc pos) (num + v)))"

definition numchar :: "icu \<Rightarrow> int option \<Rightarrow> string res" where
  "numchar U r = (case r of None \<Rightarrow> Inr [] | Some num \<Rightarrow> if num \<le> UCHAR_MAX_VALUE \<and> num \<ge> 0 then cp2utf8 U num else Inr [])"

definition dec_numchar_ref :: "icu \<Rightarrow> string \<Rightarrow> string res" where
  "dec_numchar_ref U str = caught (bindR (dec_loop (rev str) 0 0) (numchar U))"

text \<open>\<^verbatim>\<open><<\<close> shifts the bits of an \<^verbatim>\<open>int\<close>, so the highest digit can make it negative; a shift by 32 is undefined.\<close>

definition int32 :: "int \<Rightarrow> int" where
  "int32 v = (v + 2 ^ 31) mod 2 ^ 32 - 2 ^ 31"

fun hex_loop :: "string \<Rightarrow> nat \<Rightarrow> int \<Rightarrow> int option res" where
  "hex_loop [] pos num = Inr (Some num)"
| "hex_loop (c # cs) pos num =
     bindR (xdigit_to_num c) (\<lambda>d.
       if 4 * pos \<ge> 32 then Inl Undefined
       else
         let num = num + int32 (int d * 2 ^ (4 * pos)) in
         if num > UCHAR_MAX_VALUE then Inr None else hex_loop cs (Suc pos) num)"

definition hex_numchar_ref :: "icu \<Rightarrow> string \<Rightarrow> string res" where
  "hex_numchar_ref U str = caught (bindR (hex_loop (rev str) 0 0) (numchar U))"

section \<open>Replacement\<close>

definition CHAR_ENTITY_RE :: regex where
  "CHAR_ENTITY_RE = Seq (Lit ''&'') (Seq (Grp 1 (Seq (Cls (\<lambda>c. isalpha c \<or> c \<in> set ''_:''))
     (Star (Cls (\<lambda>c. isalnum c \<or> c \<in> set ''_.:-''))))) (Lit '';''))"

definition DEC_REF_RE :: regex where
  "DEC_REF_RE = Seq (Lit ''&#'') (Seq (Grp 1 (Plus (Cls isdigit))) (Lit '';''))"

definition HEX_REF_RE :: regex where
  "HEX_REF_RE = Seq (Lit ''&#x'') (Seq (Grp 1 (Plus (Cls isxdigit))) (Lit '';''))"

text \<open>
  The loop of the three functions. Every match of the patterns has an ampersand, so it is shorter at every turn (\<open>replace_refs_progress\<close>);
  with an empty match the string would grow until \<^verbatim>\<open>append\<close> throws \<^verbatim>\<open>length_error\<close>.
\<close>

function replace_refs :: "boost \<Rightarrow> regex \<Rightarrow> (string \<Rightarrow> string res) \<Rightarrow> string \<Rightarrow> string res" where
  "replace_refs B re f str =
     (case regex_search B re str of
        None \<Rightarrow> Inr str
      | Some (pre, m, rest, sub) \<Rightarrow>
          if length rest < length str
          then bindR (f (case sub 1 of Some entity \<Rightarrow> entity | None \<Rightarrow> [])) (\<lambda>x.
                 bindR (replace_refs B re f rest) (\<lambda>t. Inr (pre @ x @ t)))
          else Inl LogicError)"
  by pat_completeness auto
termination by (relation "measure (\<lambda>(B, re, f, str). length str)") auto

declare replace_refs.simps [simp del]

definition replace_char_entities :: "boost \<Rightarrow> entity_handler \<Rightarrow> string \<Rightarrow> string res" where
  "replace_char_entities B h str = replace_refs B CHAR_ENTITY_RE (\<lambda>entity. Inr (char_entity h entity)) str"

definition replace_dec_numchar_ref :: "boost \<Rightarrow> icu \<Rightarrow> string \<Rightarrow> string res" where
  "replace_dec_numchar_ref B U str = replace_refs B DEC_REF_RE (dec_numchar_ref U) str"

definition replace_hex_numchar_ref :: "boost \<Rightarrow> icu \<Rightarrow> string \<Rightarrow> string res" where
  "replace_hex_numchar_ref B U str = replace_refs B HEX_REF_RE (hex_numchar_ref U) str"

definition replace_all_entities :: "boost \<Rightarrow> icu \<Rightarrow> entity_handler \<Rightarrow> string \<Rightarrow> string res" where
  "replace_all_entities B U h str =
     bindR (replace_char_entities B h str) (\<lambda>r. bindR (replace_dec_numchar_ref B U r) (replace_hex_numchar_ref B U))"

section \<open>The library\<close>

definition utf8_chars :: "int \<Rightarrow> string" where
  "utf8_chars c = map (\<lambda>b. char_of (unat b)) (utf8_encode (nat c))"

text \<open>The code points that UTF-8 encodes: those up to \<^verbatim>\<open>UCHAR_MAX_VALUE\<close> but the surrogates.\<close>

definition scalar_value :: "int \<Rightarrow> bool" where
  "scalar_value c \<longleftrightarrow> 0 \<le> c \<and> c \<le> UCHAR_MAX_VALUE \<and> \<not> (0xD800 \<le> c \<and> c \<le> 0xDFFF)"

text \<open>What the program relies on: the converter encodes, and the characters of ASCII and those that HTML names are assigned.\<close>

locale icu_lib =
  fixes U :: icu
  assumes opens: "ucnv_opens U"
    and converts: "scalar_value c \<Longrightarrow> ucnv_utf8 U c = Some (utf8_chars c)"
    and ascii_defined: "0 \<le> c \<Longrightarrow> c < 128 \<Longrightarrow> u_isdefined U c"
    and named_defined: "c \<in> set (map snd charent_points) \<Longrightarrow> u_isdefined U c"
begin

lemma cp2utf8_scalar: "u_isdefined U c \<Longrightarrow> scalar_value c \<Longrightarrow> cp2utf8 U c = Inr (utf8_chars c)"
  by (simp add: cp2utf8_def opens converts)

end

definition icu_ref :: icu where
  "icu_ref = \<lparr>u_isdefined = scalar_value, ucnv_opens = True, ucnv_utf8 = (\<lambda>c. Some (utf8_chars c))\<rparr>"

lemma points_scalar: "list_all (\<lambda>e. scalar_value (snd e)) charent_points"
  by code_simp

lemma point_scalar: "(n, c) \<in> set charent_points \<Longrightarrow> scalar_value c"
  using points_scalar by (auto simp: list_all_iff)

interpretation ref_icu: icu_lib icu_ref
proof
  show "u_isdefined icu_ref c" if "c \<in> set (map snd charent_points)" for c
    using that point_scalar by (auto simp: icu_ref_def)
qed (simp_all add: icu_ref_def scalar_value_def UCHAR_MAX_VALUE_def)

lemma utf8_chars_ascii: "n < 128 \<Longrightarrow> utf8_chars (int n) = [char_of n]"
  by (simp add: utf8_chars_def utf8_encode_def unat_word_ariths take_bit_nat_eq_self unat_of_nat)

section \<open>The constructor\<close>

context icu_lib
begin

lemma charent_insert_ok:
  assumes "set es \<subseteq> set charent_points"
  shows "\<exists>h'. charent_insert U es h = Inr h' \<and>
           (\<forall>n. map_of h' n = (case map_of h n of Some s \<Rightarrow> Some s | None \<Rightarrow> map_option utf8_chars (map_of es n)))"
  using assms
proof (induction es arbitrary: h)
  case (Cons e es)
  obtain n c where e: "e = (n, c)" by (cases e)
  with Cons.prems have c: "(n, c) \<in> set charent_points" by simp
  have "cp2utf8 U c = Inr (utf8_chars c)"
    using cp2utf8_scalar named_defined point_scalar c by force
  moreover obtain h' where "charent_insert U es (if map_of h n = None then h @ [(n, utf8_chars c)] else h) = Inr h'"
    "\<forall>k. map_of h' k = (case map_of (if map_of h n = None then h @ [(n, utf8_chars c)] else h) k of Some s \<Rightarrow> Some s
       | None \<Rightarrow> map_option utf8_chars (map_of es k))"
    using Cons.IH [of "if map_of h n = None then h @ [(n, utf8_chars c)] else h"] Cons.prems by auto
  ultimately show ?case by (auto simp: e map_add_def split: option.splits)
qed (simp split: option.split)

lemma entity_handler_ok:
  obtains h where "entity_handler_init U = Inr h" and "\<And>n. char_entity h n = (case map_of charent_points n of Some c \<Rightarrow> utf8_chars c | None \<Rightarrow> [])"
proof -
  obtain h where "entity_handler_init U = Inr h" "\<forall>n. map_of h n = map_option utf8_chars (map_of charent_points n)"
    using charent_insert_ok [of charent_points "[]"] by (auto simp: entity_handler_init_def)
  then show thesis by (intro that) (auto simp: char_entity_def split: option.splits)
qed

end

section \<open>Numbers\<close>

lemma times_ten_eq: "0 \<le> v \<Longrightarrow> times_ten n v = (if v = 0 \<or> v * 10 ^ n \<le> 2 ^ 31 - 1 then Inr (v * 10 ^ n) else Inl Undefined) \<or> v > 2 ^ 31 - 1"
proof (induction n arbitrary: v)
  case (Suc n)
  have "v * 10 \<le> v * 10 ^ Suc n" using Suc.prems by (intro mult_left_mono) auto
  then show ?case using Suc.IH [of "v * 10"] Suc.prems by (auto simp: mult.assoc)
qed auto

fun dec_le :: "string \<Rightarrow> int" where
  "dec_le [] = 0"
| "dec_le (c # cs) = int (byte c) - 48 + 10 * dec_le cs"

lemma dec_le_rev: "\<forall>c \<in> set ds. isdigit c \<Longrightarrow> dec_le (rev ds) = int (digits_val ds)"
  by (induction ds rule: rev_induct) (auto simp: ctype_defs digits_val_def)

lemma dec_le_nonneg: "\<forall>c \<in> set ds. isdigit c \<Longrightarrow> 0 \<le> dec_le ds"
  by (induction ds) (auto simp: ctype_defs)

lemma digit_place:
  assumes "0 \<le> d" and "d \<le> 9" and "d * 10 ^ pos < 3 * 10 ^ 9"
  shows "d * 10 ^ pos \<le> (2 * 10 ^ 9 :: int)"
proof (cases "d = 0 \<or> pos \<le> 8")
  case True
  moreover have "d * 10 ^ pos \<le> 9 * 10 ^ 8" if "pos \<le> 8"
    using assms that by (intro mult_mono power_increasing) auto
  ultimately show ?thesis by auto
next
  case False
  then have "(10::int) ^ 9 \<le> 10 ^ pos" by (intro power_increasing) auto
  moreover have "pos = 9"
  proof (rule ccontr)
    assume "pos \<noteq> 9"
    with False have "(10000000000::int) \<le> 10 ^ pos" using power_increasing [of 10 pos "10::int"] by simp
    moreover have "1 * 10 ^ pos \<le> d * 10 ^ pos" using assms False by (intro mult_right_mono) auto
    moreover have "d * 10 ^ pos < 3000000000" using assms(3) by simp
    ultimately show False by linarith
  qed
  ultimately show ?thesis using assms by simp
qed

lemma dec_loop_eq:
  assumes "\<forall>c \<in> set cs. isdigit c" and "0 \<le> num" and "num \<le> UCHAR_MAX_VALUE" and "num + 10 ^ pos * dec_le cs < 3 * 10 ^ 9"
  shows "dec_loop cs pos num = Inr (if num + 10 ^ pos * dec_le cs \<le> UCHAR_MAX_VALUE then Some (num + 10 ^ pos * dec_le cs) else None)"
  using assms
proof (induction cs arbitrary: pos num)
  case (Cons c cs)
  define d where "d = int (byte c) - 48"
  have d: "0 \<le> d" "d \<le> 9" and c: "isdigit c" using Cons.prems(1) by (auto simp: d_def ctype_defs)
  have rest: "0 \<le> 10 ^ Suc pos * dec_le cs" using Cons.prems(1) dec_le_nonneg [of cs] by simp
  have total: "num + 10 ^ pos * dec_le (c # cs) = num + d * 10 ^ pos + 10 ^ Suc pos * dec_le cs"
    by (simp add: d_def algebra_simps)
  have bound: "num + d * 10 ^ pos + 10 ^ Suc pos * dec_le cs < 3 * 10 ^ 9" using Cons.prems(4) unfolding total .
  with rest Cons.prems(2) have "d * 10 ^ pos < 3 * 10 ^ 9" by linarith
  then have "d * 10 ^ pos \<le> 2 * 10 ^ 9" by (rule digit_place [OF d])
  then have v: "times_ten pos d = Inr (d * 10 ^ pos)" "num + d * 10 ^ pos \<le> 2 ^ 31 - 1"
    using times_ten_eq [of d pos] d Cons.prems(3) by (auto simp: UCHAR_MAX_VALUE_def)
  have pos: "0 \<le> d * 10 ^ pos" using d by simp
  have loop: "dec_loop (c # cs) pos num =
      (if num + d * 10 ^ pos > UCHAR_MAX_VALUE then Inr None else dec_loop cs (Suc pos) (num + d * 10 ^ pos))"
    using c v by (simp add: d_def [symmetric])
  show ?case
  proof (cases "num + d * 10 ^ pos > UCHAR_MAX_VALUE")
    case True
    with rest have "\<not> num + d * 10 ^ pos + 10 ^ Suc pos * dec_le cs \<le> UCHAR_MAX_VALUE" by linarith
    with True show ?thesis unfolding loop total by simp
  next
    case False
    then have "dec_loop cs (Suc pos) (num + d * 10 ^ pos) =
        Inr (if num + d * 10 ^ pos + 10 ^ Suc pos * dec_le cs \<le> UCHAR_MAX_VALUE then Some (num + d * 10 ^ pos + 10 ^ Suc pos * dec_le cs) else None)"
      using Cons.prems bound pos by (intro Cons.IH) auto
    then show ?thesis using False unfolding loop total by simp
  qed
qed simp

fun hex_le :: "string \<Rightarrow> int" where
  "hex_le [] = 0"
| "hex_le (c # cs) = int (xval c) + 16 * hex_le cs"

definition hex_val :: "string \<Rightarrow> int" where
  "hex_val ds = hex_le (rev ds)"

lemma hex_le_nonneg: "0 \<le> hex_le ds"
  by (induction ds) auto

lemma xval_less: "isxdigit c \<Longrightarrow> xval c < 16"
  by (auto simp: xval_def ctype_defs byte_toupper)

lemma int32_shift:
  assumes "0 \<le> d" and "d < 16" and "pos \<le> 7"
  shows "int32 (d * 2 ^ (4 * pos)) = (if pos = 7 \<and> 8 \<le> d then d * 2 ^ 28 - 2 ^ 32 else d * 16 ^ pos)"
proof (cases "pos = 7")
  case True
  show ?thesis
  proof (cases "8 \<le> d")
    case high: True
    have "(d * 2 ^ 28 + 2 ^ 31) mod 2 ^ 32 = (d * 2 ^ 28 - 2 ^ 31 + 2 ^ 32) mod (2 ^ 32 :: int)" by (simp add: add.commute)
    also have "\<dots> = d * 2 ^ 28 - 2 ^ 31" using high assms by (subst mod_add_self2) (auto intro!: mod_pos_pos_trivial)
    finally show ?thesis using True high by (simp add: int32_def)
  next
    case False
    then show ?thesis using True assms by (simp add: int32_def)
  qed
next
  case False
  have "(2::int) ^ (4 * pos) = 16 ^ pos" by (simp add: power_mult)
  moreover have "d * 16 ^ pos \<le> 15 * 16 ^ 6" using assms False by (intro mult_mono power_increasing) auto
  moreover have "0 \<le> d * 16 ^ pos" using assms by simp
  ultimately show ?thesis using False by (simp add: int32_def)
qed

lemma hex_loop_eq:
  assumes "\<forall>c \<in> set cs. isxdigit c" and "0 \<le> num" and "num \<le> UCHAR_MAX_VALUE" and "pos + length cs \<le> 8"
  shows "bindR (hex_loop cs pos num) (numchar U) =
    (if num + 16 ^ pos * hex_le cs \<le> UCHAR_MAX_VALUE then cp2utf8 U (num + 16 ^ pos * hex_le cs) else Inr [])"
  using assms
proof (induction cs arbitrary: pos num)
  case Nil
  then show ?case by (simp add: numchar_def)
next
  case (Cons c cs)
  define d where "d = int (xval c)"
  have d: "0 \<le> d" "d < 16" and c: "xdigit_to_num c = Inr (xval c)" using Cons.prems(1) xval_less by (auto simp: d_def xdigit_to_num_def)
  have rest: "0 \<le> 16 ^ Suc pos * hex_le cs" using hex_le_nonneg [of cs] by simp
  have total: "num + 16 ^ pos * hex_le (c # cs) = num + d * 16 ^ pos + 16 ^ Suc pos * hex_le cs"
    by (simp add: d_def algebra_simps)
  have loop: "hex_loop (c # cs) pos num =
      (let num = num + int32 (d * 2 ^ (4 * pos)) in if num > UCHAR_MAX_VALUE then Inr None else hex_loop cs (Suc pos) num)"
    using c Cons.prems(4) by (simp add: d_def)
  have shift: "int32 (d * 2 ^ (4 * pos)) = (if pos = 7 \<and> 8 \<le> d then d * 2 ^ 28 - 2 ^ 32 else d * 16 ^ pos)"
    using d Cons.prems(4) by (intro int32_shift) auto
  show ?case
  proof (cases "pos = 7 \<and> 8 \<le> d")
    case True
    then have "cs = []" using Cons.prems(4) by simp
    then show ?thesis using True d Cons.prems(2,3) unfolding loop total Let_def shift
      by (simp add: numchar_def UCHAR_MAX_VALUE_def)
  next
    case False
    have nonneg: "0 \<le> d * 16 ^ pos" using d by simp
    show ?thesis
    proof (cases "num + d * 16 ^ pos > UCHAR_MAX_VALUE")
      case True
      with rest have "\<not> num + d * 16 ^ pos + 16 ^ Suc pos * hex_le cs \<le> UCHAR_MAX_VALUE" by linarith
      with True show ?thesis unfolding loop total Let_def shift if_not_P [OF False] by (simp add: numchar_def)
    next
      case in_range: False
      then have "bindR (hex_loop cs (Suc pos) (num + d * 16 ^ pos)) (numchar U) =
          (if num + d * 16 ^ pos + 16 ^ Suc pos * hex_le cs \<le> UCHAR_MAX_VALUE then cp2utf8 U (num + d * 16 ^ pos + 16 ^ Suc pos * hex_le cs) else Inr [])"
        using Cons.prems nonneg by (intro Cons.IH) auto
      then show ?thesis using in_range unfolding loop total Let_def shift if_not_P [OF False] by simp
    qed
  qed
qed

section \<open>Searching for references\<close>

text \<open>The form of the three patterns: a prefix, a run of characters and a semicolon.\<close>

definition ref_re :: "string \<Rightarrow> (char \<Rightarrow> bool) \<Rightarrow> (char \<Rightarrow> bool) \<Rightarrow> regex" where
  "ref_re p a b = Seq (Lit p) (Seq (Grp 1 (Seq (Cls a) (Star (Cls b)))) (Lit '';''))"

text \<open>The reference at the start of a string: its name and the rest.\<close>

definition ref_at :: "string \<Rightarrow> (char \<Rightarrow> bool) \<Rightarrow> (char \<Rightarrow> bool) \<Rightarrow> string \<Rightarrow> (string \<times> string) option" where
  "ref_at p a b s =
     (let t = drop (length p) s in
      if prefix p s \<and> t \<noteq> [] \<and> a (hd t) \<and> prefix '';'' (dropWhile b (tl t))
      then Some (hd t # takeWhile b (tl t), tl (dropWhile b (tl t))) else None)"

lemma matches_Lit: "matches (Lit p) s m = (if prefix p s then [(m, drop (length p) s)] else [])"
  by (induction p arbitrary: s) (auto split: list.splits simp: prefix_Cons)

lemma matches_run:
  assumes "\<And>m c s. b c \<Longrightarrow> act m (c # s) = []"
  shows "concat (map (\<lambda>(m, s). act m s) (matches (Star (Cls b)) t m)) = act m (dropWhile b t)"
proof (induction t)
  case (Cons c cs)
  then show ?case using assms by (simp add: matches.simps(5) [of _ "c # cs"])
qed (simp add: matches.simps(5))

lemma matches_ref:
  assumes "\<not> b (CHR '';'')"
  shows "matches (ref_re p a b) s m = (case ref_at p a b s of None \<Rightarrow> [] | Some (x, rest) \<Rightarrow> [(m(1 \<mapsto> x), rest)])"
proof (cases "prefix p s \<and> drop (length p) s \<noteq> [] \<and> a (hd (drop (length p) s))")
  case True
  then obtain c cs where t: "drop (length p) s = c # cs" and c: "a c" by (cases "drop (length p) s") auto
  let ?act = "\<lambda>m r. matches (Lit '';'') r (m(1 \<mapsto> take (length (c # cs) - length r) (c # cs)))"
  have "matches (Seq (Grp 1 (Seq (Cls a) (Star (Cls b)))) (Lit '';'')) (c # cs) m =
      concat (map (\<lambda>(m, r). ?act m r) (matches (Star (Cls b)) cs m))"
    using c by (simp add: comp_def case_prod_unfold del: Lit.simps)
  also have "\<dots> = ?act m (dropWhile b cs)"
    using assms by (intro matches_run) (auto simp: matches_Lit simp del: Lit.simps)
  finally have "matches (ref_re p a b) s m = ?act m (dropWhile b cs)"
    using True by (simp add: ref_re_def matches_Lit t del: Lit.simps)
  moreover have "take (length (c # cs) - length (dropWhile b cs)) (c # cs) = c # takeWhile b cs"
    using take_length_takeWhile [of cs b] length_dropWhile_le [of b cs] by (simp add: Suc_diff_le)
  ultimately show ?thesis using True t c
    by (auto simp: ref_at_def matches_Lit tl_drop drop_Suc simp del: Lit.simps)
next
  case False
  then show ?thesis
    by (auto simp: ref_re_def ref_at_def matches_Lit Let_def simp del: Lit.simps split: list.splits)
qed

lemma ref_at_shorter: "ref_at p a b s = Some (x, rest) \<Longrightarrow> length rest < length s"
  using length_dropWhile_le [of b "tl (drop (length p) s)"]
  by (auto simp: ref_at_def Let_def prefix_def split: if_splits)

text \<open>The single pass from left to right that the loop amounts to.\<close>

function decode :: "(string \<Rightarrow> (string \<times> string) option) \<Rightarrow> (string \<Rightarrow> string res) \<Rightarrow> string \<Rightarrow> string res" where
  "decode at f [] = Inr []"
| "decode at f (c # cs) =
     (case at (c # cs) of
        Some (x, rest) \<Rightarrow>
          if length rest < Suc (length cs) then bindR (f x) (\<lambda>y. bindR (decode at f rest) (\<lambda>t. Inr (y @ t))) else Inl LogicError
      | None \<Rightarrow> bindR (decode at f cs) (\<lambda>t. Inr (c # t)))"
  by pat_completeness auto
termination by (relation "measure (\<lambda>(at, f, s). length s)") auto

declare decode.simps(2) [simp del]

lemma search_ref:
  assumes "\<not> b (CHR '';'')" and "p \<noteq> []"
  shows "perl_search (ref_re p a b) s =
    (case s of [] \<Rightarrow> None
     | c # cs \<Rightarrow> (case ref_at p a b s of
         Some (x, rest) \<Rightarrow> Some ([], take (length s - length rest) s, rest, [1 \<mapsto> x])
       | None \<Rightarrow> map_option (\<lambda>(pre, x, rest, m). (c # pre, x, rest, m)) (perl_search (ref_re p a b) cs)))"
proof (cases s)
  case Nil
  moreover have "ref_at p a b [] = None" using assms(2) by (simp add: ref_at_def)
  ultimately show ?thesis by (simp add: perl_search.simps [of _ "[]"] matches_ref [where b = b, OF assms(1)])
next
  case (Cons c cs)
  then show ?thesis
    by (simp add: perl_search.simps [of _ "c # cs"] matches_ref [where b = b, OF assms(1)] split: option.splits prod.splits)
qed

lemma search_ref_shorter:
  assumes "\<not> b (CHR '';'')" and "p \<noteq> []" and "perl_search (ref_re p a b) s = Some (pre, x, rest, m)"
  shows "length rest < length s"
  using assms(3)
proof (induction s arbitrary: pre)
  case Nil
  then show ?case by (simp add: search_ref [where a = a and b = b, OF assms(1,2)])
next
  case (Cons c cs)
  show ?case
  proof (cases "ref_at p a b (c # cs)")
    case None
    then obtain pre' where "perl_search (ref_re p a b) cs = Some (pre', x, rest, m)"
      using Cons.prems unfolding search_ref [where a = a and b = b, OF assms(1,2), of "c # cs"] by auto
    then show ?thesis using Cons.IH by fastforce
  next
    case (Some y)
    then show ?thesis
      using Cons.prems ref_at_shorter [of p a b "c # cs"] unfolding search_ref [where a = a and b = b, OF assms(1,2), of "c # cs"]
      by (cases y) auto
  qed
qed

context boost_lib
begin

lemma replace_refs_shift:
  assumes "regex_search B re (c # cs) = map_option (\<lambda>(pre, x, rest, m). (c # pre, x, rest, m)) (regex_search B re cs)"
    and "\<And>pre x rest m. regex_search B re cs = Some (pre, x, rest, m) \<Longrightarrow> length rest < length cs"
  shows "replace_refs B re f (c # cs) = bindR (replace_refs B re f cs) (\<lambda>t. Inr (c # t))"
proof (cases "regex_search B re cs")
  case None
  then show ?thesis by (simp add: replace_refs.simps [of _ _ _ "c # cs"] replace_refs.simps [of _ _ _ cs] assms(1))
next
  case (Some y)
  obtain pre x rest m where y: "y = (pre, x, rest, m)" by (cases y)
  have "length rest < length cs" using assms(2) Some y by blast
  then show ?thesis using Some y
    by (simp add: replace_refs.simps [of _ _ _ "c # cs"] replace_refs.simps [of _ _ _ cs] assms(1) bindR_def split: sum.split)
qed

lemma replace_refs_decode:
  assumes "\<not> b (CHR '';'')" and "p \<noteq> []"
  shows "replace_refs B (ref_re p a b) f s = decode (ref_at p a b) f s"
proof (induction s rule: length_induct)
  case (1 s)
  note search = search_ref [where a = a and b = b, OF assms]
  show ?case
  proof (cases s)
    case Nil
    then show ?thesis by (subst replace_refs.simps) (simp add: regex_search_perl search [of "[]"])
  next
    case (Cons c cs)
    show ?thesis
    proof (cases "ref_at p a b s")
      case (Some y)
      then obtain x rest where y: "ref_at p a b s = Some (x, rest)" by (cases y) auto
      have "length rest < length s" using ref_at_shorter [OF y] .
      then show ?thesis using 1 y unfolding Cons
        by (subst replace_refs.simps) (simp add: regex_search_perl search [of "c # cs"] decode.simps(2))
    next
      case None
      have cs: "replace_refs B (ref_re p a b) f cs = decode (ref_at p a b) f cs" using 1 Cons by simp
      have "replace_refs B (ref_re p a b) f s = bindR (replace_refs B (ref_re p a b) f cs) (\<lambda>t. Inr (c # t))"
        unfolding Cons
      proof (rule replace_refs_shift)
        show "regex_search B (ref_re p a b) (c # cs) =
            map_option (\<lambda>(pre, x, rest, m). (c # pre, x, rest, m)) (regex_search B (ref_re p a b) cs)"
          using None Cons by (simp add: regex_search_perl search [of "c # cs"])
        show "length rest < length cs" if "regex_search B (ref_re p a b) cs = Some (pre, x, rest, m)" for pre x rest m
          using search_ref_shorter [where b = b, OF assms] that by (simp add: regex_search_perl)
      qed
      then show ?thesis using cs None Cons by (simp add: decode.simps(2))
    qed
  qed
qed

end

section \<open>The three patterns\<close>

definition name_start :: "char \<Rightarrow> bool" where
  [ctype_defs]: "name_start c \<longleftrightarrow> isalpha c \<or> c \<in> set ''_:''"

definition name_rest :: "char \<Rightarrow> bool" where
  [ctype_defs]: "name_rest c \<longleftrightarrow> isalnum c \<or> c \<in> set ''_.:-''"

abbreviation entity_at :: "string \<Rightarrow> (string \<times> string) option" where
  "entity_at \<equiv> ref_at ''&'' name_start name_rest"

abbreviation dec_at :: "string \<Rightarrow> (string \<times> string) option" where
  "dec_at \<equiv> ref_at ''&#'' isdigit isdigit"

abbreviation hex_at :: "string \<Rightarrow> (string \<times> string) option" where
  "hex_at \<equiv> ref_at ''&#x'' isxdigit isxdigit"

lemma patterns: "CHAR_ENTITY_RE = ref_re ''&'' name_start name_rest" "DEC_REF_RE = ref_re ''&#'' isdigit isdigit"
  "HEX_REF_RE = ref_re ''&#x'' isxdigit isxdigit"
  by (simp_all add: CHAR_ENTITY_RE_def DEC_REF_RE_def HEX_REF_RE_def ref_re_def Plus_def name_start_def [abs_def] name_rest_def [abs_def])

context boost_lib
begin

lemma replace_all_decode:
  "replace_all_entities B U h s =
     bindR (decode entity_at (\<lambda>x. Inr (char_entity h x)) s) (\<lambda>r.
       bindR (decode dec_at (dec_numchar_ref U) r) (decode hex_at (hex_numchar_ref U)))"
proof -
  have "\<not> name_rest (CHR '';'')" "\<not> isdigit (CHR '';'')" "\<not> isxdigit (CHR '';'')" by (simp_all add: ctype_defs)
  then have "replace_char_entities B h = decode entity_at (\<lambda>x. Inr (char_entity h x))"
    "replace_dec_numchar_ref B U = decode dec_at (dec_numchar_ref U)" "replace_hex_numchar_ref B U = decode hex_at (hex_numchar_ref U)"
    by (simp_all add: fun_eq_iff replace_char_entities_def replace_dec_numchar_ref_def replace_hex_numchar_ref_def patterns replace_refs_decode)
  then show ?thesis by (simp add: replace_all_entities_def)
qed

end

section \<open>Text without references\<close>

lemma ref_at_prefix: "\<not> prefix p s \<Longrightarrow> ref_at p a b s = None"
  by (simp add: ref_at_def)

lemma decode_none:
  assumes "\<not> sublist p s" and "p \<noteq> []"
  shows "decode (ref_at p a b) f s = Inr s"
  using assms(1)
proof (induction s)
  case (Cons c cs)
  then have "\<not> prefix p (c # cs)" and "\<not> sublist p cs" by (auto simp: sublist_Cons_right)
  then show ?case using Cons.IH by (simp add: decode.simps(2) ref_at_prefix)
qed simp

text \<open>The special characters of markup as references.\<close>

definition html_escape_char :: "char \<Rightarrow> string" where
  "html_escape_char c =
     (if c = CHR ''&'' then ''&amp;'' else if c = CHR ''<'' then ''&lt;'' else if c = CHR ''>'' then ''&gt;''
      else if c = CHR 0x22 then ''&quot;'' else [c])"

definition html_escape :: "string \<Rightarrow> string" where
  "html_escape s = concat (map html_escape_char s)"

lemma entity_at_ref:
  assumes "name_start c" and "\<forall>x \<in> set cs. name_rest x"
  shows "entity_at (CHR ''&'' # c # cs @ CHR '';'' # rest) = Some (c # cs, rest)"
proof -
  have "\<not> name_rest (CHR '';'')" by (simp add: ctype_defs)
  then show ?thesis using assms by (simp add: ref_at_def takeWhile_append2 dropWhile_append2)
qed

definition markup_entities :: "entity_handler \<Rightarrow> bool" where
  "markup_entities h \<longleftrightarrow> char_entity h ''amp'' = ''&'' \<and> char_entity h ''lt'' = ''<'' \<and> char_entity h ''gt'' = ''>'' \<and>
     char_entity h ''quot'' = [CHR 0x22]"

lemma decode_escape_char:
  assumes "markup_entities h"
  shows "decode entity_at (\<lambda>x. Inr (char_entity h x)) (html_escape_char c @ s) =
    bindR (decode entity_at (\<lambda>x. Inr (char_entity h x)) s) (\<lambda>t. Inr (c # t))"
proof (cases "html_escape_char c = [c]")
  case True
  then have "c \<noteq> CHR ''&''" by (auto simp: html_escape_char_def)
  then show ?thesis using True by (simp add: decode.simps(2) ref_at_prefix)
next
  case False
  have ref: "decode entity_at (\<lambda>x. Inr (char_entity h x)) (CHR ''&'' # x # xs @ CHR '';'' # s) =
      bindR (decode entity_at (\<lambda>x. Inr (char_entity h x)) s) (\<lambda>t. Inr (char_entity h (x # xs) @ t))"
    if "name_start x" and "\<forall>y \<in> set xs. name_rest y" for x xs
    using entity_at_ref [OF that] by (simp add: decode.simps(2))
  show ?thesis using False assms ref [of "CHR ''a''" "''mp''"] ref [of "CHR ''l''" "''t''"] ref [of "CHR ''g''" "''t''"] ref [of "CHR ''q''" "''uot''"]
    by (auto simp: html_escape_char_def markup_entities_def ctype_defs split: if_splits)
qed

lemma decode_escape: "markup_entities h \<Longrightarrow> decode entity_at (\<lambda>x. Inr (char_entity h x)) (html_escape s) = Inr s"
  by (induction s) (simp_all add: html_escape_def decode_escape_char)

lemma markup_points: "map_of charent_points ''amp'' = Some 0x26" "map_of charent_points ''lt'' = Some 0x3c"
  "map_of charent_points ''gt'' = Some 0x3e" "map_of charent_points ''quot'' = Some 0x22"
  by (simp_all add: charent_points_def charent_latin1_def)

context icu_lib
begin

lemma init_markup:
  assumes "entity_handler_init U = Inr h"
  shows "markup_entities h"
proof -
  obtain h' where "entity_handler_init U = Inr h'"
    and "\<And>n. char_entity h' n = (case map_of charent_points n of Some c \<Rightarrow> utf8_chars c | None \<Rightarrow> [])"
    using entity_handler_ok by blast
  moreover have "utf8_chars 0x26 = ''&''" "utf8_chars 0x3c = ''<''" "utf8_chars 0x3e = ''>''" "utf8_chars 0x22 = [CHR 0x22]"
    using utf8_chars_ascii [of "0x26"] utf8_chars_ascii [of "0x3c"] utf8_chars_ascii [of "0x3e"] utf8_chars_ascii [of "0x22"]
    by (simp_all add: char_of_def bit_Suc_0_iff)
  ultimately show ?thesis using assms by (simp add: markup_entities_def markup_points)
qed

end

section \<open>Properties\<close>

text \<open>
  C34. Text without the start of a numeric reference, with its special characters written as references, is what \<^verbatim>\<open>replace_all_entities\<close>
  gives back, for every Boost and ICU that behave as documented.
\<close>

theorem entities_escape_roundtrip:
  assumes "boost_lib B" and "icu_lib U" and "entity_handler_init U = Inr h" and "\<not> sublist ''&#'' s"
  shows "replace_all_entities B U h (html_escape s) = Inr s"
proof -
  have "\<not> sublist ''&#x'' s" using assms(4) by (auto simp: sublist_def)
  then show ?thesis
    using assms(4) icu_lib.init_markup [OF assms(2,3)] boost_lib.replace_all_decode [OF assms(1)]
    by (simp add: decode_escape decode_none)
qed

theorem entities_escape_roundtrip_witness:
  "\<exists>h. entity_handler_init icu_ref = Inr h \<and> replace_all_entities boost_ref icu_ref h ''a &lt; b &amp;&amp; &quot;'' = Inr (''a < b && '' @ [CHR 0x22])"
proof -
  obtain h where h: "entity_handler_init icu_ref = Inr h" using ref_icu.entity_handler_ok by blast
  have "\<not> sublist ''&#'' (''a < b && '' @ [CHR 0x22])" by code_simp
  from entities_escape_roundtrip [OF ref.boost_lib_axioms ref_icu.icu_lib_axioms h this] show ?thesis
    using h by (simp add: html_escape_def html_escape_char_def)
qed

definition code_point :: "icu \<Rightarrow> int \<Rightarrow> string res" where
  "code_point U n = caught (if n \<le> UCHAR_MAX_VALUE then cp2utf8 U n else Inr [])"

lemma dec_reference:
  assumes "\<forall>c \<in> set ds. isdigit c" and "digits_val ds < 3 * 10 ^ 9"
  shows "dec_numchar_ref U ds = code_point U (int (digits_val ds))"
proof -
  have val: "dec_le (rev ds) = int (digits_val ds)" using assms(1) by (rule dec_le_rev)
  have "dec_loop (rev ds) 0 0 = Inr (if 0 + 10 ^ 0 * dec_le (rev ds) \<le> UCHAR_MAX_VALUE then Some (0 + 10 ^ 0 * dec_le (rev ds)) else None)"
    using assms by (intro dec_loop_eq) (auto simp: UCHAR_MAX_VALUE_def val)
  then show ?thesis by (simp add: val dec_numchar_ref_def code_point_def numchar_def)
qed

lemma code_point_scalar: "scalar_value c \<Longrightarrow> code_point icu_ref c = Inr (utf8_chars c)"
  by (simp add: code_point_def caught_def cp2utf8_def icu_ref_def scalar_value_def)

lemma code_points: "code_point icu_ref 65 = Inr ''A''" "code_point icu_ref 0x20AC = Inr [CHR 0xE2, CHR 0x82, CHR 0xAC]"
  by (simp_all add: code_point_scalar scalar_value_def UCHAR_MAX_VALUE_def utf8_chars_def utf8_encode_def cont_byte_def char_of_def bit_Suc_0_iff)

lemma hex_reference:
  assumes "\<forall>c \<in> set xs. isxdigit c" and "length xs \<le> 8"
  shows "hex_numchar_ref U xs = code_point U (hex_val xs)"
  using assms hex_loop_eq [of "rev xs" 0 0 U] by (simp add: hex_numchar_ref_def code_point_def hex_val_def UCHAR_MAX_VALUE_def)

text \<open>
  C35. A numeric reference stands for the character of its number, and for nothing when there is no such code point, as long as the number
  is below three thousand millions or has at most eight hexadecimal digits.
\<close>

theorem numeric_references:
  assumes "\<forall>c \<in> set ds. isdigit c" and "digits_val ds < 3 * 10 ^ 9" and "\<forall>c \<in> set xs. isxdigit c" and "length xs \<le> 8"
  shows "dec_numchar_ref U ds = code_point U (int (digits_val ds)) \<and> hex_numchar_ref U xs = code_point U (hex_val xs)"
  using assms dec_reference hex_reference by blast

theorem numeric_references_witness:
  "dec_numchar_ref icu_ref ''0065'' = Inr ''A'' \<and> hex_numchar_ref icu_ref ''20AC'' = Inr [CHR 0xE2, CHR 0x82, CHR 0xAC]"
proof -
  have "\<forall>c \<in> set ''0065''. isdigit c" "\<forall>c \<in> set ''20AC''. isxdigit c" by (simp_all add: ctype_defs)
  moreover have "digits_val ''0065'' = 65" "hex_val ''20AC'' = 0x20AC"
    by (simp_all add: digits_val_def hex_val_def xval_def toupper_def islower_def)
  ultimately show ?thesis using numeric_references [of "''0065''" "''20AC''" icu_ref] by (simp add: code_points)
qed

section \<open>What the code does not do\<close>

text \<open>The passes follow one another, so the text of a reference that was escaped is decoded a second time.\<close>

lemma escaped_reference_decoded_twice:
  "\<exists>h. entity_handler_init icu_ref = Inr h \<and> replace_all_entities boost_ref icu_ref h ''&amp;#65;'' = Inr ''A''"
proof -
  obtain h where h: "entity_handler_init icu_ref = Inr h" using ref_icu.entity_handler_ok by blast
  have "html_escape ''&#65;'' = ''&amp;#65;''" by code_simp
  then have "decode entity_at (\<lambda>x. Inr (char_entity h x)) ''&amp;#65;'' = Inr ''&#65;''"
    using decode_escape [OF ref_icu.init_markup [OF h], of "''&#65;''"] by simp
  moreover have "dec_at ''&#65;'' = Some (''65'', [])" "hex_at ''A'' = None" by (simp_all add: ref_at_def isdigit_def)
  moreover have "dec_numchar_ref icu_ref ''65'' = Inr ''A''"
    using dec_reference [of "''65''" icu_ref] code_points(1) by (simp add: isdigit_def digits_val_def)
  ultimately show ?thesis using h by (simp add: ref.replace_all_decode decode.simps(2))
qed

text \<open>A large decimal number overflows, and a ninth hexadecimal digit, even a zero, is shifted by the width of \<^verbatim>\<open>int\<close>.\<close>

lemma dec_reference_overflows: "dec_numchar_ref U ''3000000000'' = Inl Undefined"
  by (simp add: dec_numchar_ref_def caught_def isdigit_def UCHAR_MAX_VALUE_def is_runtime_error_def is_bad_url_def eval_nat_numeral)

lemma hex_reference_ninth_digit: "hex_numchar_ref U ''000000041'' = Inl Undefined"
  by (simp add: hex_numchar_ref_def caught_def xdigit_to_num_def xval_def isxdigit_def isdigit_def UCHAR_MAX_VALUE_def int32_def is_runtime_error_def is_bad_url_def)

text \<open>A reference with an unknown name is removed from the text.\<close>

lemma unknown_entity_removed:
  assumes "entity_handler_init icu_ref = Inr h"
  shows "replace_char_entities boost_ref h ''a&foo;b'' = Inr ''ab''"
proof -
  have "map_of charent_points ''foo'' = None" by code_simp
  then have "char_entity h ''foo'' = []" using ref_icu.entity_handler_ok assms by (metis option.case_eq_if sum.inject(2))
  moreover have "entity_at ''&foo;b'' = Some (''foo'', ''b'')" "entity_at ''a&foo;b'' = None" "entity_at ''b'' = None"
    by (simp_all add: ref_at_def ctype_defs)
  moreover have "\<not> name_rest (CHR '';'')" by (simp add: ctype_defs)
  ultimately show ?thesis
    by (simp add: replace_char_entities_def patterns ref.replace_refs_decode decode.simps(2))
qed

end
