(* ===== verification/Html_lexer.thy ===== *)
theory Html_lexer
  imports Entity Robots
begin

text \<open>
  The lexical analysis of HTML: the class \<^verbatim>\<open>HTML_lexer\<close> of \<^verbatim>\<open>src/html_lexer/HTML_lexer.hh\<close> and \<^verbatim>\<open>src/html_lexer/HTML_lexer.cc\<close> with the
  scanner of \<^verbatim>\<open>src/html_lexer/html.ll\<close>. The scanner takes at every position, of the rules for its start condition, the one
  with the longest match, the first one among equals, as flex documents. The output streams are strings, \<open>None\<close> for a null pointer; string
  streams are always good.
\<close>

section \<open>The libraries\<close>

text \<open>
  Beside the functions of the \<open>boost\<close> and \<open>icu\<close> records: the tokenizer of Boost for a set of separators, the comparison
  without case, \<^verbatim>\<open>regex_search\<close> for a pattern between the anchors of a line, and the text of the exception that a reference
  and a base URL raise.
\<close>

record html_lib =
  hl_boost :: boost
  hl_icu :: icu
  hl_split :: "string \<Rightarrow> string \<Rightarrow> string list"
  hl_iequals :: "string \<Rightarrow> string \<Rightarrow> bool"
  hl_search_line :: "regex \<Rightarrow> string \<Rightarrow> search_result"
  hl_what :: "string \<Rightarrow> url \<Rightarrow> string"

section \<open>The class\<close>

datatype sgml_tok = SGML_EOF | SGML_DATA | SGML_START | SGML_END | SGML_TAGC | SGML_ATTRNAME | SGML_NAME | SGML_NUMBER
  | SGML_NMTOKEN | SGML_LITERAL | SGML_GEREF | SGML_NUMCHARREF | SGML_REFC | SGML_PI | SGML_MARKUP_DECL | SGML_COMMENT
  | SGML_LIMITATION | SGML_ERROR | SGML_WARNING | SGML_MAXTOK

record token =
  tok_type :: sgml_tok
  tok_content :: string

record hlink =
  lk_url :: string
  lk_txt :: string

definition link_clear :: hlink where
  "link_clear = \<lparr>lk_url = [], lk_txt = []\<rparr>"

record analysis =
  an_title :: string
  an_rss2 :: string
  an_rss :: string
  an_atom :: string
  an_charset :: string
  an_index :: bool
  an_follow :: bool

definition analysis_init :: analysis where
  "analysis_init = \<lparr>an_title = [], an_rss2 = [], an_rss = [], an_atom = [], an_charset = [], an_index = True, an_follow = True\<rparr>"

text \<open>The start conditions of the scanner.\<close>

datatype cond = INITIAL | CDATA | TAG | ATTR | ATTRVAL | SCRIPT | MD | COM | DS

record html =
  h_cond :: cond
  h_tokens :: "token list"
  h_did_word_break :: bool
  h_txtout :: "string option"
  h_base_url :: url
  h_lnkout :: "string option"
  h_warnings :: "string option"
  h_analysis :: "analysis option"
  h_get_text :: bool
  h_get_title :: bool
  h_inlink :: bool
  h_nofollow :: bool
  h_curlink :: hlink
  h_entities :: entity_handler

text \<open>The object that the constructor starts from.\<close>

definition html_init :: "entity_handler \<Rightarrow> bool \<Rightarrow> string option \<Rightarrow> string option \<Rightarrow> string option \<Rightarrow> analysis option \<Rightarrow> html" where
  "html_init ents body_tag_only txt lnk warns an =
     \<lparr>h_cond = INITIAL, h_tokens = [], h_did_word_break = False, h_txtout = txt, h_base_url = url_init, h_lnkout = lnk,
      h_warnings = warns, h_analysis = an, h_get_text = (\<not> body_tag_only), h_get_title = False, h_inlink = False,
      h_nofollow = False, h_curlink = link_clear, h_entities = ents\<rparr>"

definition html_new ::
  "html_lib \<Rightarrow> string option \<Rightarrow> bool \<Rightarrow> string option \<Rightarrow> string option \<Rightarrow> string option \<Rightarrow> analysis option \<Rightarrow> html res" where
  "html_new L base_url body_tag_only txt lnk warns an =
     bindR (entity_handler_init (hl_icu L)) (\<lambda>ents.
       let h = html_init ents body_tag_only txt lnk warns an in
       case base_url of None \<Rightarrow> Inr h
       | Some base \<Rightarrow>
           bindR (url_assign (hl_boost L) base url_init) (\<lambda>u. if \<not> absolute u then Inl RuntimeError else Inr (h\<lparr>h_base_url := u\<rparr>)))"

section \<open>Tokens and output\<close>

definition addtoken :: "html_lib \<Rightarrow> sgml_tok \<Rightarrow> string \<Rightarrow> bool \<Rightarrow> html \<Rightarrow> html res" where
  "addtoken L toktype str case_insensitive h =
     bindR (replace_all_entities (hl_boost L) (hl_icu L) (h_entities h) str) (\<lambda>s.
       Inr (h\<lparr>h_tokens := h_tokens h @ [\<lparr>tok_type = toktype, tok_content = (if case_insensitive then to_lower (hl_boost L) s else s)\<rparr>]\<rparr>))"

definition warn_str :: "string \<Rightarrow> html \<Rightarrow> html" where
  "warn_str warning h = h\<lparr>h_warnings := map_option (\<lambda>w. w @ warning) (h_warnings h)\<rparr>"

definition warn :: "string \<Rightarrow> string \<Rightarrow> html \<Rightarrow> html" where
  "warn warning str h = warn_str (warning @ '': yytext: '' @ [CHR 0x22] @ str @ [CHR 0x22, CHR 0x0A]) h"

definition text_add :: "string \<Rightarrow> html \<Rightarrow> html" where
  "text_add text h =
     (let h = (if h_get_title h then h\<lparr>h_analysis := map_option (\<lambda>a. a\<lparr>an_title := an_title a @ text\<rparr>) (h_analysis h)\<rparr> else h);
          h = h\<lparr>h_txtout := map_option (\<lambda>t. t @ text) (h_txtout h)\<rparr>
      in h\<lparr>h_did_word_break := False\<rparr>)"

definition text_word_break :: "html \<Rightarrow> html" where
  "text_word_break h =
     (case h_txtout h of None \<Rightarrow> h
      | Some t \<Rightarrow> if h_did_word_break h then h else h\<lparr>h_txtout := Some (t @ [CHR 0x0A]), h_did_word_break := True\<rparr>)"

text \<open>The absolute form of a reference, as the two users of the base URL compute it.\<close>

definition resolve :: "html_lib \<Rightarrow> url \<Rightarrow> string \<Rightarrow> string res" where
  "resolve L base ref =
     bindR (url_of (hl_boost L) ref) (\<lambda>u.
     bindR (url_normalize (hl_boost L) u) (\<lambda>u.
     if absolute u then Inr (url_get u) else bindR (merge_ref (hl_boost L) base u) (\<lambda>full. Inr (url_get full))))"

definition link_add :: "html_lib \<Rightarrow> string \<Rightarrow> html \<Rightarrow> html res" where
  "link_add L ref h =
     (if \<not> url_empty (h_base_url h) then
        (case resolve L (h_base_url h) ref of
           Inr u \<Rightarrow> Inr (h\<lparr>h_curlink := (h_curlink h)\<lparr>lk_url := u\<rparr>\<rparr>)
         | Inl e \<Rightarrow> if is_runtime_error e then Inr (h\<lparr>h_curlink := link_clear\<rparr>) else Inl e)
      else Inr (h\<lparr>h_curlink := (h_curlink h)\<lparr>lk_url := ref\<rparr>\<rparr>))"

definition link_text_add :: "string \<Rightarrow> html \<Rightarrow> html" where
  "link_text_add text h = (let h = text_add text h in h\<lparr>h_curlink := (h_curlink h)\<lparr>lk_txt := lk_txt (h_curlink h) @ text\<rparr>\<rparr>)"

definition link_text_word_break :: "html \<Rightarrow> html" where
  "link_text_word_break h = h\<lparr>h_curlink := (h_curlink h)\<lparr>lk_txt := lk_txt (h_curlink h) @ '' ''\<rparr>\<rparr>"

definition word_break :: "html \<Rightarrow> html" where
  "word_break h = (if h_get_text h then if h_inlink h then link_text_word_break h else text_word_break h else h)"

text \<open>\<^verbatim>\<open>operator<<\<close> of a link; the comparison is one of signed characters.\<close>

definition link_print :: "hlink \<Rightarrow> string" where
  "link_print l =
     [CHR 0x01] @ filter (\<lambda>c. schar c > 0x08) (lk_url l) @ [CHR 0x02] @ filter (\<lambda>c. schar c > 0x08) (lk_txt l) @ [CHR 0x03]"

definition submit_link :: "html \<Rightarrow> html" where
  "submit_link h =
     (let h = (if lk_url (h_curlink h) \<noteq> [] then h\<lparr>h_lnkout := map_option (\<lambda>t. t @ link_print (h_curlink h)) (h_lnkout h)\<rparr> else h)
      in h\<lparr>h_curlink := link_clear\<rparr>)"

section \<open>Operations of tags\<close>

fun meta_robots_loop :: "html_lib \<Rightarrow> string list \<Rightarrow> analysis \<Rightarrow> analysis" where
  "meta_robots_loop L [] a = a"
| "meta_robots_loop L (t # ts) a =
     (let tok = to_lower (hl_boost L) t in
      if tok = ''index'' then meta_robots_loop L ts (a\<lparr>an_index := True\<rparr>)
      else if tok = ''follow'' then meta_robots_loop L ts (a\<lparr>an_follow := True\<rparr>)
      else if tok = ''all'' then a\<lparr>an_follow := True, an_index := True\<rparr>
      else if tok = ''noindex'' then meta_robots_loop L ts (a\<lparr>an_index := False\<rparr>)
      else if tok = ''nofollow'' then meta_robots_loop L ts (a\<lparr>an_follow := False\<rparr>)
      else if tok = ''none'' then a\<lparr>an_follow := False, an_index := False\<rparr>
      else meta_robots_loop L ts a)"

definition meta_name_robots :: "html_lib \<Rightarrow> string \<Rightarrow> html \<Rightarrow> html" where
  "meta_name_robots L content h = h\<lparr>h_analysis := map_option (meta_robots_loop L (hl_split L '', '' content)) (h_analysis h)\<rparr>"

text \<open>\<^verbatim>\<open>m[i->content] = (i+1)->content\<close> for every name that a literal follows.\<close>

fun tag_map :: "token list \<Rightarrow> (string \<rightharpoonup> string) \<Rightarrow> (string \<rightharpoonup> string)" where
  "tag_map [] m = m"
| "tag_map (i # ts) m =
     tag_map ts (case ts of j # _ \<Rightarrow> if tok_type i = SGML_ATTRNAME \<and> tok_type j = SGML_LITERAL then m(tok_content i \<mapsto> tok_content j) else m
                 | [] \<Rightarrow> m)"

definition META_CHARSET_RE :: regex where
  "META_CHARSET_RE = Seq (Lit ''charset='') (Grp 1 (Plus (Cls (\<lambda>c. \<not> iscntrl c \<and>
     c \<notin> set (''()<>@,;'' @ [CHR 0x5C] @ '':'' @ [CHR 0x22] @ ''/[]?={}'' @ [CHR 0x09])))))"

text \<open>The pattern between its anchors; it ignores case.\<close>

definition META_REFRESH_RE :: regex where
  "META_REFRESH_RE = Seq (Plus (Cls isdigit)) (Seq (LitI ''; url='') (Grp 1 (Plus (Cls (\<lambda>_. True)))))"

definition group_1 :: "search_result \<Rightarrow> string" where
  "group_1 r = (case r of Some (_, _, _, sub) \<Rightarrow> (case sub 1 of Some s \<Rightarrow> s | None \<Rightarrow> []) | None \<Rightarrow> [])"

definition op_meta :: "html_lib \<Rightarrow> html \<Rightarrow> html res" where
  "op_meta L h =
     (case h_analysis h of None \<Rightarrow> Inr h
      | Some _ \<Rightarrow>
          let tag = tag_map (h_tokens h) Map.empty;
              h = (case (tag ''name'', tag ''content'') of
                     (Some name, Some content) \<Rightarrow> if hl_iequals L name ''robots'' then meta_name_robots L content h else h
                   | _ \<Rightarrow> h)
          in case (tag ''http-equiv'', tag ''content'') of
               (Some http_equiv, Some content) \<Rightarrow>
                 if hl_iequals L http_equiv ''content-type'' then
                   Inr (case regex_search (hl_boost L) META_CHARSET_RE content of None \<Rightarrow> h
                        | Some r \<Rightarrow> h\<lparr>h_analysis := map_option (\<lambda>a. a\<lparr>an_charset := trim (hl_boost L) (group_1 (Some r))\<rparr>) (h_analysis h)\<rparr>)
                 else if hl_iequals L http_equiv ''refresh'' then
                   (case hl_search_line L META_REFRESH_RE content of None \<Rightarrow> Inr h
                    | Some r \<Rightarrow> bindR (link_add L (group_1 (Some r)) h) (\<lambda>h. Inr (submit_link h)))
                 else Inr h
             | _ \<Rightarrow> Inr h)"

definition op_title :: "html \<Rightarrow> html" where
  "op_title h = h\<lparr>h_get_text := True, h_get_title := True\<rparr>"

definition op_title_c :: "html \<Rightarrow> html" where
  "op_title_c h = h\<lparr>h_get_title := False, h_get_text := False\<rparr>"

definition op_link :: "html_lib \<Rightarrow> html \<Rightarrow> html res" where
  "op_link L h =
     (case h_analysis h of None \<Rightarrow> Inr h
      | Some _ \<Rightarrow>
          let tag = tag_map (h_tokens h) Map.empty in
          case (tag ''href'', tag ''rel'', tag ''type'') of
            (Some href, Some rel, Some type) \<Rightarrow>
              if \<not> hl_iequals L rel ''alternate'' then Inr h
              else
                let href = trim (hl_boost L) href in
                bindR
                  (if url_empty (h_base_url h) then Inr (href, h)
                   else case resolve L (h_base_url h) href of
                     Inr u \<Rightarrow> Inr (u, h)
                   | Inl e \<Rightarrow>
                       if \<not> is_runtime_error e then Inl e
                       else Inr (href, warn_str ((if is_bad_url e then ''BadUrl exception (link rel): '' else ''runtime_error exception (link rel): '')
                              @ hl_what L href (h_base_url h) @ '' href: '' @ href @ '' base_url: '' @ url_get (h_base_url h)) h))
                  (\<lambda>(href, h). Inr (h\<lparr>h_analysis := map_option (\<lambda>a.
                     if hl_iequals L type ''application/rss+xml'' then a\<lparr>an_rss2 := href\<rparr>
                     else if hl_iequals L type ''application/atom+xml'' then a\<lparr>an_atom := href\<rparr>
                     else if hl_iequals L type ''text/xml'' then a\<lparr>an_rss := href\<rparr>
                     else a) (h_analysis h)\<rparr>))
          | _ \<Rightarrow> Inr h)"

text \<open>\<^verbatim>\<open>s.compare(0, n, t) == 0\<close> for a text of \<open>n\<close> characters. A name that nothing follows is only reported.\<close>

definition starts :: "string \<Rightarrow> string \<Rightarrow> bool" where
  "starts t s \<longleftrightarrow> take (length t) s = t"

fun op_a_loop :: "html_lib \<Rightarrow> token list \<Rightarrow> html \<Rightarrow> html res" where
  "op_a_loop L [] h = Inr h"
| "op_a_loop L (i # ts) h =
     (case ts of j # _ \<Rightarrow>
        if tok_type i = SGML_ATTRNAME \<and> starts ''href'' (tok_content i) \<and> tok_type j = SGML_LITERAL then
          bindR (link_add L (tok_content j) h) (\<lambda>h. op_a_loop L ts (h\<lparr>h_inlink := True\<rparr>))
        else if tok_type i = SGML_ATTRNAME \<and> starts ''rel'' (tok_content i) \<and> tok_type j = SGML_LITERAL then
          op_a_loop L ts (if \<exists>t \<in> set (hl_split L [CHR 0x22, CHR '' ''] (tok_content j)). to_lower (hl_boost L) t = ''nofollow''
                          then h\<lparr>h_nofollow := True\<rparr> else h)
        else op_a_loop L ts h
      | [] \<Rightarrow> op_a_loop L ts h)"

definition op_a :: "html_lib \<Rightarrow> html \<Rightarrow> html res" where
  "op_a L h = (if \<not> h_get_text h then Inr h else op_a_loop L (h_tokens h) h)"

definition op_a_c :: "html \<Rightarrow> html" where
  "op_a_c h =
     (if h_nofollow h then h\<lparr>h_inlink := False, h_nofollow := False\<rparr>
      else if h_inlink h then (submit_link h)\<lparr>h_inlink := False\<rparr> else h)"

fun op_frame_loop :: "html_lib \<Rightarrow> token list \<Rightarrow> html \<Rightarrow> html res" where
  "op_frame_loop L [] h = Inr h"
| "op_frame_loop L (i # ts) h =
     (case ts of j # _ \<Rightarrow>
        if tok_type i = SGML_ATTRNAME \<and> starts ''src'' (tok_content i) \<and> tok_type j = SGML_LITERAL then
          bindR (link_add L (tok_content j) h) (\<lambda>h. op_frame_loop L ts (h\<lparr>h_inlink := True\<rparr>))
        else op_frame_loop L ts h
      | [] \<Rightarrow> op_frame_loop L ts h)"

definition op_frame :: "html_lib \<Rightarrow> html \<Rightarrow> html res" where
  "op_frame L h =
     (if \<not> h_get_text h then Inr h else bindR (op_frame_loop L (h_tokens h) h) (\<lambda>h. Inr (word_break h)))"

definition op_frame_c :: "html \<Rightarrow> html" where
  "op_frame_c h = word_break (if h_inlink h then (submit_link h)\<lparr>h_inlink := False\<rparr> else h)"

definition op_body :: "html \<Rightarrow> html" where
  "op_body h = word_break (h\<lparr>h_get_text := True\<rparr>)"

definition op_body_c :: "html \<Rightarrow> html" where
  "op_body_c h = h\<lparr>h_get_text := False\<rparr>"

definition op_script :: "html \<Rightarrow> html" where
  "op_script h = h\<lparr>h_get_text := False\<rparr>"

definition op_script_c :: "html \<Rightarrow> html" where
  "op_script_c h = (if \<not> h_get_text h then h\<lparr>h_get_text := True\<rparr> else h)"

definition op_style :: "html \<Rightarrow> html" where
  "op_style h = h\<lparr>h_get_text := False\<rparr>"

definition op_style_c :: "html \<Rightarrow> html" where
  "op_style_c h = (if \<not> h_get_text h then h\<lparr>h_get_text := True\<rparr> else h)"

section \<open>The table of tags\<close>

datatype tag_op = Op_body | Op_a | Op_frame | Op_script | Op_style | Op_link | Op_meta | Op_title | Word_break

text \<open>The tags with a word break at their start and at their end.\<close>

definition break_tags :: "string list" where
  "break_tags =
     [''applet'', ''base'', ''blockquote'', ''br'', ''button'', ''caption'', ''dd'', ''div'', ''dfn'', ''dl'', ''dt'', ''fieldset'', ''form'',
      ''h1'', ''head'', ''hr'', ''img'', ''input'', ''li'', ''map'', ''menu'', ''noframes'', ''object'', ''ol'', ''optgroup'', ''option'', ''p'',
      ''param'', ''pre'', ''q'', ''samp'', ''select'', ''table'', ''tbody'', ''td'', ''textarea'', ''tfoot'', ''th'', ''thead'', ''tr'', ''tt'',
      ''ul'', ''xmp'']"

definition named_tags :: "(string \<times> tag_op) list" where
  "named_tags =
     [(''body'', Op_body), (''a'', Op_a), (''frame'', Op_frame), (''iframe'', Op_frame), (''script'', Op_script), (''style'', Op_style),
      (''link'', Op_link), (''title'', Op_title)]"

definition stag_op :: "string \<rightharpoonup> tag_op" where
  "stag_op name = (case map_of named_tags name of Some p \<Rightarrow> Some p
     | None \<Rightarrow> if name = ''meta'' then Some Op_meta else if name \<in> set break_tags then Some Word_break else None)"

definition ctag_op :: "string \<rightharpoonup> tag_op" where
  "ctag_op name = (case map_of named_tags name of Some p \<Rightarrow> Some p
     | None \<Rightarrow> if name = ''meta'' \<or> name \<in> set break_tags then Some Word_break else None)"

definition run_stag :: "html_lib \<Rightarrow> tag_op \<Rightarrow> html \<Rightarrow> html res" where
  "run_stag L p h =
     (case p of Op_body \<Rightarrow> Inr (op_body h) | Op_a \<Rightarrow> op_a L h | Op_frame \<Rightarrow> op_frame L h | Op_script \<Rightarrow> Inr (op_script h)
      | Op_style \<Rightarrow> Inr (op_style h) | Op_link \<Rightarrow> op_link L h | Op_meta \<Rightarrow> op_meta L h | Op_title \<Rightarrow> Inr (op_title h)
      | Word_break \<Rightarrow> Inr (word_break h))"

text \<open>\<^verbatim>\<open>op_link_c\<close> does nothing.\<close>

definition run_ctag :: "tag_op \<Rightarrow> html \<Rightarrow> html" where
  "run_ctag p h =
     (case p of Op_body \<Rightarrow> op_body_c h | Op_a \<Rightarrow> op_a_c h | Op_frame \<Rightarrow> op_frame_c h | Op_script \<Rightarrow> op_script_c h
      | Op_style \<Rightarrow> op_style_c h | Op_link \<Rightarrow> h | Op_meta \<Rightarrow> h | Op_title \<Rightarrow> op_title_c h | Word_break \<Rightarrow> word_break h)"

definition process_front :: "html_lib \<Rightarrow> token \<Rightarrow> html \<Rightarrow> html res" where
  "process_front L cur h =
     (if tok_type cur = SGML_START then (case stag_op (tok_content cur) of Some p \<Rightarrow> run_stag L p h | None \<Rightarrow> Inr h)
      else if tok_type cur = SGML_END then Inr (case ctag_op (tok_content cur) of Some p \<Rightarrow> run_ctag p h | None \<Rightarrow> h)
      else if tok_type cur = SGML_DATA \<and> h_get_text h then
        Inr (if h_inlink h then link_text_add (tok_content cur) h else text_add (tok_content cur) h)
      else Inr h)"

definition process :: "html_lib \<Rightarrow> html \<Rightarrow> html res" where
  "process L h =
     (case h_tokens h of [] \<Rightarrow> Inr h
      | cur # _ \<Rightarrow> bindR (process_front L cur h) (\<lambda>h. Inr (h\<lparr>h_tokens := []\<rparr>)))"

text \<open>\<^verbatim>\<open>reset\<close> changes the streams and the base URL and nothing else.\<close>

definition html_reset :: "html_lib \<Rightarrow> string option \<Rightarrow> string option \<Rightarrow> string option \<Rightarrow> string option \<Rightarrow> analysis option \<Rightarrow> html \<Rightarrow> html res" where
  "html_reset L base_url txt lnk warns an h =
     (let h = h\<lparr>h_txtout := txt\<rparr> in
      bindR (case base_url of None \<Rightarrow> Inr h
             | Some base \<Rightarrow> bindR (url_assign (hl_boost L) base (h_base_url h)) (\<lambda>u. Inr (h\<lparr>h_base_url := u\<rparr>)))
        (\<lambda>h. Inr (h\<lparr>h_lnkout := lnk, h_warnings := warns, h_analysis := an\<rparr>)))"

section \<open>The scanner\<close>

definition ht_name_start :: "char \<Rightarrow> bool" where
  [ctype_defs]: "ht_name_start c \<longleftrightarrow> isalpha c \<or> c \<in> set ''_:''"

definition ht_name_char :: "char \<Rightarrow> bool" where
  [ctype_defs]: "ht_name_char c \<longleftrightarrow> ht_name_start c \<or> isdigit c \<or> c \<in> set ''._:-''"

definition ht_space :: "char \<Rightarrow> bool" where
  [ctype_defs]: "ht_space c \<longleftrightarrow> c = CHR '' '' \<or> c = CHR 0x0A \<or> c = CHR 0x0D \<or> c = CHR 0x09"

definition ht_name :: regex where
  "ht_name = Seq (Cls ht_name_start) (Star (Cls ht_name_char))"

definition ht_ws :: regex where
  "ht_ws = Star (Cls ht_space)"

definition ht_any :: regex where
  "ht_any = Cls (\<lambda>c. c \<noteq> CHR 0x0A)"

definition ht_literal :: regex where
  "ht_literal =
     Alt (Seq (Cls (\<lambda>c. c = CHR 0x22)) (Seq (Star (Cls (\<lambda>c. c \<noteq> CHR 0x22))) (Cls (\<lambda>c. c = CHR 0x22))))
         (Seq (Cls (\<lambda>c. c = CHR 0x27)) (Seq (Star (Cls (\<lambda>c. c \<noteq> CHR 0x27))) (Cls (\<lambda>c. c = CHR 0x27))))"

text \<open>The rules of the file in their order, with the start conditions they are for.\<close>

datatype htoken = HEndTag | HScriptEnd | HEmptyEnd | HMarkupDecl | HEmptyComment | HComment | HMarkedSection | HMarkedEnd | HPi
  | HStartTag | HEmptyStart | HCdataOpen | HCdataText | HCdataClose | HData | HScriptData | HAttrName | HName | HNmToken | HLiteral
  | HUnquoted | HAttrvalClose | HTagClose | HNetClose | HUnclosed | HBadChar | HPero | HMdNumber | HMdName | HMdLiteral | HMdClose
  | HComClose | HMdSubset | HComChar | HMdBad | HDsEnd | HDsClose | HDsSkip | HCdataChar | HNewlines | HUnmatched

text \<open>The pattern of \<open>HCdataText\<close> has its trailing context, three characters that are not consumed, at the end.\<close>

definition html_rules :: "(htoken \<times> (cond \<Rightarrow> bool) \<times> regex) list" where
  "html_rules =
     [(HEndTag, \<lambda>c. c = INITIAL, Seq (Lit ''</'') (Seq ht_name ht_ws)),
      (HScriptEnd, \<lambda>c. c = SCRIPT, Seq (Lit ''</'') (Seq ht_ws (Seq (LitI ''script'') (Seq ht_ws (Lit ''>''))))),
      (HEmptyEnd, \<lambda>c. c = INITIAL, Lit ''</>''),
      (HMarkupDecl, \<lambda>c. c = INITIAL, Seq (Lit ''<!'') (Seq ht_name ht_ws)),
      (HEmptyComment, \<lambda>c. c = INITIAL, Lit ''<!>''),
      (HComment, \<lambda>c. c = INITIAL, Lit ''<!--''),
      (HMarkedSection, \<lambda>c. c = INITIAL, Seq (Lit ''<!['') ht_ws),
      (HMarkedEnd, \<lambda>c. c = INITIAL, Lit '']]>''),
      (HPi, \<lambda>c. c = INITIAL, Seq (Lit ''<?'') (Seq (Star (Cls (\<lambda>c. c \<noteq> CHR ''>''))) (Lit ''>''))),
      (HStartTag, \<lambda>c. c = INITIAL, Seq (Lit ''<'') (Seq ht_name ht_ws)),
      (HEmptyStart, \<lambda>c. c = INITIAL, Lit ''<>''),
      (HCdataOpen, \<lambda>c. c = INITIAL, LitI ''<![CDATA[''),
      (HCdataText, \<lambda>c. c = CDATA, Seq (Star ht_any) (Lit '']]>'')),
      (HCdataClose, \<lambda>c. c = CDATA, Lit '']]>''),
      (HData, \<lambda>c. c = INITIAL, Alt (Star (Cls (\<lambda>c. c \<noteq> CHR ''<''))) ht_any),
      (HScriptData, \<lambda>c. c = SCRIPT, Alt (Star (Cls (\<lambda>c. c \<noteq> CHR ''<''))) ht_any),
      (HAttrName, \<lambda>c. c = ATTR, Seq ht_name (Seq ht_ws (Seq (Lit ''='') ht_ws))),
      (HName, \<lambda>c. c = ATTR, Seq ht_name ht_ws),
      (HNmToken, \<lambda>c. c = ATTRVAL, Seq (Plus (Cls ht_name_char)) ht_ws),
      (HLiteral, \<lambda>c. c = ATTRVAL, Seq ht_literal ht_ws),
      (HUnquoted, \<lambda>c. c = ATTRVAL, Seq (Plus (Cls (\<lambda>c. c \<notin> {CHR '' '', CHR 0x27, CHR 0x22, CHR 0x09, CHR 0x0A, CHR ''>''}))) ht_ws),
      (HAttrvalClose, \<lambda>c. c = ATTRVAL, Lit ''>''),
      (HTagClose, \<lambda>c. c = ATTR \<or> c = TAG, Lit ''>''),
      (HNetClose, \<lambda>c. c = ATTR \<or> c = ATTRVAL, Lit ''/>''),
      (HUnclosed, \<lambda>c. c = ATTR \<or> c = ATTRVAL \<or> c = TAG, Lit ''<''),
      (HBadChar, \<lambda>c. c = ATTR \<or> c = ATTRVAL \<or> c = TAG, ht_any),
      (HPero, \<lambda>c. c = MD, Seq (Lit ''%'') (Seq ht_name (Seq (Opt (Cls (\<lambda>c. c = CHR '';'' \<or> c = CHR 0x0A))) ht_ws))),
      (HMdNumber, \<lambda>c. c = MD, Seq (Plus (Cls isdigit)) ht_ws),
      (HMdName, \<lambda>c. c = MD, Seq ht_name ht_ws),
      (HMdLiteral, \<lambda>c. c = MD, Seq ht_literal ht_ws),
      (HMdClose, \<lambda>c. c = MD, Lit ''>''),
      (HComClose, \<lambda>c. c = COM, Seq (Lit ''--'') (Seq (Star ht_ws) (Lit ''>''))),
      (HMdSubset, \<lambda>c. c = MD, Lit ''[''),
      (HComChar, \<lambda>c. c = COM, ht_any),
      (HMdBad, \<lambda>c. c = MD, ht_any),
      (HDsEnd, \<lambda>c. c = DS, Lit '']]>''),
      (HDsClose, \<lambda>c. c = DS, Lit '']''),
      (HDsSkip, \<lambda>c. c = DS, Plus (Cls (\<lambda>c. c \<noteq> CHR '']''))),
      (HCdataChar, \<lambda>c. c = CDATA, ht_any),
      (HNewlines, \<lambda>c. True, Plus (Cls (\<lambda>c. c = CHR 0x0A \<or> c = CHR 0x0D))),
      (HUnmatched, \<lambda>c. True, ht_any)]"

text \<open>The rule with the longest match, the first among equals.\<close>

fun best_match :: "(htoken \<times> (cond \<Rightarrow> bool) \<times> regex) list \<Rightarrow> cond \<Rightarrow> string \<Rightarrow> (htoken \<times> nat) option" where
  "best_match [] c s = None"
| "best_match ((t, on, r) # rs) c s =
     (let n = (if on c then longest r s else 0) in
      case best_match rs c s of
        None \<Rightarrow> if n = 0 then None else Some (t, n)
      | Some (t', n') \<Rightarrow> if n' \<le> n then Some (t, n) else Some (t', n'))"

text \<open>The loops that shorten \<^verbatim>\<open>yytext\<close> at its end.\<close>

definition strip_end :: "(char \<Rightarrow> bool) \<Rightarrow> string \<Rightarrow> string" where
  "strip_end P s = rev (dropWhile P (rev s))"

definition trailing :: "char \<Rightarrow> bool" where
  "trailing c \<longleftrightarrow> c = CHR 0x20 \<or> c = CHR 0x11 \<or> c = CHR 0x0A \<or> c = CHR 0x0D"

definition quote :: "char \<Rightarrow> bool" where
  "quote c \<longleftrightarrow> c = CHR 0x22 \<or> c = CHR 0x27"

definition unquote :: "string \<Rightarrow> string" where
  "unquote s =
     (let s = strip_end trailing s;
          s = (if s \<noteq> [] \<and> quote (last s) then butlast s else s)
      in if s \<noteq> [] \<and> quote (hd s) then tl s else s)"

text \<open>\<^verbatim>\<open>strncasecmp(yytext, "script", yyleng) == 0\<close>: the comparison ends after \<^verbatim>\<open>yyleng\<close> characters or at the end of the literal.\<close>

definition is_script :: "string \<Rightarrow> bool" where
  "is_script s \<longleftrightarrow> length s \<le> 6 \<and> map tolower s = take (length s) ''script''"

definition begin_with :: "cond \<Rightarrow> html res \<Rightarrow> html res" where
  "begin_with c r = bindR r (\<lambda>h. Inr (h\<lparr>h_cond := c\<rparr>))"

definition html_action :: "html_lib \<Rightarrow> htoken \<Rightarrow> string \<Rightarrow> html \<Rightarrow> html res" where
  "html_action L t yytext h =
     (case t of
        HEndTag \<Rightarrow> begin_with TAG (addtoken L SGML_END (strip_end trailing (drop 2 yytext)) True h)
      | HScriptEnd \<Rightarrow> begin_with INITIAL (addtoken L SGML_END
          (strip_end (\<lambda>c. trailing c \<or> c = CHR ''>'') (dropWhile (\<lambda>c. c = CHR '' '') (drop 2 yytext))) True h)
      | HEmptyEnd \<Rightarrow> Inr (warn ''empty end tag not supported'' yytext h)
      | HMarkupDecl \<Rightarrow> begin_with MD (addtoken L SGML_MARKUP_DECL yytext True h)
      | HEmptyComment \<Rightarrow> process L h
      | HComment \<Rightarrow> begin_with COM (Inr h)
      | HMarkedSection \<Rightarrow> begin_with DS (Inr (warn ''marked sections not supported'' yytext h))
      | HMarkedEnd \<Rightarrow> Inr (warn ''unmatched marked sections end'' yytext h)
      | HPi \<Rightarrow> bindR (addtoken L SGML_PI yytext False h) (process L)
      | HStartTag \<Rightarrow>
          (let y = strip_end trailing (drop 1 yytext) in
           if is_script y then begin_with SCRIPT (bindR (addtoken L SGML_START y True h) (process L))
           else begin_with ATTR (addtoken L SGML_START y True h))
      | HEmptyStart \<Rightarrow> Inr (warn ''empty start tag not supported'' yytext h)
      | HCdataOpen \<Rightarrow> begin_with CDATA (Inr (warn ''CDATA open: '' yytext h))
      | HCdataText \<Rightarrow> begin_with INITIAL (process L (warn ''CDATA close: '' yytext h))
      | HCdataClose \<Rightarrow> begin_with INITIAL (Inr (warn ''CDATA small close: '' yytext h))
      | HData \<Rightarrow> bindR (addtoken L SGML_DATA yytext False h) (process L)
      | HScriptData \<Rightarrow> Inr h
      | HAttrName \<Rightarrow> begin_with ATTRVAL (addtoken L SGML_ATTRNAME (strip_end (\<lambda>c. c = CHR ''='' \<or> isspace c) yytext) True h)
      | HName \<Rightarrow> addtoken L SGML_NAME yytext True h
      | HNmToken \<Rightarrow> begin_with ATTR (addtoken L SGML_NMTOKEN yytext False h)
      | HLiteral \<Rightarrow> begin_with ATTR (addtoken L SGML_LITERAL (unquote yytext) False h)
      | HUnquoted \<Rightarrow> begin_with ATTR (addtoken L SGML_LITERAL (strip_end trailing yytext) False h)
      | HAttrvalClose \<Rightarrow> begin_with INITIAL (process L h)
      | HTagClose \<Rightarrow> begin_with INITIAL (bindR (addtoken L SGML_TAGC yytext False h) (process L))
      | HNetClose \<Rightarrow> begin_with INITIAL (bindR (addtoken L SGML_TAGC yytext False h) (process L))
      | HUnclosed \<Rightarrow> begin_with INITIAL (process L h)
      | HBadChar \<Rightarrow> Inr (warn ''bad character in tag'' yytext h)
      | HPero \<Rightarrow> Inr (warn ''parameter entity reference'' yytext h)
      | HMdNumber \<Rightarrow> addtoken L SGML_NUMBER yytext False h
      | HMdName \<Rightarrow> addtoken L SGML_NAME yytext True h
      | HMdLiteral \<Rightarrow> addtoken L SGML_LITERAL yytext False h
      | HMdClose \<Rightarrow> begin_with INITIAL (bindR (addtoken L SGML_TAGC yytext False h) (process L))
      | HComClose \<Rightarrow> begin_with INITIAL (process L h)
      | HMdSubset \<Rightarrow> begin_with DS (Inr h)
      | HComChar \<Rightarrow> Inr h
      | HMdBad \<Rightarrow> Inr (warn ''illegal character in markup declaration'' yytext h)
      | HDsEnd \<Rightarrow> begin_with INITIAL (Inr h)
      | HDsClose \<Rightarrow> begin_with COM (Inr h)
      | HDsSkip \<Rightarrow> Inr (warn ''declaration subset: skipping'' yytext h)
      | HCdataChar \<Rightarrow> Inr (warn ''cdata unmatched: '' yytext h)
      | HNewlines \<Rightarrow> Inr h
      | HUnmatched \<Rightarrow> Inr (warn ''unmatched: '' yytext h))"

definition consumed :: "htoken \<Rightarrow> nat \<Rightarrow> nat" where
  "consumed t n = (if t = HCdataText then n - 3 else n)"

lemma cdata_text_ends: "html_action L HCdataText y h = Inr h' \<Longrightarrow> h_cond h' = INITIAL"
  by (auto simp: html_action_def begin_with_def bindR_eq_Inr)

lemma best_match_Some:
  assumes "best_match rs c s = Some (t, n)"
  shows "0 < n \<and> (\<exists>on r. (t, on, r) \<in> set rs \<and> on c \<and> n = longest r s)"
  using assms
  by (induction rs arbitrary: t n) (auto simp: Let_def split: option.splits if_splits prod.splits, blast+)

lemma html_rules_cdata: "(HCdataText, on, r) \<in> set html_rules \<Longrightarrow> on c \<Longrightarrow> c = CDATA"
  by (auto simp: html_rules_def)

text \<open>\<^verbatim>\<open>yylex\<close>: at the end of the input the start condition is reset. A character that no rule matches is echoed by the default rule of flex.\<close>

function html_yylex :: "html_lib \<Rightarrow> string \<Rightarrow> html \<Rightarrow> html res" where
  "html_yylex L s h =
     (if s = [] then Inr (h\<lparr>h_cond := INITIAL\<rparr>)
      else case best_match html_rules (h_cond h) s of
        None \<Rightarrow> html_yylex L (tl s) h
      | Some (t, n) \<Rightarrow> bindR (html_action L t (take (consumed t n) s) h) (html_yylex L (drop (consumed t n) s)))"
  by pat_completeness auto
termination
proof (relation "measure (\<lambda>(L, s, h). 2 * length s + (if h_cond h = CDATA then 1 else 0))", goal_cases)
  case (3 L s h p t n h')
  then have t: "0 < n" "\<exists>on r. (t, on, r) \<in> set html_rules \<and> on (h_cond h)" using best_match_Some by blast+
  show ?case
  proof (cases "t = HCdataText")
    case True
    then have "h_cond h = CDATA" using t(2) html_rules_cdata by blast
    moreover have "h_cond h' = INITIAL" using 3 True cdata_text_ends by blast
    ultimately show ?thesis by simp
  next
    case False
    then show ?thesis using 3(1) t(1) by (cases s) (auto simp: consumed_def)
  qed
qed auto

declare html_yylex.simps [simp del]

section \<open>The whole analysis\<close>

record proc_html =
  ph_base_url :: string
  ph_text :: string
  ph_links :: string
  ph_warnings :: string
  ph_analysis :: analysis

definition html_lex :: "html_lib \<Rightarrow> string \<Rightarrow> string \<Rightarrow> proc_html res" where
  "html_lex L html_in base_url =
     bindR (html_new L (if base_url = [] then None else Some base_url) False (Some []) (Some []) (Some []) (Some analysis_init)) (\<lambda>h.
     bindR (html_yylex L html_in h) (\<lambda>h.
       Inr \<lparr>ph_base_url = base_url, ph_text = (case h_txtout h of Some t \<Rightarrow> t | None \<Rightarrow> []),
         ph_links = (case h_lnkout h of Some t \<Rightarrow> t | None \<Rightarrow> []), ph_warnings = (case h_warnings h of Some t \<Rightarrow> t | None \<Rightarrow> []),
         ph_analysis = (case h_analysis h of Some a \<Rightarrow> a | None \<Rightarrow> analysis_init)\<rparr>))"

end
