(* ===== verification/Local_indexer.thy ===== *)
theory Local_indexer
  imports Doc
begin

text \<open>
  The indexer of local documents of \<^verbatim>\<open>src/local_indexer/local_indexer.cc\<close>: what it does with a PDF file, given the output of
  \<^verbatim>\<open>pdftotext\<close>, and the children that it forks, with the handler of the signal that reaps them. The property: there are
  never more children than processors. The walk over the directories is left out.
\<close>

section \<open>A document\<close>

text \<open>\<^verbatim>\<open>char\<close> is signed.\<close>

definition filter_ascii_control :: "string \<Rightarrow> string" where
  "filter_ascii_control s =
     filter (\<lambda>c. \<not> (schar c \<le> 0x9 \<or> schar c \<ge> 0xE \<and> schar c \<le> 0x1F \<or> schar c = 0x7F)) s"

text \<open>The flag \<^verbatim>\<open>FLAG_UTF8_OK\<close> is bit 1. \<open>out\<close> is what \<^verbatim>\<open>pdftotext\<close> printed, or \<open>None\<close> when it failed.\<close>

definition index_pdf ::
  "boost \<Rightarrow> 'db mongo \<Rightarrow> ctypes \<Rightarrow> string \<Rightarrow> string \<Rightarrow> string option \<Rightarrow> 'db \<Rightarrow> 'db res" where
  "index_pdf B M C ns canonical_path out db =
     bindR (url_of B (''file://'' @ canonical_path)) (\<lambda>url.
       let doc = (doc_init C)\<lparr>doc_url := url\<rparr>;
           doc = (case out of
              Some cnt \<Rightarrow> doc\<lparr>doc_content := filter_ascii_control cnt, doc_flags := 2, doc_http_code := 200\<rparr>
            | None \<Rightarrow> doc\<lparr>doc_flags := 0, doc_http_code := 415\<rparr>)
       in bindR (doc_save B M C ns doc db) (\<lambda>(doc, db). Inr db))"

section \<open>The children\<close>

text \<open>
  Where the loop of \<^verbatim>\<open>index\<close> is: before the test of \<^verbatim>\<open>nchilds\<close>, after \<^verbatim>\<open>fork\<close>, after the test and before \<^verbatim>\<open>pause\<close>, or in \<^verbatim>\<open>pause\<close>. A signal
  that is pending is delivered once, however often it was raised.
\<close>

datatype place = At_test | After_fork | Before_pause | In_pause

record pool =
  nchilds :: int
  place :: place
  running :: nat
  zombies :: nat
  sigchld :: bool

definition pool_init :: pool where
  "pool_init = \<lparr>nchilds = 0, place = At_test, running = 0, zombies = 0, sigchld = False\<rparr>"

text \<open>\<open>Fork ok\<close> is the call with its outcome, \<open>Exit\<close> the end of a child, \<open>Reap\<close> the handler.\<close>

datatype pool_event = Test | Fork bool | Count | Pause | Exit | Reap

text \<open>The handler waits for one child, and the signal ends \<^verbatim>\<open>pause\<close>.\<close>

definition chld_reaper :: "pool \<Rightarrow> pool res" where
  "chld_reaper s =
     (if zombies s = 0 then (if running s = 0 then Inl RuntimeError else Inl Undefined)
      else Inr (s\<lparr>zombies := zombies s - 1, nchilds := nchilds s - 1\<rparr>))"

text \<open>\<open>Undefined\<close> is an event that cannot happen.\<close>

fun pool_step :: "int \<Rightarrow> pool_event \<Rightarrow> pool \<Rightarrow> pool res" where
  "pool_step par Test s = (if place s = At_test \<and> nchilds s \<ge> par then Inr (s\<lparr>place := Before_pause\<rparr>) else Inl Undefined)"
| "pool_step par (Fork ok) s =
     (if place s = At_test \<and> \<not> nchilds s \<ge> par
      then Inr (s\<lparr>place := After_fork, running := (if ok then running s + 1 else running s)\<rparr>) else Inl Undefined)"
| "pool_step par Count s =
     (if place s = After_fork then Inr (s\<lparr>place := At_test, nchilds := nchilds s + 1\<rparr>) else Inl Undefined)"
| "pool_step par Pause s = (if place s = Before_pause then Inr (s\<lparr>place := In_pause\<rparr>) else Inl Undefined)"
| "pool_step par Exit s =
     (if running s > 0 then Inr (s\<lparr>running := running s - 1, zombies := zombies s + 1, sigchld := True\<rparr>) else Inl Undefined)"
| "pool_step par Reap s =
     (if sigchld s
      then bindR (chld_reaper (s\<lparr>sigchld := False\<rparr>)) (\<lambda>s. Inr (s\<lparr>place := (if place s = In_pause then At_test else place s)\<rparr>))
      else Inl Undefined)"

inductive pool_reach :: "int \<Rightarrow> pool \<Rightarrow> bool" for par where
  pool_start: "pool_reach par pool_init"
| pool_event: "pool_reach par s \<Longrightarrow> pool_step par ev s = Inr s' \<Longrightarrow> pool_reach par s'"

text \<open>The number of children that the loop has counted or is about to count.\<close>

definition counted :: "pool \<Rightarrow> int" where
  "counted s = nchilds s + (if place s = After_fork then 1 else 0)"

definition pool_inv :: "int \<Rightarrow> pool \<Rightarrow> bool" where
  "pool_inv par s \<longleftrightarrow> int (running s + zombies s) \<le> counted s \<and> counted s \<le> max 0 par \<and> (sigchld s \<longrightarrow> 0 < zombies s)"

lemma pool_step_inv:
  assumes "pool_inv par s" "pool_step par ev s = Inr s'"
  shows "pool_inv par s'"
  using assms by (cases ev) (auto simp: pool_inv_def counted_def chld_reaper_def split: if_splits)

lemma pool_reach_inv: "pool_reach par s \<Longrightarrow> pool_inv par s"
proof (induction rule: pool_reach.induct)
  case pool_start
  show ?case by (simp add: pool_inv_def counted_def pool_init_def)
next
  case (pool_event s ev s')
  then show ?case using pool_step_inv by blast
qed

section \<open>Properties\<close>

text \<open>C39. In whatever order children end and their signals arrive, the indexer never has more children, ended ones that were not reaped
  included, than there are processors, or none when that number is not known; and the handler always finds a child to reap.\<close>

theorem children_bounded:
  assumes "pool_reach par s"
  shows "int (running s + zombies s) \<le> max 0 par \<and> (sigchld s \<longrightarrow> (\<exists>s'. pool_step par Reap s = Inr s'))"
  using pool_reach_inv [OF assms] by (auto simp: pool_inv_def chld_reaper_def)

lemma sample_pool: "pool_reach 1 \<lparr>nchilds = 1, place = At_test, running = 0, zombies = 1, sigchld = True\<rparr>"
proof -
  have "pool_reach 1 \<lparr>nchilds = 0, place = After_fork, running = 1, zombies = 0, sigchld = False\<rparr>"
    by (rule pool_event [OF pool_start, of _ "Fork True"]) (simp add: pool_init_def)
  then have "pool_reach 1 \<lparr>nchilds = 1, place = At_test, running = 1, zombies = 0, sigchld = False\<rparr>"
    by (rule pool_event [of _ _ Count]) simp
  then show ?thesis by (rule pool_event [of _ _ Exit]) simp
qed

theorem children_bounded_witness:
  "int (running \<lparr>nchilds = 1, place = At_test, running = 0, zombies = 1, sigchld = True\<rparr>
      + zombies \<lparr>nchilds = 1, place = At_test, running = 0, zombies = 1, sigchld = True\<rparr>) \<le> max 0 1
   \<and> (\<exists>s'. pool_step 1 Reap \<lparr>nchilds = 1, place = At_test, running = 0, zombies = 1, sigchld = True\<rparr> = Inr s')"
  using children_bounded [OF sample_pool] by simp

section \<open>What the code does not do\<close>

text \<open>The filter of the ASCII control characters removes every byte that is not ASCII, and with it all of UTF-8 but ASCII.\<close>

lemma filter_drops_non_ascii: "c \<in> set (filter_ascii_control s) \<Longrightarrow> byte c < 127"
proof -
  have "schar c \<le> 0x9" if "\<not> byte c < 128"
  proof -
    have "int (byte c) < 256" using byte_less_256 [of c] by linarith
    then have "schar c < 0" unfolding schar_def if_not_P [OF that] by linarith
    then show ?thesis by simp
  qed
  moreover have "schar c = 127" if "byte c = 127" using that by (simp add: schar_def)
  moreover assume "c \<in> set (filter_ascii_control s)"
  ultimately have "byte c < 128" "byte c \<noteq> 127" by (auto simp: filter_ascii_control_def)
  then show "byte c < 127" by linarith
qed

text \<open>A child that ends between the test and \<^verbatim>\<open>pause\<close> is not noticed: with nothing left that could raise a signal, the loop sleeps for ever.\<close>

lemma pause_misses_signal:
  "pool_reach 1 \<lparr>nchilds = 0, place = In_pause, running = 0, zombies = 0, sigchld = False\<rparr>"
  "\<nexists>s'. pool_step 1 ev \<lparr>nchilds = 0, place = In_pause, running = 0, zombies = 0, sigchld = False\<rparr> = Inr s'"
proof -
  have "pool_reach 1 \<lparr>nchilds = 1, place = Before_pause, running = 0, zombies = 1, sigchld = True\<rparr>"
    by (rule pool_event [OF sample_pool, of Test]) simp
  then have "pool_reach 1 \<lparr>nchilds = 0, place = Before_pause, running = 0, zombies = 0, sigchld = False\<rparr>"
    by (rule pool_event [of _ _ Reap]) (simp add: chld_reaper_def)
  then show "pool_reach 1 \<lparr>nchilds = 0, place = In_pause, running = 0, zombies = 0, sigchld = False\<rparr>"
    by (rule pool_event [of _ _ Pause]) simp
  show "\<nexists>s'. pool_step 1 ev \<lparr>nchilds = 0, place = In_pause, running = 0, zombies = 0, sigchld = False\<rparr> = Inr s'"
    by (cases ev) simp_all
qed

text \<open>A \<^verbatim>\<open>fork\<close> that fails is counted as a child.\<close>

lemma failed_fork_counted:
  "bindR (pool_step 1 (Fork False) pool_init) (pool_step 1 Count) = Inr (pool_init\<lparr>nchilds := 1\<rparr>)"
  by (simp add: pool_init_def)

end
