(* ===== verification/Spec2Isabelle.thy ===== *)
theory Spec2Isabelle
  imports Url_Props Robots_Props Text_Sniff Utils_Props Crawler_Props Bencode Entity Html_lexer Local_indexer
begin

text \<open>
  \<^bold>\<open>mycelium\<close> is a web crawler and indexer in C++ and Python. The crawler (\<^verbatim>\<open>src/src/crawler\<close>) reads URLs from its
  connections, queues them by host, fetches for each host \<^verbatim>\<open>robots.txt\<close> and then the headers and the content of the
  documents that it allows, and stores them in MongoDB. Several transfers run at a time; curl and libevent call back. The HTML
  lexer (\<^verbatim>\<open>src/src/html_lexer\<close>) takes the text and the links out of a document. The local indexer (\<^verbatim>\<open>src/src/local_indexer\<close>)
  stores the text of PDF files. The common part (\<^verbatim>\<open>src/src/common\<close>) has the classes of URLs, paths, documents, \<^verbatim>\<open>bencode\<close> values and buckets
  and the utilities.

  \<^bold>\<open>How the sources are modelled.\<close> A class is a record, its operations are functions on that record, and an
  exception is a value of the type \<open>exn\<close> in the result type \<open>'a res\<close> (\<^verbatim>\<open>Prelude\<close>). A failing \<^verbatim>\<open>assert\<close> is the
  exception \<open>AssertFailed\<close>, \<^verbatim>\<open>exit\<close> is \<open>Exited\<close>, and a call that the standard leaves undefined is \<open>Undefined\<close>. The model is of the
  build with assertions; \<^verbatim>\<open>SConstruct\<close> compiles the release build with \<^verbatim>\<open>NDEBUG\<close>, where an assertion is not tested. One
  undefined call is taken as libstdc++ makes it: \<^verbatim>\<open>Path::normalize\<close> of a path without segments increments the end of an empty
  list, which is its own successor, so that nothing happens (\<open>path_normalize\<close>). The text of an exception is not kept. A string is a list of bytes; integers keep their width where they can overflow. Loops are
  recursive functions with a termination proof.

  \<^bold>\<open>Libraries\<close> that are not under \<^verbatim>\<open>src/\<close> are parameters, records of functions with a locale that states what they
  document and an interpretation on concrete functions: \<open>boost\<close> with the locale \<open>boost_lib\<close> (\<^verbatim>\<open>Boost\<close>; \<^verbatim>\<open>Regex\<close> has
  the Perl matching that Boost documents and its language), the order of the heap operations with \<open>classifier_lib\<close>
  (\<^verbatim>\<open>Url_classifier\<close>), the characters and the converter of ICU with \<open>icu_lib\<close> (\<^verbatim>\<open>Entity\<close>), and the database with \<open>mongo_db\<close> (\<^verbatim>\<open>Doc\<close>). The crawler takes a record \<open>cenv\<close> of these and of what curl and the
  system answer; the answers of \<^verbatim>\<open>curl_multi_add_handle\<close> are those that curl documents for it.

  \<^bold>\<open>The theories and the sources.\<close>
  \<^item> \<^verbatim>\<open>Prelude\<close>, \<^verbatim>\<open>Regex\<close>, \<^verbatim>\<open>Boost\<close>, \<^verbatim>\<open>Lines\<close>: what the components share; \<^verbatim>\<open>Lines\<close> is the loop over lines that
    three functions of the program repeat.
  \<^item> \<^verbatim>\<open>Hex\<close>, \<^verbatim>\<open>Utils\<close>, \<^verbatim>\<open>Utils_Props\<close>, \<^verbatim>\<open>Text_Sniff\<close>, \<^verbatim>\<open>Http\<close>: \<^verbatim>\<open>common/utils.hh\<close>, \<^verbatim>\<open>common/utils.cc\<close> and \<^verbatim>\<open>common/timer.hh\<close>.
  \<^item> \<^verbatim>\<open>Url_Chars\<close>, \<^verbatim>\<open>Path\<close>, \<^verbatim>\<open>Url_Regex\<close>, \<^verbatim>\<open>Url\<close>: the classes of \<^verbatim>\<open>common/Url.hh\<close>, \<^verbatim>\<open>common/Url.cc\<close>, \<^verbatim>\<open>common/Path.hh\<close> and \<^verbatim>\<open>common/Path.cc\<close>;
    \<^verbatim>\<open>Url_Facts\<close>, \<^verbatim>\<open>Url_Parse\<close>, \<^verbatim>\<open>Url_Norm\<close> and \<^verbatim>\<open>Url_Props\<close> have the invariant of a parsed URL, the round trip through
    printing, normalisation, and the merge with a reference without authority as RFC 3986 defines it; the statements name the
    paths with dot segments for which the code differs from the RFC.
  \<^item> \<^verbatim>\<open>Doc\<close>: \<^verbatim>\<open>common/Doc.hh\<close> and \<^verbatim>\<open>common/Doc.cc\<close>; what is saved is loaded again, when its strings have no NUL.
  \<^item> \<^verbatim>\<open>Local_indexer\<close>: \<^verbatim>\<open>local_indexer/local_indexer.cc\<close>, what is done with a file and the children with the handler that reaps them;
    there are never more children than processors.
  \<^item> \<^verbatim>\<open>Bencode\<close>: \<^verbatim>\<open>common/bencode.hh\<close> and \<^verbatim>\<open>common/bencode.cc\<close>; the reader has fuel, and two units for every character of the
    input and one more are enough (\<open>bencode_read_ends\<close>), after which more fuel changes nothing.
  \<^item> \<^verbatim>\<open>Entity\<close>: \<^verbatim>\<open>html_lexer/Entity_handler.hh\<close>, \<^verbatim>\<open>html_lexer/Entity_handler.cc\<close> and \<^verbatim>\<open>cp2utf8\<close> of \<^verbatim>\<open>html_lexer/Unicode_wrap.cc\<close>; text that is
    escaped is read back, and numeric references stand for their code points.
  \<^item> \<^verbatim>\<open>Html_lexer\<close>: \<^verbatim>\<open>html_lexer/HTML_lexer.hh\<close>, \<^verbatim>\<open>html_lexer/HTML_lexer.cc\<close> and the scanner \<^verbatim>\<open>html_lexer/html.ll\<close>; the scanner
    ends because every rule but one consumes text, and that one leaves its start condition.
  \<^item> \<^verbatim>\<open>Robots\<close>, \<^verbatim>\<open>Robots_Props\<close>: \<^verbatim>\<open>crawler/Robots.hh\<close>, \<^verbatim>\<open>crawler/Robots.cc\<close> and the scanner \<^verbatim>\<open>crawler/robots.ll\<close>, with the
    longest-match rule of flex; what scanning a file gives, and the decision on a path, which is the documented one where no
    rule is a proper prefix of the path.
  \<^item> \<^verbatim>\<open>Url_classifier\<close>, \<^verbatim>\<open>Classifier_Props\<close>: \<^verbatim>\<open>crawler/Url_classifier.hh\<close> and \<^verbatim>\<open>crawler/Url_classifier.cc\<close>; no URL is lost or
    duplicated, and a consumer is served all that waits.
  \<^item> \<^verbatim>\<open>Crawler\<close>: \<^verbatim>\<open>crawler/crawler.cc\<close>, the handles with their state machine, the callbacks, the input and the settings.
    \<^verbatim>\<open>Crawler_Handle\<close> has the invariant of a handle and what scheduling does, \<^verbatim>\<open>Crawler_Done\<close> the abstract machine of a
    handle and that the handler of a finished transfer implements it, \<^verbatim>\<open>Crawler_Input\<close> the reading of content and of URLs, and
    \<^verbatim>\<open>Crawler_Props\<close> the reachable states of the whole crawler: every URL of a document that is handed to curl is one that the entry made of
    \<^verbatim>\<open>robots.txt\<close> of its host allows, whatever curl answers and in whatever order the events come. A redirection is followed by
    curl itself and is outside of this claim.

  Each theory with properties ends with lemmas on inputs for which the code does not do what it means to or what a
  comment says.

  \<^bold>\<open>Not modelled.\<close> The parts that only pass calls on: the event loop, logging and the progress callback of the
  crawler, file locks, clocks and allocators of the utilities, the buckets of \<^verbatim>\<open>common/bighash\<close>, which are calls on the file system, the streams of \<^verbatim>\<open>common/gzstream\<close> over zlib, the walk over
  the directories of the local indexer,
  the wrappers of the ICU converters (\<^verbatim>\<open>html_lexer/Case_folder\<close> and the class \<^verbatim>\<open>Converter\<close>), the
  Python interfaces (\<^verbatim>\<open>common/common_python.cc\<close>), the scripts under \<^verbatim>\<open>dist\<close>, \<^verbatim>\<open>utils\<close> and \<^verbatim>\<open>doc\<close>, which build and run
  the programs, and the unit tests. The rates in floating point that the crawler only prints are left out. The code under
  \<^verbatim>\<open>3rd_party\<close> is other projects' and appears as the parameters above.
\<close>

end
